(* ===== verification/Prelude.thy ===== *)
theory Prelude
  imports Main "HOL-Library.Word" "HOL-Library.Sublist"
begin

text \<open>
  Shared vocabulary of the development: the error values of the program (common/errors.go), the
  result type of fallible operations, and the list and string routines of the Go standard library
  the program calls (strings.Split, strings.Trim, strings.ToLower, strings.TrimSpace,
  utf8.RuneCountInString), each with the lemmas the component theories share.

  A Go string is a byte string; it is modelled as a string, one character per byte.
\<close>

section \<open>Hint collections\<close>

named_theorems str_simps \<open>unfolding rules of the string routines\<close>

section \<open>Errors and results\<close>

text \<open>
  The sentinel errors of common/errors.go, the two raw errors the lower layers let escape (gorm's
  record-not-found, the storage layer's object-not-found), the sentinels of the SMB gateway
  (smb_server/go/protocol.go) and ErrInternal for every other error value (database
  failures, wrapped messages), which no sentinel test matches.
\<close>

datatype err =
    ErrInvalidInput
  | ErrUnauthorized
  | ErrForbidden
  | ErrNotFound
  | ErrConflict
  | ErrQuotaExceeded
  | ErrRangeNotSatisfiable
  | ErrTooManyRequests
  | ErrRecordNotFound
  | ErrObjectNotFound
  | ErrNotImplemented
  | ErrIsDirectory
  | ErrNotADirectory
  | ErrNotEmpty
  | ErrInternal

type_synonym 'a res = "err + 'a"

fun HTTPStatus :: "err \<Rightarrow> nat" where
  "HTTPStatus ErrInvalidInput = 400"
| "HTTPStatus ErrUnauthorized = 401"
| "HTTPStatus ErrForbidden = 403"
| "HTTPStatus ErrNotFound = 404"
| "HTTPStatus ErrConflict = 409"
| "HTTPStatus ErrQuotaExceeded = 413"
| "HTTPStatus ErrRangeNotSatisfiable = 416"
| "HTTPStatus ErrTooManyRequests = 503"
| "HTTPStatus _ = 500"

section \<open>Splitting and joining\<close>

fun split_on :: "'a \<Rightarrow> 'a list \<Rightarrow> 'a list list" where
  "split_on c [] = [[]]"
| "split_on c (x # xs) =
     (if x = c then [] # split_on c xs
      else (case split_on c xs of [] \<Rightarrow> [[x]] | s # ss \<Rightarrow> (x # s) # ss))"

fun join_with :: "'a \<Rightarrow> 'a list list \<Rightarrow> 'a list" where
  "join_with c [] = []"
| "join_with c [s] = s"
| "join_with c (s # ss) = s @ c # join_with c ss"

lemma split_on_ne [simp]: "split_on c xs \<noteq> []"
  by (induction xs) (auto split: list.splits)

lemma split_on_notin: "s \<in> set (split_on c xs) \<Longrightarrow> c \<notin> set s"
proof (induction xs arbitrary: s)
  case Nil
  then show ?case by simp
next
  case (Cons x xs)
  obtain t ts where t: "split_on c xs = t # ts"
    using split_on_ne by (meson list.exhaust)
  with Cons show ?case by (auto split: if_splits)
qed

lemma split_on_id: "c \<notin> set xs \<Longrightarrow> split_on c xs = [xs]"
  by (induction xs) auto

lemma split_on_append: "c \<notin> set s \<Longrightarrow> split_on c (s @ c # r) = s # split_on c r"
  by (induction s) auto

lemma join_split [simp]: "join_with c (split_on c xs) = xs"
proof (induction xs)
  case Nil
  then show ?case by simp
next
  case (Cons x xs)
  obtain t ts where t: "split_on c xs = t # ts"
    using split_on_ne by (meson list.exhaust)
  with Cons show ?case by (cases ts) auto
qed

lemma split_join: "ss \<noteq> [] \<Longrightarrow> \<forall>s\<in>set ss. c \<notin> set s \<Longrightarrow> split_on c (join_with c ss) = ss"
  by (induction c ss rule: join_with.induct) (auto simp: split_on_id split_on_append)

lemma join_with_Cons: "ss \<noteq> [] \<Longrightarrow> join_with c (s # ss) = s @ c # join_with c ss"
  by (cases ss) auto

lemma join_with_snoc: "ss \<noteq> [] \<Longrightarrow> join_with c (ss @ [s]) = join_with c ss @ c # s"
  by (induction c ss rule: join_with.induct) (auto simp: join_with_Cons)

lemma join_with_eq_Nil: "\<forall>s\<in>set ss. s \<noteq> [] \<Longrightarrow> join_with c ss = [] \<longleftrightarrow> ss = []"
  by (cases ss; cases "tl ss") (auto simp: join_with_Cons)

lemma find_append: "find P (xs @ ys) = (case find P xs of None \<Rightarrow> find P ys | Some x \<Rightarrow> Some x)"
  by (induction xs) auto

lemma filter_key_none: "k \<notin> f ` set xs \<Longrightarrow> filter (\<lambda>x. k = f x) xs = []"
  by (auto simp: filter_empty_conv)

lemma filter_key_one: "distinct (map f xs) \<Longrightarrow> k \<in> set xs \<Longrightarrow> filter (\<lambda>x. f k = f x) xs = [k]"
  by (induction xs) (auto simp: filter_key_none)

section \<open>Trimming\<close>

text \<open>strings.Trim with a single-character cut set.\<close>

definition trim_char :: "'a \<Rightarrow> 'a list \<Rightarrow> 'a list" where
  "trim_char c xs = rev (dropWhile (\<lambda>x. x = c) (rev (dropWhile (\<lambda>x. x = c) xs)))"

lemma trim_char_id: "xs \<noteq> [] \<Longrightarrow> hd xs \<noteq> c \<Longrightarrow> last xs \<noteq> c \<Longrightarrow> trim_char c xs = xs"
  by (cases xs) (auto simp: trim_char_def dropWhile_eq_self_iff hd_rev hd_append)

text \<open>
  strings.TrimSpace: the UTF-8 encodings of the code points unicode.IsSpace accepts.  UTF-8 is
  self-synchronising, so a rune is trimmed exactly when its encoding is a prefix (suffix).
\<close>

definition white_runes :: "string list" where
  "white_runes =
     [[CHR 0x09], [CHR 0x0A], [CHR 0x0B], [CHR 0x0C], [CHR 0x0D], [CHR 0x20], [CHR 0xC2, CHR 0x85],
      [CHR 0xC2, CHR 0xA0], [CHR 0xE1, CHR 0x9A, CHR 0x80], [CHR 0xE2, CHR 0x80, CHR 0x80],
      [CHR 0xE2, CHR 0x80, CHR 0x81], [CHR 0xE2, CHR 0x80, CHR 0x82],
      [CHR 0xE2, CHR 0x80, CHR 0x83], [CHR 0xE2, CHR 0x80, CHR 0x84],
      [CHR 0xE2, CHR 0x80, CHR 0x85], [CHR 0xE2, CHR 0x80, CHR 0x86],
      [CHR 0xE2, CHR 0x80, CHR 0x87], [CHR 0xE2, CHR 0x80, CHR 0x88],
      [CHR 0xE2, CHR 0x80, CHR 0x89], [CHR 0xE2, CHR 0x80, CHR 0x8A],
      [CHR 0xE2, CHR 0x80, CHR 0xA8], [CHR 0xE2, CHR 0x80, CHR 0xA9],
      [CHR 0xE2, CHR 0x80, CHR 0xAF], [CHR 0xE2, CHR 0x81, CHR 0x9F],
      [CHR 0xE3, CHR 0x80, CHR 0x80]]"

fun strip_one :: "string list \<Rightarrow> string \<Rightarrow> string option" where
  "strip_one [] s = None"
| "strip_one (w # ws) s =
     (if w \<noteq> [] \<and> take (length w) s = w then Some (drop (length w) s) else strip_one ws s)"

lemma strip_one_length: "strip_one ws s = Some t \<Longrightarrow> length t < length s"
proof (induction ws)
  case Nil
  then show ?case by simp
next
  case (Cons w ws)
  have "w \<noteq> [] \<Longrightarrow> take (length w) s = w \<Longrightarrow> length (drop (length w) s) < length s"
    by (cases s) (auto simp: diff_less)
  with Cons show ?case by (auto split: if_splits simp del: length_drop)
qed

function strip_left :: "string list \<Rightarrow> string \<Rightarrow> string" where
  "strip_left ws s = (case strip_one ws s of None \<Rightarrow> s | Some t \<Rightarrow> strip_left ws t)"
  by auto
termination
  by (relation "measure (\<lambda>(ws, s). length s)") (auto simp: strip_one_length)

declare strip_left.simps [simp del]

definition TrimSpace :: "string \<Rightarrow> string" where
  "TrimSpace s = rev (strip_left (map rev white_runes) (rev (strip_left white_runes s)))"

text \<open>A string that starts and ends with a visible ASCII character is its own trimming.\<close>

definition visible :: "char \<Rightarrow> bool" where
  "visible c \<longleftrightarrow> 33 \<le> (of_char c :: nat) \<and> (of_char c :: nat) < 128"

lemma strip_one_None:
  "s \<noteq> [] \<Longrightarrow> \<forall>w\<in>set ws. w = [] \<or> hd w \<noteq> hd s \<Longrightarrow> strip_one ws s = None"
  by (induction ws) (auto, metis hd_take length_greater_0_conv list.size(3))

lemma strip_left_visible:
  assumes "s \<noteq> []" "\<forall>w\<in>set ws. w = [] \<or> hd w \<noteq> hd s"
  shows "strip_left ws s = s"
  using strip_one_None[OF assms] by (simp add: strip_left.simps)

lemma white_heads: "\<forall>w\<in>set white_runes. \<not> visible (hd w) \<and> \<not> visible (hd (rev w))"
  by code_simp

lemma TrimSpace_visible:
  assumes "s \<noteq> []" "visible (hd s)" "visible (last s)"
  shows "TrimSpace s = s"
proof -
  have "strip_left white_runes s = s"
    by (rule strip_left_visible) (use assms white_heads in auto)
  moreover have "strip_left (map rev white_runes) (rev s) = rev s"
    by (rule strip_left_visible) (use assms white_heads in \<open>auto simp: hd_rev\<close>)
  ultimately show ?thesis by (simp add: TrimSpace_def)
qed

section \<open>Case mapping\<close>

text \<open>
  strings.ToLower and strings.ToUpper on bytes: ASCII letters are mapped, every other byte is kept.
  This is the library's behaviour on every string whose non-ASCII runes have no case.
\<close>

definition lower_char :: "char \<Rightarrow> char" where
  "lower_char c = (let n = of_char c :: nat in if 65 \<le> n \<and> n \<le> 90 then char_of (n + 32) else c)"

definition upper_char :: "char \<Rightarrow> char" where
  "upper_char c = (let n = of_char c :: nat in if 97 \<le> n \<and> n \<le> 122 then char_of (n - 32) else c)"

definition ToLower :: "string \<Rightarrow> string" where
  "ToLower = map lower_char"

definition ToUpper :: "string \<Rightarrow> string" where
  "ToUpper = map upper_char"

lemma lower_char_idem [simp]: "lower_char (lower_char c) = lower_char c"
  by (auto simp: lower_char_def Let_def)

lemma ToLower_idem [simp]: "ToLower (ToLower s) = ToLower s"
  by (simp add: ToLower_def comp_def)

lemma ToLower_append [simp]: "ToLower (s @ t) = ToLower s @ ToLower t"
  by (simp add: ToLower_def)

lemma length_ToLower [simp]: "length (ToLower s) = length s"
  by (simp add: ToLower_def)

lemma ToLower_Nil [simp]: "ToLower s = [] \<longleftrightarrow> s = []"
  by (simp add: ToLower_def)

section \<open>Runes\<close>

text \<open>
  utf8.DecodeRune on bytes: the width of the first rune; an ill-formed sequence counts as one rune
  of width 1 with the value U+FFFD.
\<close>

definition cont :: "nat \<Rightarrow> nat \<Rightarrow> nat \<Rightarrow> bool" where
  "cont lo hi b \<longleftrightarrow> lo \<le> b \<and> b \<le> hi"

definition second_lo :: "nat \<Rightarrow> nat" where
  "second_lo b = (if b = 0xE0 then 0xA0 else if b = 0xF0 then 0x90 else 0x80)"

definition second_hi :: "nat \<Rightarrow> nat" where
  "second_hi b = (if b = 0xED then 0x9F else if b = 0xF4 then 0x8F else 0xBF)"

definition RuneError :: nat where
  "RuneError = 0xFFFD"

definition decode2 :: "nat \<Rightarrow> nat list \<Rightarrow> nat \<times> nat" where
  "decode2 b bs = (case bs of b1 # _ \<Rightarrow>
       if cont 0x80 0xBF b1 then ((b - 0xC0) * 64 + (b1 - 0x80), 2) else (RuneError, 1)
     | _ \<Rightarrow> (RuneError, 1))"

definition decode3 :: "nat \<Rightarrow> nat list \<Rightarrow> nat \<times> nat" where
  "decode3 b bs = (case bs of b1 # b2 # _ \<Rightarrow>
       if cont (second_lo b) (second_hi b) b1 \<and> cont 0x80 0xBF b2
       then ((b - 0xE0) * 4096 + (b1 - 0x80) * 64 + (b2 - 0x80), 3) else (RuneError, 1)
     | _ \<Rightarrow> (RuneError, 1))"

definition decode4 :: "nat \<Rightarrow> nat list \<Rightarrow> nat \<times> nat" where
  "decode4 b bs = (case bs of b1 # b2 # b3 # _ \<Rightarrow>
       if cont (second_lo b) (second_hi b) b1 \<and> cont 0x80 0xBF b2 \<and> cont 0x80 0xBF b3
       then ((b - 0xF0) * 262144 + (b1 - 0x80) * 4096 + (b2 - 0x80) * 64 + (b3 - 0x80), 4)
       else (RuneError, 1)
     | _ \<Rightarrow> (RuneError, 1))"

fun decode_rune :: "nat list \<Rightarrow> nat \<times> nat" where
  "decode_rune [] = (RuneError, 0)"
| "decode_rune (b # bs) =
     (if b < 0x80 then (b, 1)
      else if 0xC2 \<le> b \<and> b \<le> 0xDF then decode2 b bs
      else if 0xE0 \<le> b \<and> b \<le> 0xEF then decode3 b bs
      else if 0xF0 \<le> b \<and> b \<le> 0xF4 then decode4 b bs
      else (RuneError, 1))"

lemma cont_ge: "cont lo hi z \<Longrightarrow> 0x80 \<le> lo \<Longrightarrow> 0x80 \<le> z"
  by (simp add: cont_def)

lemma second_lo_ge [simp]: "0x80 \<le> second_lo b"
  by (simp add: second_lo_def)

text \<open>The bytes of a multi-byte rune are not ASCII.\<close>

lemma decode2_multi: "0 < snd (decode2 b bs) \<and> list_all (\<lambda>x. 0x80 \<le> x) (take (snd (decode2 b bs) - 1) bs)"
  by (cases bs) (auto simp: decode2_def dest: cont_ge)

lemma decode3_multi: "0 < snd (decode3 b bs) \<and> list_all (\<lambda>x. 0x80 \<le> x) (take (snd (decode3 b bs) - 1) bs)"
  by (cases bs; cases "tl bs") (auto simp: decode3_def take_Cons' dest: cont_ge)

lemma decode4_multi: "0 < snd (decode4 b bs) \<and> list_all (\<lambda>x. 0x80 \<le> x) (take (snd (decode4 b bs) - 1) bs)"
  by (cases bs; cases "tl bs"; cases "tl (tl bs)")
    (auto simp: decode4_def take_Cons' dest: cont_ge)

lemmas decode_multi = decode2_multi decode3_multi decode4_multi

lemma decode_rune_multi:
  "0 < snd (decode_rune (b # bs)) \<and>
   (b < 0x80 \<and> decode_rune (b # bs) = (b, 1) \<or>
    0x80 \<le> b \<and> list_all (\<lambda>x. 0x80 \<le> x) (take (snd (decode_rune (b # bs)) - 1) bs))"
  using decode_multi[of b bs] by simp

lemma decode_rune_width: "bs \<noteq> [] \<Longrightarrow> 0 < snd (decode_rune bs)"
  by (cases bs) (use decode_rune_multi in blast)+

function runes_of :: "nat list \<Rightarrow> nat list" where
  "runes_of bs = (if bs = [] then [] else
     (case decode_rune bs of (r, w) \<Rightarrow> r # runes_of (drop w bs)))"
  by auto
termination
proof (relation "measure length", goal_cases)
  case 1
  then show ?case by simp
next
  case (2 bs r w)
  then have "0 < w" using decode_rune_width[of bs] by (metis 2(2) snd_conv 2(1))
  with 2 show ?case by (cases bs) auto
qed

declare runes_of.simps [simp del]

definition runes :: "string \<Rightarrow> nat list" where
  "runes s = runes_of (map of_char s)"

definition RuneCountInString :: "string \<Rightarrow> nat" where
  "RuneCountInString s = length (runes s)"

end
