(* ===== verification/BucketCoder.thy ===== *)
theory BucketCoder
  imports Prelude
begin

text \<open>
  Object-storage bucket names (utils/bucket_coder.go): the bucket id in base 36, little-endian,
  behind a fixed prefix.  Ids are Go uint values.
\<close>

section \<open>Encoding\<close>

definition bucketPrefix :: string where
  "bucketPrefix = ''orbitcloud-''"

definition Charset :: string where
  "Charset = ''0123456789abcdefghijklmnopqrstuvwxyz''"

function enc_digits :: "nat \<Rightarrow> string" where
  "enc_digits num =
     (if num > 0 then Charset ! (num mod length Charset) # enc_digits (num div length Charset)
      else [])"
  by auto
termination
  by (relation "measure id") (auto simp: Charset_def)

declare enc_digits.simps [simp del]

definition BucketEncoder :: "nat \<Rightarrow> string" where
  "BucketEncoder bucketID =
     (if bucketID = 0 then bucketPrefix @ [Charset ! 0] else bucketPrefix @ enc_digits bucketID)"

section \<open>S3 bucket names (utils/hash.go)\<close>

definition isS3Alnum :: "char \<Rightarrow> bool" where
  "isS3Alnum c \<longleftrightarrow>
     (97 \<le> (of_char c :: nat) \<and> (of_char c :: nat) \<le> 122) \<or>
     (48 \<le> (of_char c :: nat) \<and> (of_char c :: nat) \<le> 57)"

definition ValidateS3BucketName :: "string \<Rightarrow> unit res" where
  "ValidateS3BucketName name =
     (let n = length name in
      if n < 3 \<or> n > 63 then Inl ErrInvalidInput
      else if \<not> isS3Alnum (name ! 0) \<or> \<not> isS3Alnum (name ! (n - 1)) then Inl ErrInvalidInput
      else if \<exists>c\<in>set name. \<not> isS3Alnum c \<and> c \<noteq> CHR ''-'' then Inl ErrInvalidInput
      else Inr ())"

section \<open>Lemmas\<close>

text \<open>The number a digit string denotes, by the position of each character in the charset.\<close>

definition char_pos :: "char \<Rightarrow> nat" where
  "char_pos c = length (takeWhile (\<lambda>x. x \<noteq> c) Charset)"

fun digits_value :: "string \<Rightarrow> nat" where
  "digits_value [] = 0"
| "digits_value (c # cs) = char_pos c + length Charset * digits_value cs"

lemma length_Charset [simp]: "length Charset = 36"
  by (simp add: Charset_def)

lemma Charset_positions: "map char_pos Charset = [0..<36]"
  by code_simp

lemma char_pos_nth: "i < 36 \<Longrightarrow> char_pos (Charset ! i) = i"
  using arg_cong[OF Charset_positions, of "\<lambda>l. l ! i"] by simp

lemma digits_value_enc: "digits_value (enc_digits n) = n"
proof (induction n rule: enc_digits.induct)
  case (1 n)
  then show ?case
    by (subst enc_digits.simps) (auto simp: char_pos_nth)
qed

lemma enc_digits_charset: "set (enc_digits n) \<subseteq> set Charset"
proof (induction n rule: enc_digits.induct)
  case (1 n)
  have "Charset ! (n mod 36) \<in> set Charset" by (rule nth_mem) simp
  with 1 show ?case
    by (subst enc_digits.simps) auto
qed

lemma enc_digits_length: "n < 36 ^ k \<Longrightarrow> length (enc_digits n) \<le> k"
proof (induction k arbitrary: n)
  case 0
  then show ?case by (subst enc_digits.simps) simp
next
  case (Suc k)
  from Suc.prems have "n div 36 < 36 ^ k"
    by (simp add: less_mult_imp_div_less mult.commute)
  with Suc.IH show ?case by (subst enc_digits.simps) auto
qed

lemma enc_digits_ne: "n \<noteq> 0 \<Longrightarrow> enc_digits n \<noteq> []"
  by (subst enc_digits.simps) simp

lemma BucketEncoder_value: "digits_value (drop (length bucketPrefix) (BucketEncoder n)) = n"
proof (cases "n = 0")
  case True
  then show ?thesis using char_pos_nth[of 0] by (simp add: BucketEncoder_def)
qed (simp add: BucketEncoder_def digits_value_enc)

lemma BucketEncoder_shape:
  assumes "n < 2 ^ 64"
  shows "take (length bucketPrefix) (BucketEncoder n) = bucketPrefix"
    and "set (drop (length bucketPrefix) (BucketEncoder n)) \<subseteq> set Charset"
    and "12 \<le> length (BucketEncoder n) \<and> length (BucketEncoder n) \<le> 24"
proof -
  have "n < 36 ^ 13" using assms by simp
  then have "length (enc_digits n) \<le> 13" by (rule enc_digits_length)
  moreover have "n \<noteq> 0 \<Longrightarrow> 1 \<le> length (enc_digits n)"
    using enc_digits_ne[of n] by (simp add: Suc_le_eq)
  ultimately show "12 \<le> length (BucketEncoder n) \<and> length (BucketEncoder n) \<le> 24"
    by (auto simp: BucketEncoder_def bucketPrefix_def)
  have "Charset ! 0 \<in> set Charset" by (rule nth_mem) simp
  then show "set (drop (length bucketPrefix) (BucketEncoder n)) \<subseteq> set Charset"
    using enc_digits_charset by (auto simp: BucketEncoder_def)
  show "take (length bucketPrefix) (BucketEncoder n) = bucketPrefix"
    by (simp add: BucketEncoder_def)
qed

section \<open>Properties\<close>

text \<open>C24: the object-storage name of every bucket id is a legal S3 bucket name, and different ids have
  different names: the digits behind the prefix, read little-endian in base 36, are the id.\<close>

theorem BucketEncoder_sound:
  assumes "n < 2 ^ 64"
  shows "ValidateS3BucketName (BucketEncoder n) = Inr () \<and>
    digits_value (drop (length bucketPrefix) (BucketEncoder n)) = n \<and>
    (\<forall>m. BucketEncoder m = BucketEncoder n \<longrightarrow> m = n)"
proof -
  note sh = BucketEncoder_shape[OF assms]
  let ?e = "BucketEncoder n"
  have cs: "\<forall>c\<in>set Charset. isS3Alnum c" by code_simp
  have pre: "isS3Alnum (CHR ''o'')" "\<forall>c\<in>set bucketPrefix. isS3Alnum c \<or> c = CHR ''-''" by code_simp+
  have e: "?e = bucketPrefix @ drop (length bucketPrefix) ?e"
    using sh(1) by (metis append_take_drop_id)
  have lp: "length bucketPrefix = 11" by (simp add: bucketPrefix_def)
  have ne: "drop (length bucketPrefix) ?e \<noteq> []" using sh(3) lp by auto
  then have "last ?e \<in> set (drop (length bucketPrefix) ?e)" by (metis e last_appendR last_in_set)
  then have "isS3Alnum (?e ! (length ?e - 1))"
    using sh(2,3) cs by (subst last_conv_nth[symmetric]) auto
  moreover have "?e ! 0 = CHR ''o''" by (simp add: BucketEncoder_def bucketPrefix_def)
  moreover have "\<forall>c\<in>set ?e. isS3Alnum c \<or> c = CHR ''-''"
  proof -
    have "set ?e = set bucketPrefix \<union> set (drop (length bucketPrefix) ?e)"
      using arg_cong[OF e, of set] by (simp only: set_append)
    with sh(2) cs pre(2) show ?thesis by blast
  qed
  ultimately have "ValidateS3BucketName ?e = Inr ()"
    using sh(3) pre(1) by (auto simp: ValidateS3BucketName_def Let_def)
  then show ?thesis using BucketEncoder_value by metis
qed

theorem BucketEncoder_sound_witness:
  "ValidateS3BucketName (BucketEncoder 37) = Inr () \<and> BucketEncoder 37 = ''orbitcloud-11''"
proof -
  have "BucketEncoder 37 = ''orbitcloud-11''"
  proof -
    have "enc_digits 1 = [Charset ! 1]"
      using enc_digits.simps[of 1] enc_digits.simps[of 0] by simp
    moreover have "enc_digits 37 = Charset ! 1 # enc_digits 1"
      using enc_digits.simps[of 37] by simp
    moreover have "Charset ! 1 = CHR ''1''" by (simp add: Charset_def)
    ultimately show ?thesis by (simp add: BucketEncoder_def bucketPrefix_def)
  qed
  moreover have "(37 :: nat) < 2 ^ 64" by simp
  ultimately show ?thesis using BucketEncoder_sound[of 37] by blast
qed

end
