(* ===== verification/Ranges.thy ===== *)
theory Ranges
  imports Prelude
begin

text \<open>
  HTTP Range headers (utils/range.go, utils/byte_range.go).  Sizes and offsets are Go int64 values,
  modelled as integers: parseUintPart only returns values up to 2^63 - 1 and file sizes are not
  negative, so no subtraction of ParseRange leaves the int64 range.
\<close>

section \<open>Parsing\<close>

record ByteRange =
  Start :: int
  End :: int

definition Length :: "ByteRange \<Rightarrow> int" where
  "Length r = End r - Start r + 1"

definition is_digit :: "char \<Rightarrow> bool" where
  "is_digit c \<longleftrightarrow> (48 :: nat) \<le> of_char c \<and> (of_char c :: nat) \<le> 57"

definition digit_val :: "char \<Rightarrow> int" where
  "digit_val c = int (of_char c) - 48"

definition max_int64 :: int where
  "max_int64 = 2 ^ 63 - 1"

text \<open>strconv.ParseInt on a string of digits: the value, or an error above the int64 range.\<close>

definition ParseInt :: "string \<Rightarrow> int res" where
  "ParseInt s = (let n = foldl (\<lambda>a c. a * 10 + digit_val c) 0 s in
     if n \<le> max_int64 then Inr n else Inl ErrInternal)"

definition parseUintPart :: "string \<Rightarrow> int res" where
  "parseUintPart s =
     (if s = [] then Inl ErrRangeNotSatisfiable
      else if \<not> list_all is_digit s then Inl ErrRangeNotSatisfiable
      else (case ParseInt s of Inl _ \<Rightarrow> Inl ErrRangeNotSatisfiable | Inr n \<Rightarrow> Inr n))"

definition finalizeRange :: "int \<Rightarrow> int \<Rightarrow> int \<Rightarrow> ByteRange option res" where
  "finalizeRange start en sz =
     (if sz = 0 \<or> start \<ge> sz then Inl ErrRangeNotSatisfiable
      else Inr (Some \<lparr>Start = start, End = (if en \<ge> sz then sz - 1 else en)\<rparr>))"

text \<open>
  The value after the unit prefix; None is "no range: serve everything".  The two
  non-trivial cases of the switch are -sfx (the last bytes) and start-[en].
\<close>

definition suffix_case :: "string \<Rightarrow> int \<Rightarrow> ByteRange option res" where
  "suffix_case endPart sz =
     (case parseUintPart endPart of
        Inl _ \<Rightarrow> Inl ErrRangeNotSatisfiable
      | Inr sfx \<Rightarrow>
          if sfx \<le> 0 then Inl ErrRangeNotSatisfiable
          else let start = sz - sfx in
            finalizeRange (if start < 0 then 0 else start) (sz - 1) sz)"

definition start_case :: "string \<Rightarrow> string \<Rightarrow> int \<Rightarrow> ByteRange option res" where
  "start_case startPart endPart sz =
     (case parseUintPart startPart of
        Inl _ \<Rightarrow> Inl ErrRangeNotSatisfiable
      | Inr start \<Rightarrow>
          if endPart = [] then finalizeRange start (sz - 1) sz
          else (case parseUintPart endPart of
                  Inl _ \<Rightarrow> Inl ErrRangeNotSatisfiable
                | Inr en \<Rightarrow>
                    if start > en then Inl ErrRangeNotSatisfiable
                    else finalizeRange start en sz))"

definition parse_value :: "string \<Rightarrow> int \<Rightarrow> ByteRange option res" where
  "parse_value value sz =
     (if CHR '','' \<in> set value then Inr None
      else if CHR ''-'' \<notin> set value then Inl ErrRangeNotSatisfiable
      else
        let startPart = takeWhile (\<lambda>c. c \<noteq> CHR ''-'') value;
            endPart = drop (length startPart + 1) value in
        if startPart = [] \<and> endPart = [] then Inl ErrRangeNotSatisfiable
        else if startPart = [] then suffix_case endPart sz
        else start_case startPart endPart sz)"

definition ParseRange :: "string \<Rightarrow> int \<Rightarrow> ByteRange option res" where
  "ParseRange header sz =
     (let h = TrimSpace header in
      if h = [] then Inr None
      else if length h < 6 \<or> ToLower (take 6 h) \<noteq> ''bytes='' then Inl ErrRangeNotSatisfiable
      else parse_value (drop 6 h) sz)"

section \<open>Lemmas\<close>

text \<open>Decimal notation, for stating what the parser accepts.\<close>

fun dec :: "nat \<Rightarrow> string" where
  "dec n = (if n < 10 then [char_of (48 + n)] else dec (n div 10) @ [char_of (48 + n mod 10)])"

declare dec.simps [simp del]

lemma dec_ne [simp]: "dec n \<noteq> []"
  by (subst dec.simps) simp

lemma digit_char: "n < 10 \<Longrightarrow> is_digit (char_of (48 + n)) \<and> digit_val (char_of (48 + n)) = int n"
  by (simp add: is_digit_def digit_val_def)

lemma dec_digits: "list_all is_digit (dec n)"
proof (induction n rule: dec.induct)
  case (1 n)
  then show ?case
    by (subst dec.simps) (simp add: digit_char)
qed

lemma dec_visible: "c \<in> set (dec n) \<Longrightarrow> visible c \<and> c \<noteq> CHR ''-'' \<and> c \<noteq> CHR '',''"
  using dec_digits[of n] by (auto simp: list_all_iff is_digit_def visible_def)

lemma dec_value: "foldl (\<lambda>a c. a * 10 + digit_val c) 0 (dec n) = int n"
proof (induction n rule: dec.induct)
  case (1 n)
  then show ?case
    by (subst dec.simps) (simp add: digit_char of_nat_mod of_nat_div)
qed

lemma parseUintPart_dec: "int n \<le> max_int64 \<Longrightarrow> parseUintPart (dec n) = Inr (int n)"
  by (simp add: parseUintPart_def dec_digits ParseInt_def dec_value Let_def)

lemma parseUintPart_bounds:
  assumes "parseUintPart s = Inr n"
  shows "0 \<le> n \<and> n \<le> max_int64"
proof -
  have "0 \<le> a \<Longrightarrow> list_all is_digit s \<Longrightarrow> 0 \<le> foldl (\<lambda>a c. a * 10 + digit_val c) a s" for a
  proof (induction s arbitrary: a)
    case (Cons c s)
    have "0 \<le> digit_val c" using Cons.prems
      by (simp add: is_digit_def digit_val_def)
    with Cons show ?case by simp
  qed simp
  from this[of 0] assms show ?thesis
    by (auto simp: parseUintPart_def ParseInt_def Let_def split: if_splits)
qed

lemma finalizeRange_bounds:
  "finalizeRange s e sz = Inr (Some r) \<Longrightarrow> 0 \<le> s \<Longrightarrow> s < sz \<longrightarrow> s \<le> e \<Longrightarrow>
   0 \<le> Start r \<and> Start r \<le> End r \<and> End r < sz"
  by (auto simp: finalizeRange_def split: if_splits)

lemma suffix_case_bounds:
  "suffix_case e sz = Inr (Some r) \<Longrightarrow> 0 \<le> Start r \<and> Start r \<le> End r \<and> End r < sz"
  by (auto simp: suffix_case_def Let_def split: sum.splits if_splits dest!: finalizeRange_bounds)

lemma start_case_bounds:
  assumes "start_case s e sz = Inr (Some r)"
  shows "0 \<le> Start r \<and> Start r \<le> End r \<and> End r < sz"
proof -
  obtain n where n: "parseUintPart s = Inr n" "0 \<le> n"
    using assms by (auto simp: start_case_def split: sum.splits dest: parseUintPart_bounds)
  from assms n obtain m where "finalizeRange n m sz = Inr (Some r)" "n < sz \<longrightarrow> n \<le> m"
    by (auto simp: start_case_def split: sum.splits if_splits)
  with n(2) show ?thesis using finalizeRange_bounds by blast
qed

lemma parse_value_bounds:
  "parse_value v sz = Inr (Some r) \<Longrightarrow> 0 \<le> Start r \<and> Start r \<le> End r \<and> End r < sz"
  by (auto simp: parse_value_def Let_def split: if_splits
      dest!: suffix_case_bounds start_case_bounds)

text \<open>The three forms of the value, in decimal notation.\<close>

lemma takeWhile_before: "c \<notin> set a \<Longrightarrow> takeWhile (\<lambda>x. x \<noteq> c) (a @ c # b) = a"
  by (induction a) auto

lemma drop_after: "drop (Suc (length a)) (a @ c # b) = b"
  by simp

lemma parse_value_dash:
  "CHR '','' \<notin> set a \<Longrightarrow> CHR '','' \<notin> set b \<Longrightarrow> CHR ''-'' \<notin> set a \<Longrightarrow>
   parse_value (a @ CHR ''-'' # b) sz =
     (if a = [] \<and> b = [] then Inl ErrRangeNotSatisfiable
      else if a = [] then suffix_case b sz else start_case a b sz)"
  by (simp add: parse_value_def Let_def takeWhile_before drop_after del: drop_append)

lemma dec_seps: "CHR ''-'' \<notin> set (dec n)" "CHR '','' \<notin> set (dec n)"
  using dec_visible by blast+

lemma suffix_case_dec:
  "int n \<le> max_int64 \<Longrightarrow> suffix_case (dec n) sz =
     (if n = 0 \<or> sz \<le> 0 then Inl ErrRangeNotSatisfiable
      else Inr (Some \<lparr>Start = max 0 (sz - int n), End = sz - 1\<rparr>))"
  by (auto simp: suffix_case_def parseUintPart_dec finalizeRange_def Let_def)

lemma start_case_dec:
  "int a \<le> max_int64 \<Longrightarrow> int b \<le> max_int64 \<Longrightarrow> 0 \<le> sz \<Longrightarrow> start_case (dec a) (dec b) sz =
     (if a \<le> b \<and> int a < sz then Inr (Some \<lparr>Start = int a, End = min (int b) (sz - 1)\<rparr>)
      else Inl ErrRangeNotSatisfiable)"
  by (auto simp: start_case_def parseUintPart_dec finalizeRange_def)

lemma start_case_open:
  "int a \<le> max_int64 \<Longrightarrow> 0 \<le> sz \<Longrightarrow> start_case (dec a) [] sz =
     (if int a < sz then Inr (Some \<lparr>Start = int a, End = sz - 1\<rparr>)
      else Inl ErrRangeNotSatisfiable)"
  by (auto simp: start_case_def parseUintPart_dec finalizeRange_def)

lemma ParseRange_visible:
  assumes "v \<noteq> []" "visible (last v)"
  shows "ParseRange (''bytes='' @ v) sz = parse_value v sz"
proof -
  have "TrimSpace (''bytes='' @ v) = ''bytes='' @ v"
    by (rule TrimSpace_visible) (use assms in \<open>auto simp: visible_def\<close>)
  moreover have "ToLower ''bytes='' = ''bytes=''" by code_simp
  ultimately show ?thesis by (simp add: ParseRange_def Let_def)
qed


lemma dec_0: "dec 0 = ''0''"
  by code_simp

lemma dec_leading: "hd (dec n) = CHR ''0'' \<Longrightarrow> length (dec n) = 1"
proof (induction n rule: dec.induct)
  case (1 n)
  show ?case
  proof (cases "n < 10")
    case True
    then show ?thesis by (subst dec.simps) simp
  next
    case False
    have h: "hd (dec n) = hd (dec (n div 10))"
      using False by (subst dec.simps) simp
    with 1 False have "length (dec (n div 10)) = 1" by simp
    then obtain c where c: "dec (n div 10) = [c]" by (auto simp: length_Suc_conv)
    with h "1.prems" have "dec (n div 10) = dec 0" by (simp add: dec_0)
    then have "int (n div 10) = int 0" using dec_value by metis
    with False show ?thesis by simp
  qed
qed

lemma ParseRange_cases:
  assumes "int a \<le> max_int64" "int b \<le> max_int64" "0 \<le> sz"
  shows "ParseRange (''bytes='' @ dec a @ ''-'' @ dec b) sz =
      (if a \<le> b \<and> int a < sz then Inr (Some \<lparr>Start = int a, End = min (int b) (sz - 1)\<rparr>)
       else Inl ErrRangeNotSatisfiable)"
    and "ParseRange (''bytes='' @ dec a @ ''-'') sz =
      (if int a < sz then Inr (Some \<lparr>Start = int a, End = sz - 1\<rparr>)
       else Inl ErrRangeNotSatisfiable)"
    and "ParseRange (''bytes=-'' @ dec a) sz =
      (if a = 0 \<or> sz = 0 then Inl ErrRangeNotSatisfiable
       else Inr (Some \<lparr>Start = max 0 (sz - int a), End = sz - 1\<rparr>))"
proof -
  have v: "visible (last (dec n))" for n using dec_visible[of "last (dec n)" n] by simp
  have vd: "visible (CHR ''-'')" by (simp add: visible_def)
  show "ParseRange (''bytes='' @ dec a @ ''-'' @ dec b) sz =
      (if a \<le> b \<and> int a < sz then Inr (Some \<lparr>Start = int a, End = min (int b) (sz - 1)\<rparr>)
       else Inl ErrRangeNotSatisfiable)"
    using ParseRange_visible[of "dec a @ ''-'' @ dec b" sz] v[of b] assms
    by (simp add: parse_value_dash dec_seps start_case_dec)
  show "ParseRange (''bytes='' @ dec a @ ''-'') sz =
      (if int a < sz then Inr (Some \<lparr>Start = int a, End = sz - 1\<rparr>) else Inl ErrRangeNotSatisfiable)"
    using ParseRange_visible[of "dec a @ ''-''" sz] vd assms parse_value_dash[of "dec a" "[]" sz]
    by (simp add: dec_seps start_case_open)
  show "ParseRange (''bytes=-'' @ dec a) sz =
      (if a = 0 \<or> sz = 0 then Inl ErrRangeNotSatisfiable
       else Inr (Some \<lparr>Start = max 0 (sz - int a), End = sz - 1\<rparr>))"
    using ParseRange_visible[of "''-'' @ dec a" sz] v[of a] assms parse_value_dash[of "[]" "dec a" sz]
    by (simp add: dec_seps suffix_case_dec)
qed

section \<open>Properties\<close>

text \<open>C23: a range that ParseRange returns lies inside the file: GetRange is never asked for bytes
  outside it, and the length is at least 1 and at most the file size.\<close>

theorem ParseRange_inside:
  assumes "ParseRange header sz = Inr (Some r)"
  shows "0 \<le> Start r \<and> Start r \<le> End r \<and> End r < sz \<and> 1 \<le> Length r \<and> Length r \<le> sz"
proof -
  have "0 \<le> Start r \<and> Start r \<le> End r \<and> End r < sz"
    using assms by (auto simp: ParseRange_def Let_def split: if_splits dest: parse_value_bounds)
  then show ?thesis by (simp add: Length_def)
qed

theorem ParseRange_inside_witness:
  "ParseRange ''bytes=-500'' 300 = Inr (Some \<lparr>Start = 0, End = 299\<rparr>) \<and>
   Length \<lparr>Start = 0, End = 299\<rparr> \<le> 300"
proof -
  have "ParseRange ''bytes=-500'' 300 = Inr (Some \<lparr>Start = 0, End = 299\<rparr>)" by code_simp
  from this ParseRange_inside[OF this] show ?thesis by simp
qed

text \<open>For every size and all numbers in the int64 range ParseRange reads the three forms of the
  header as RFC 7233 says: the end is clipped to the file, a suffix longer than the file is the whole
  file, and the range is refused exactly when it is empty or starts behind the file.\<close>

lemma ParseRange_forms:
  assumes "int a \<le> max_int64" "int b \<le> max_int64" "0 \<le> sz"
  shows "ParseRange (''bytes='' @ dec a @ ''-'' @ dec b) sz =
      (if a \<le> b \<and> int a < sz then Inr (Some \<lparr>Start = int a, End = min (int b) (sz - 1)\<rparr>)
       else Inl ErrRangeNotSatisfiable) \<and>
    ParseRange (''bytes='' @ dec a @ ''-'') sz =
      (if int a < sz then Inr (Some \<lparr>Start = int a, End = sz - 1\<rparr>)
       else Inl ErrRangeNotSatisfiable) \<and>
    ParseRange (''bytes=-'' @ dec a) sz =
      (if a = 0 \<or> sz = 0 then Inl ErrRangeNotSatisfiable
       else Inr (Some \<lparr>Start = max 0 (sz - int a), End = sz - 1\<rparr>))"
  using ParseRange_cases[OF assms] by blast

lemma ParseRange_forms_witness:
  "ParseRange (''bytes='' @ dec 10 @ ''-'' @ dec 99) 50 = Inr (Some \<lparr>Start = 10, End = 49\<rparr>) \<and>
   ParseRange (''bytes='' @ dec 10 @ ''-'') 10 = Inl ErrRangeNotSatisfiable \<and>
   ParseRange (''bytes=-'' @ dec 10) 50 = Inr (Some \<lparr>Start = 40, End = 49\<rparr>)"
  using ParseRange_forms[of 10 99 50] ParseRange_forms[of 10 10 10]
  by (simp add: max_int64_def)

end
