(* ===== verification/Effects.thy ===== *)
theory Effects
  imports Prelude
begin

text \<open>
  Effects of the service layer: a computation reads and changes a state and ends with a value, with
  an error of the program, or not at all.  Hang is the outcome of a loop that the model has
  cut off at its bound; the component theories prove where it cannot happen.
  The second half is a small logic of triples, with one rule per combinator in the collection
  hoare, by which the component theories prove what their operations keep.
\<close>

section \<open>Computations\<close>

datatype 'a outcome = Ok 'a | Err err | Hang

type_synonym ('s, 'a) M = "'s \<Rightarrow> 'a outcome \<times> 's"

definition returnM :: "'a \<Rightarrow> ('s, 'a) M" where
  "returnM x = (\<lambda>s. (Ok x, s))"

definition throwM :: "err \<Rightarrow> ('s, 'a) M" where
  "throwM e = (\<lambda>s. (Err e, s))"

definition hangM :: "('s, 'a) M" where
  "hangM = (\<lambda>s. (Hang, s))"

definition bindM :: "('s, 'a) M \<Rightarrow> ('a \<Rightarrow> ('s, 'b) M) \<Rightarrow> ('s, 'b) M" where
  "bindM m f = (\<lambda>s. case m s of
      (Ok x, s') \<Rightarrow> f x s'
    | (Err e, s') \<Rightarrow> (Err e, s')
    | (Hang, s') \<Rightarrow> (Hang, s'))"

definition thenM :: "('s, 'a) M \<Rightarrow> ('s, 'b) M \<Rightarrow> ('s, 'b) M" where
  "thenM m k = bindM m (\<lambda>_. k)"

definition getsM :: "('s \<Rightarrow> 'a) \<Rightarrow> ('s, 'a) M" where
  "getsM f = (\<lambda>s. (Ok (f s), s))"

definition modifyM :: "('s \<Rightarrow> 's) \<Rightarrow> ('s, unit) M" where
  "modifyM f = (\<lambda>s. (Ok (), f s))"

text \<open>An error as a value, for code that inspects the error of a call.\<close>

definition tryM :: "('s, 'a) M \<Rightarrow> ('s, err + 'a) M" where
  "tryM m = (\<lambda>s. case m s of
      (Ok x, s') \<Rightarrow> (Ok (Inr x), s')
    | (Err e, s') \<Rightarrow> (Ok (Inl e), s')
    | (Hang, s') \<Rightarrow> (Hang, s'))"

definition liftM :: "'a res \<Rightarrow> ('s, 'a) M" where
  "liftM r = (case r of Inl e \<Rightarrow> throwM e | Inr x \<Rightarrow> returnM x)"

definition guardM :: "bool \<Rightarrow> err \<Rightarrow> ('s, unit) M" where
  "guardM b e = (if b then returnM () else throwM e)"

definition whenM :: "bool \<Rightarrow> ('s, unit) M \<Rightarrow> ('s, unit) M" where
  "whenM b m = (if b then m else returnM ())"

text \<open>A call whose error is only logged.\<close>

definition ignoreM :: "('s, 'a) M \<Rightarrow> ('s, unit) M" where
  "ignoreM m = thenM (tryM m) (returnM ())"

text \<open>A deferred call, whose error is only logged.\<close>

definition finallyM :: "('s, 'a) M \<Rightarrow> ('s, unit) M \<Rightarrow> ('s, 'a) M" where
  "finallyM m k = bindM (tryM m) (\<lambda>r. thenM (ignoreM k) (liftM r))"

fun forM :: "'a list \<Rightarrow> ('a \<Rightarrow> ('s, unit) M) \<Rightarrow> ('s, unit) M" where
  "forM [] f = returnM ()"
| "forM (x # xs) f = thenM (f x) (forM xs f)"

fun mapM :: "('a \<Rightarrow> ('s, 'b) M) \<Rightarrow> 'a list \<Rightarrow> ('s, 'b list) M" where
  "mapM f [] = returnM []"
| "mapM f (x # xs) = bindM (f x) (\<lambda>y. bindM (mapM f xs) (\<lambda>ys. returnM (y # ys)))"

named_theorems effects \<open>the combinators as functions of the state\<close>

lemmas [effects] = returnM_def throwM_def hangM_def bindM_def thenM_def getsM_def modifyM_def
  tryM_def liftM_def guardM_def whenM_def ignoreM_def

lemma bindM_Ok: "m s = (Ok x, s') \<Longrightarrow> bindM m f s = f x s'"
  by (simp add: bindM_def)

lemma bindM_Err: "m s = (Err e, s') \<Longrightarrow> bindM m f s = (Err e, s')"
  by (simp add: bindM_def)

lemma bindM_OkE:
  assumes "bindM m f s = (Ok y, t)"
  obtains x s' where "m s = (Ok x, s')" "f x s' = (Ok y, t)"
  using assms by (auto simp: bindM_def split: prod.splits outcome.splits)

lemma tryM_InrD: "tryM m w = (Ok (Inr x), w') \<Longrightarrow> m w = (Ok x, w')"
  by (auto simp: tryM_def split: prod.splits outcome.splits)

lemma thenM_OkE:
  assumes "thenM m k s = (Ok y, t)"
  obtains x s' where "m s = (Ok x, s')" "k s' = (Ok y, t)"
  using assms unfolding thenM_def by (rule bindM_OkE)

lemma return_bind [simp]: "bindM (returnM x) f = f x"
  by (simp add: bindM_def returnM_def)

lemma throw_bind [simp]: "bindM (throwM e) f = throwM e"
  by (simp add: bindM_def throwM_def)

lemma bind_return [simp]: "bindM m returnM = m"
  by (auto simp: bindM_def returnM_def split: prod.splits outcome.splits)

lemma bind_assoc: "bindM (bindM m f) g = bindM m (\<lambda>x. bindM (f x) g)"
  by (auto simp: bindM_def split: prod.splits outcome.splits)

section \<open>Running computations\<close>

text \<open>
  Equations by which the simplifier runs a computation from a state, and congruence rules that keep
  it from looking into a continuation before its turn.
\<close>

named_theorems run \<open>equations that run a computation\<close>

lemma bindM_run [run]: "bindM m f s = (case m s of (Ok x, s') \<Rightarrow> f x s'
    | (Err e, s') \<Rightarrow> (Err e, s') | (Hang, s') \<Rightarrow> (Hang, s'))"
  by (simp add: bindM_def)

lemma thenM_run [run]: "thenM m k s = bindM m (\<lambda>_. k) s"
  by (simp add: thenM_def)

lemma tryM_run [run]: "tryM m s = (case m s of (Ok x, s') \<Rightarrow> (Ok (Inr x), s')
    | (Err e, s') \<Rightarrow> (Ok (Inl e), s') | (Hang, s') \<Rightarrow> (Hang, s'))"
  by (simp add: tryM_def)

lemma ignoreM_run [run]: "ignoreM m s = thenM (tryM m) (returnM ()) s"
  by (simp add: ignoreM_def)

lemma basic_run [run]:
  "returnM x s = (Ok x, s)" "throwM e s = (Err e, s)" "hangM s = (Hang, s)" "getsM f s = (Ok (f s), s)"
  "modifyM g s = (Ok (), g s)"
  by (simp_all add: returnM_def throwM_def hangM_def getsM_def modifyM_def)

lemma finallyM_run [run]: "finallyM m k s = bindM (tryM m) (\<lambda>r. thenM (ignoreM k) (liftM r)) s"
  by (simp add: finallyM_def)

lemma liftM_run [run]: "liftM r s = (case r of Inl e \<Rightarrow> (Err e, s) | Inr x \<Rightarrow> (Ok x, s))"
  by (simp add: liftM_def throwM_def returnM_def split: sum.splits)

lemma guardM_run [run]: "guardM b e s = (if b then (Ok (), s) else (Err e, s))"
  by (simp add: guardM_def returnM_def throwM_def)

lemma whenM_run [run]: "whenM b m s = (if b then m s else (Ok (), s))"
  by (simp add: whenM_def returnM_def)

lemma run_cong:
  "s = s' \<Longrightarrow> bindM m f s = bindM m f s'" "s = s' \<Longrightarrow> thenM m k s = thenM m k s'"
  "s = s' \<Longrightarrow> tryM m s = tryM m s'" "s = s' \<Longrightarrow> ignoreM m s = ignoreM m s'"
  by simp_all

section \<open>Triples\<close>

text \<open>
  valid P m Q E: from a state in P, a value of m is in Q and an
  error in E, both together with the state they leave.
\<close>

definition valid ::
  "('s \<Rightarrow> bool) \<Rightarrow> ('s, 'a) M \<Rightarrow> ('a \<Rightarrow> 's \<Rightarrow> bool) \<Rightarrow> (err \<Rightarrow> 's \<Rightarrow> bool) \<Rightarrow> bool" where
  "valid P m Q E \<longleftrightarrow> (\<forall>s. P s \<longrightarrow>
     (case m s of (Ok x, t) \<Rightarrow> Q x t | (Err e, t) \<Rightarrow> E e t | (Hang, t) \<Rightarrow> True))"

abbreviation preserves :: "('s \<Rightarrow> bool) \<Rightarrow> ('s, 'a) M \<Rightarrow> bool" where
  "preserves I m \<equiv> valid I m (\<lambda>_. I) (\<lambda>_. I)"

named_theorems hoare \<open>triples of the combinators and of the operations\<close>

lemma validI:
  assumes "\<And>s x t. P s \<Longrightarrow> m s = (Ok x, t) \<Longrightarrow> Q x t"
    and "\<And>s e t. P s \<Longrightarrow> m s = (Err e, t) \<Longrightarrow> E e t"
  shows "valid P m Q E"
  using assms by (auto simp: valid_def split: outcome.splits)

lemma valid_OkD: "valid P m Q E \<Longrightarrow> P s \<Longrightarrow> m s = (Ok x, t) \<Longrightarrow> Q x t"
  by (auto simp: valid_def dest: spec[of _ s])

lemma valid_ErrD: "valid P m Q E \<Longrightarrow> P s \<Longrightarrow> m s = (Err e, t) \<Longrightarrow> E e t"
  by (auto simp: valid_def dest: spec[of _ s])

lemma valid_weaken:
  assumes "valid P' m Q' E'" "\<And>s. P s \<Longrightarrow> P' s" "\<And>x t. Q' x t \<Longrightarrow> Q x t" "\<And>e t. E' e t \<Longrightarrow> E e t"
  shows "valid P m Q E"
  using valid_OkD[OF assms(1)] valid_ErrD[OF assms(1)] assms(2-4) by (blast intro: validI)

lemma valid_pre: "valid P' m Q E \<Longrightarrow> (\<And>s. P s \<Longrightarrow> P' s) \<Longrightarrow> valid P m Q E"
  by (auto simp: valid_def)

lemma valid_conj:
  "valid P m Q E \<Longrightarrow> valid P' m Q' E' \<Longrightarrow>
   valid (\<lambda>s. P s \<and> P' s) m (\<lambda>x t. Q x t \<and> Q' x t) (\<lambda>e t. E e t \<and> E' e t)"
  by (fastforce simp: valid_def split: outcome.splits)

lemma valid_return [hoare]: "valid (Q x) (returnM x) Q E"
  by (simp add: valid_def returnM_def)

lemma valid_throw [hoare]: "valid (E e) (throwM e) Q E"
  by (simp add: valid_def throwM_def)

lemma valid_gets [hoare]: "valid (\<lambda>s. Q (f s) s) (getsM f) Q E"
  by (simp add: valid_def getsM_def)

lemma valid_modify [hoare]: "valid (\<lambda>s. Q () (f s)) (modifyM f) Q E"
  by (simp add: valid_def modifyM_def)

lemma valid_bind: "(\<And>x. valid (R x) (f x) Q E) \<Longrightarrow> valid P m R E \<Longrightarrow> valid P (bindM m f) Q E"
  by (fastforce simp: valid_def bindM_def split: outcome.splits)

lemma valid_then: "valid R k Q E \<Longrightarrow> valid P m (\<lambda>_. R) E \<Longrightarrow> valid P (thenM m k) Q E"
  unfolding thenM_def by (rule valid_bind)

lemma valid_try: "valid P m (\<lambda>x. Q (Inr x)) (\<lambda>e. Q (Inl e)) \<Longrightarrow> valid P (tryM m) Q E"
  by (fastforce simp: valid_def tryM_def split: outcome.splits)

lemma valid_ignore: "valid P m (\<lambda>_. Q ()) (\<lambda>_. Q ()) \<Longrightarrow> valid P (ignoreM m) Q E"
  unfolding ignoreM_def
  by (rule valid_then[OF valid_return]) (rule valid_try, auto elim: valid_weaken)

lemma valid_lift:
  "(\<And>x. r = Inr x \<Longrightarrow> valid P (returnM x) Q E) \<Longrightarrow> (\<And>e. r = Inl e \<Longrightarrow> valid P (throwM e) Q E) \<Longrightarrow>
   valid P (liftM r) Q E"
  by (auto simp: liftM_def split: sum.splits)

section \<open>Invariants\<close>

text \<open>Preservation of an invariant, compositionally.\<close>

named_theorems pres \<open>operations that keep an invariant\<close>

lemma pres_return [pres]: "preserves I (returnM x)"
  by (simp add: valid_def returnM_def)

lemma pres_throw [pres]: "preserves I (throwM e)"
  by (simp add: valid_def throwM_def)

lemma pres_hang [pres]: "preserves I hangM"
  by (simp add: valid_def hangM_def)

lemma pres_gets [pres]: "preserves I (getsM f)"
  by (simp add: valid_def getsM_def)

lemma pres_bind [pres]: "preserves I m \<Longrightarrow> (\<And>x. preserves I (f x)) \<Longrightarrow> preserves I (bindM m f)"
  by (rule valid_bind)

lemma pres_then [pres]: "preserves I m \<Longrightarrow> preserves I k \<Longrightarrow> preserves I (thenM m k)"
  by (rule valid_then)

lemma pres_try [pres]: "preserves I m \<Longrightarrow> preserves I (tryM m)"
  by (rule valid_try)

lemma pres_ignore [pres]: "preserves I m \<Longrightarrow> preserves I (ignoreM m)"
  by (rule valid_ignore)

lemma pres_lift [pres]: "preserves I (liftM r)"
  by (cases r) (simp_all add: liftM_def pres)

lemma pres_guard [pres]: "preserves I (guardM b e)"
  by (simp add: guardM_def pres)

lemma pres_when [pres]: "preserves I m \<Longrightarrow> preserves I (whenM b m)"
  by (simp add: whenM_def pres)

lemma pres_finally [pres]: "preserves I m \<Longrightarrow> preserves I k \<Longrightarrow> preserves I (finallyM m k)"
  unfolding finallyM_def by (intro pres)

lemma pres_if [pres]: "preserves I m \<Longrightarrow> preserves I k \<Longrightarrow> preserves I (if b then m else k)"
  by simp

lemma pres_option [pres]:
  "preserves I m \<Longrightarrow> (\<And>x. preserves I (f x)) \<Longrightarrow>
   preserves I (case opt of None \<Rightarrow> m | Some x \<Rightarrow> f x)"
  by (cases opt) auto

lemma pres_sum [pres]:
  "(\<And>e. preserves I (g e)) \<Longrightarrow> (\<And>x. preserves I (f x)) \<Longrightarrow>
   preserves I (case r of Inl e \<Rightarrow> g e | Inr x \<Rightarrow> f x)"
  by (cases r) auto

lemma pres_prod [pres]:
  "(\<And>x y. preserves I (f x y)) \<Longrightarrow> preserves I (case p of (x, y) \<Rightarrow> f x y)"
  by (cases p) auto

lemma pres_let [pres]: "(\<And>x. preserves I (f x)) \<Longrightarrow> preserves I (let x = a in f x)"
  by simp

lemma pres_for [pres]: "(\<And>x. preserves I (f x)) \<Longrightarrow> preserves I (forM xs f)"
  by (induction xs) (auto intro: pres)

lemma pres_mapM [pres]: "(\<And>x. preserves I (f x)) \<Longrightarrow> preserves I (mapM f xs)"
  by (induction xs) (auto intro!: pres)


section \<open>Termination\<close>

text \<open>ends P m: from a state in P, m returns a value or an error.\<close>

definition ends :: "('s \<Rightarrow> bool) \<Rightarrow> ('s, 'a) M \<Rightarrow> bool" where
  "ends P m \<longleftrightarrow> (\<forall>s. P s \<longrightarrow> fst (m s) \<noteq> Hang)"

named_theorems ends_rules \<open>computations that always end\<close>

lemma ends_return [ends_rules]: "ends P (returnM x)"
  by (simp add: ends_def returnM_def)

lemma ends_throw [ends_rules]: "ends P (throwM e)"
  by (simp add: ends_def throwM_def)

lemma ends_gets [ends_rules]: "ends P (getsM f)"
  by (simp add: ends_def getsM_def)

lemma ends_bind:
  "ends P m \<Longrightarrow> valid P m R (\<lambda>_ _. True) \<Longrightarrow> (\<And>x. ends (R x) (f x)) \<Longrightarrow> ends P (bindM m f)"
  by (fastforce simp: ends_def valid_def bindM_def split: outcome.splits)

lemma ends_if [ends_rules]: "ends P m \<Longrightarrow> ends P k \<Longrightarrow> ends P (if b then m else k)"
  by simp

lemma ends_pre: "ends P m \<Longrightarrow> (\<And>s. P' s \<Longrightarrow> P s) \<Longrightarrow> ends P' m"
  by (simp add: ends_def)

text \<open>Computations that end from every state, compositionally.\<close>

abbreviation total :: "('s, 'a) M \<Rightarrow> bool" where
  "total m \<equiv> ends (\<lambda>_. True) m"

lemma total_bind [ends_rules]: "total m \<Longrightarrow> (\<And>x. total (f x)) \<Longrightarrow> total (bindM m f)"
  by (rule ends_bind[where R = "\<lambda>_ _. True"]) (auto simp: valid_def split: outcome.splits)

lemma total_then [ends_rules]: "total m \<Longrightarrow> total k \<Longrightarrow> total (thenM m k)"
  unfolding thenM_def by (rule total_bind)

lemma ends_try [ends_rules]: "ends P m \<Longrightarrow> ends P (tryM m)"
  by (fastforce simp: ends_def tryM_def split: prod.splits outcome.splits)

lemma total_ignore [ends_rules]: "total m \<Longrightarrow> total (ignoreM m)"
  unfolding ignoreM_def by (intro ends_rules)

lemma ends_lift [ends_rules]: "ends P (liftM r)"
  by (cases r) (simp_all add: liftM_def ends_rules)

lemma total_finally [ends_rules]: "total m \<Longrightarrow> total k \<Longrightarrow> total (finallyM m k)"
  unfolding finallyM_def by (intro ends_rules ends_lift)

lemma ends_modify [ends_rules]: "ends P (modifyM f)"
  by (simp add: ends_def modifyM_def)

lemma ends_guard [ends_rules]: "ends P (guardM b e)"
  by (simp add: guardM_def ends_rules)

lemma ends_when [ends_rules]: "ends P m \<Longrightarrow> ends P (whenM b m)"
  by (simp add: whenM_def ends_rules)

lemma ends_option [ends_rules]:
  "ends P m \<Longrightarrow> (\<And>x. ends P (f x)) \<Longrightarrow> ends P (case opt of None \<Rightarrow> m | Some x \<Rightarrow> f x)"
  by (cases opt) auto

lemma ends_sum [ends_rules]:
  "(\<And>e. ends P (g e)) \<Longrightarrow> (\<And>x. ends P (f x)) \<Longrightarrow> ends P (case r of Inl e \<Rightarrow> g e | Inr x \<Rightarrow> f x)"
  by (cases r) auto

lemma ends_prod [ends_rules]: "(\<And>x y. ends P (f x y)) \<Longrightarrow> ends P (case p of (x, y) \<Rightarrow> f x y)"
  by (cases p) auto

lemma ends_let [ends_rules]: "(\<And>x. ends P (f x)) \<Longrightarrow> ends P (let x = a in f x)"
  by simp

lemma total_for [ends_rules]: "(\<And>x. total (f x)) \<Longrightarrow> total (forM xs f)"
  by (induction xs) (auto intro: ends_rules)

lemma total_mapM [ends_rules]: "(\<And>x. total (f x)) \<Longrightarrow> total (mapM f xs)"
  by (induction xs) (auto intro!: ends_rules)

text \<open>An invariant of a computation that ends holds of the state it leaves.\<close>

lemma pres_result: "preserves I m \<Longrightarrow> ends P m \<Longrightarrow> I s \<Longrightarrow> P s \<Longrightarrow> I (snd (m s))"
  by (cases "m s"; cases "fst (m s)") (auto simp: ends_def dest: valid_OkD valid_ErrD)

end
