(* ===== verification/Storage.thy ===== *)
theory Storage
  imports Ranges BucketCoder
begin

text \<open>
  Object storage (core/storage.go): the interface of the drivers as a locale of laws, and the local
  driver as its model.  The disk of the local driver maps absolute paths (lists of components) to
  file contents; directories exist implicitly.  The S3 driver only forwards to the minio client and
  is not modelled.
\<close>

type_synonym byte = "8 word"
type_synonym path = "string list"
type_synonym disk = "path \<Rightarrow> byte list option"

section \<open>Paths\<close>

text \<open>filepath.Clean on the components of an absolute path.\<close>

fun clean_path :: "path \<Rightarrow> path \<Rightarrow> path" where
  "clean_path acc [] = acc"
| "clean_path acc (s # ss) =
     (if s = [] \<or> s = ''.'' then clean_path acc ss
      else if s = ''..'' then clean_path (butlast acc) ss
      else clean_path (acc @ [s]) ss)"

definition is_under :: "path \<Rightarrow> path \<Rightarrow> bool" where
  "is_under root p \<longleftrightarrow> take (length root) p = root"

definition resolve :: "path \<Rightarrow> string \<Rightarrow> string \<Rightarrow> path res" where
  "resolve root bucket key =
     (if bucket = [] \<or> key = [] \<or> hd key = CHR ''/'' then Inl ErrInternal
      else
        let p = clean_path root (split_on (CHR ''/'') bucket @ split_on (CHR ''/'') key) in
        if is_under root p then Inr p else Inl ErrInternal)"

section \<open>The local driver\<close>

text \<open>
  One definition per method; Put replaces the file, Delete and DeleteBucket
  are idempotent, reads of a missing file give the sentinel.
\<close>

definition localPut :: "path \<Rightarrow> string \<Rightarrow> string \<Rightarrow> byte list \<Rightarrow> disk \<Rightarrow> disk res" where
  "localPut root bucket key data d =
     (case resolve root bucket key of Inl e \<Rightarrow> Inl e | Inr p \<Rightarrow> Inr (d(p \<mapsto> data)))"

definition localGet :: "path \<Rightarrow> string \<Rightarrow> string \<Rightarrow> disk \<Rightarrow> byte list res" where
  "localGet root bucket key d =
     (case resolve root bucket key of Inl e \<Rightarrow> Inl e
      | Inr p \<Rightarrow> (case d p of None \<Rightarrow> Inl ErrObjectNotFound | Some data \<Rightarrow> Inr data))"

text \<open>Seek to start, then read through a limit of en - start + 1 bytes.\<close>

definition localGetRange ::
  "path \<Rightarrow> string \<Rightarrow> string \<Rightarrow> int \<Rightarrow> int \<Rightarrow> disk \<Rightarrow> byte list res" where
  "localGetRange root bucket key start en d =
     (case resolve root bucket key of Inl e \<Rightarrow> Inl e
      | Inr p \<Rightarrow> (case d p of None \<Rightarrow> Inl ErrObjectNotFound
         | Some data \<Rightarrow>
             if start < 0 then Inl ErrInternal
             else Inr (take (nat (en - start + 1)) (drop (nat start) data))))"

definition localDelete :: "path \<Rightarrow> string \<Rightarrow> string \<Rightarrow> disk \<Rightarrow> disk res" where
  "localDelete root bucket key d =
     (case resolve root bucket key of Inl e \<Rightarrow> Inl e | Inr p \<Rightarrow> Inr (d(p := None)))"

definition localDeleteBucket :: "path \<Rightarrow> string \<Rightarrow> disk \<Rightarrow> disk res" where
  "localDeleteBucket root bucket d =
     (if bucket = [] \<or> CHR ''/'' \<in> set bucket \<or> char_of (92 :: nat) \<in> set bucket then Inl ErrInternal
      else
        let dir = clean_path root [bucket] in
        Inr (\<lambda>p. if is_under dir p then None else d p))"

section \<open>Lemmas: no path escapes the root\<close>

lemma resolve_under: "resolve root bucket key = Inr p \<Longrightarrow> is_under root p"
  by (auto simp: resolve_def Let_def split: if_splits)

definition plain :: "string \<Rightarrow> bool" where
  "plain s \<longleftrightarrow> s \<noteq> [] \<and> s \<noteq> ''.'' \<and> s \<noteq> ''..'' \<and> CHR ''/'' \<notin> set s"

lemma resolve_plain:
  "plain b \<Longrightarrow> plain k \<Longrightarrow> resolve root b k = Inr (root @ [b, k])"
  by (cases k) (auto simp: resolve_def plain_def split_on_id is_under_def)

lemma plain_BucketEncoder: "plain (BucketEncoder n)"
proof -
  have "set (BucketEncoder n) \<subseteq> set bucketPrefix \<union> set Charset"
    using enc_digits_charset[of n] nth_mem[of 0 Charset] by (auto simp: BucketEncoder_def)
  moreover have "CHR ''/'' \<notin> set bucketPrefix" "CHR ''/'' \<notin> set Charset"
    by (simp_all add: bucketPrefix_def Charset_def)
  moreover have "take 1 (BucketEncoder n) = ''o''"
    by (simp add: BucketEncoder_def bucketPrefix_def)
  ultimately show ?thesis by (auto simp: plain_def)
qed

lemma plain_dec: "plain (dec n)"
proof -
  have "CHR ''.'' \<notin> set (dec n) \<and> CHR ''/'' \<notin> set (dec n)"
    using dec_digits[of n] by (auto simp: list_all_iff is_digit_def)
  then show ?thesis by (auto simp: plain_def)
qed

lemma dec_inj: "dec m = dec n \<Longrightarrow> m = n"
  using dec_value by (metis of_nat_eq_iff)

lemma BucketEncoder_inj: "BucketEncoder m = BucketEncoder n \<Longrightarrow> m = n"
  using BucketEncoder_value by metis

section \<open>The interface\<close>

text \<open>
  What the service layer relies on, for buckets and keys accepted by ok: reading gives what
  was put last, ranges are slices, the other objects are not touched.
\<close>

locale object_store =
  fixes ok :: "string \<Rightarrow> string \<Rightarrow> bool"
    and put :: "string \<Rightarrow> string \<Rightarrow> byte list \<Rightarrow> 'd \<Rightarrow> 'd res"
    and get :: "string \<Rightarrow> string \<Rightarrow> 'd \<Rightarrow> byte list res"
    and get_range :: "string \<Rightarrow> string \<Rightarrow> int \<Rightarrow> int \<Rightarrow> 'd \<Rightarrow> byte list res"
    and del :: "string \<Rightarrow> string \<Rightarrow> 'd \<Rightarrow> 'd res"
  assumes put_ok: "ok b k \<Longrightarrow> \<exists>d'. put b k x d = Inr d'"
    and del_ok: "ok b k \<Longrightarrow> \<exists>d'. del b k d = Inr d'"
    and get_put: "ok b k \<Longrightarrow> ok b' k' \<Longrightarrow> put b k x d = Inr d' \<Longrightarrow>
      get b' k' d' = (if (b', k') = (b, k) then Inr x else get b' k' d)"
    and get_del: "ok b k \<Longrightarrow> ok b' k' \<Longrightarrow> del b k d = Inr d' \<Longrightarrow>
      get b' k' d' = (if (b', k') = (b, k) then Inl ErrObjectNotFound else get b' k' d)"
    and range_get: "ok b k \<Longrightarrow> 0 \<le> s \<Longrightarrow> get_range b k s e d =
      (case get b k d of Inl er \<Rightarrow> Inl er | Inr x \<Rightarrow> Inr (take (nat (e - s + 1)) (drop (nat s) x)))"
begin

lemma range_whole:
  "ok b k \<Longrightarrow> get b k d = Inr x \<Longrightarrow> get_range b k 0 (int (length x) - 1) d = Inr x"
  by (simp add: range_get)

lemma range_put:
  "ok b k \<Longrightarrow> put b k x d = Inr d' \<Longrightarrow> 0 \<le> s \<Longrightarrow>
   get_range b k s e d' = Inr (take (nat (e - s + 1)) (drop (nat s) x))"
  by (simp add: range_get get_put)

text \<open>Two adjacent ranges are the range that joins them: a resumed download loses nothing.\<close>

lemma range_split:
  assumes "ok b k" "0 \<le> s" "s \<le> m" "m \<le> e" "get b k d = Inr x"
  shows "\<exists>u v. get_range b k s m d = Inr u \<and> get_range b k (m + 1) e d = Inr v \<and>
           get_range b k s e d = Inr (u @ v)"
proof -
  have n: "nat (e - s + 1) = nat (m - s + 1) + nat (e - m)"
    "nat (m + 1) = nat (m - s + 1) + nat s"
    using assms by auto
  show ?thesis
    using assms by (simp add: range_get) (simp only: n take_add drop_drop)
qed

lemma del_idem:
  "ok b k \<Longrightarrow> del b k d = Inr d' \<Longrightarrow> del b k d' = Inr d'' \<Longrightarrow> ok b' k' \<Longrightarrow>
   get b' k' d'' = get b' k' d'"
  by (simp add: get_del)

end

interpretation local: object_store
  "\<lambda>b k. plain b \<and> plain k" "localPut root" "localGet root" "localGetRange root" "localDelete root"
  for root
  by unfold_locales
    (auto simp: localPut_def localGet_def localGetRange_def localDelete_def resolve_plain
      split: option.splits if_splits)

section \<open>Properties\<close>



text \<open>The objects of different files are different: after Put of the object of file f in bucket b,
  a range read of that object is the slice of what was put, and reading the object of any other
  file or bucket gives what it gave before.\<close>

lemma local_isolated:
  assumes "localPut root (BucketEncoder b) (dec f) x d = Inr d'" "0 \<le> s" "s \<le> e"
  shows "localGetRange root (BucketEncoder b) (dec f) s e d' = Inr (take (nat (e - s + 1)) (drop (nat s) x)) \<and>
    ((b', f') \<noteq> (b, f) \<longrightarrow>
       localGet root (BucketEncoder b') (dec f') d' = localGet root (BucketEncoder b') (dec f') d)"
proof -
  have pl: "plain (BucketEncoder i) \<and> plain (dec j)" for i j
    by (simp add: plain_BucketEncoder plain_dec)
  have "(b', f') \<noteq> (b, f) \<Longrightarrow> (BucketEncoder b', dec f') \<noteq> (BucketEncoder b, dec f)"
    by (auto dest: dec_inj BucketEncoder_inj)
  then show ?thesis
    using local.range_put[OF pl assms(1,2), of e] local.get_put[OF pl pl assms(1), of b' f'] by auto
qed

lemma local_isolated_witness:
  "\<exists>d'. localPut [] (BucketEncoder 1) (dec 2) [1, 2, 3] (\<lambda>_. None) = Inr d' \<and>
     localGetRange [] (BucketEncoder 1) (dec 2) 1 2 d' = Inr [2, 3] \<and>
     localGet [] (BucketEncoder 2) (dec 1) d' = localGet [] (BucketEncoder 2) (dec 1) (\<lambda>_. None)"
proof -
  have "plain (BucketEncoder 1) \<and> plain (dec 2)" by (simp add: plain_BucketEncoder plain_dec)
  from local.put_ok[OF this] obtain d' where
    p: "localPut [] (BucketEncoder 1) (dec 2) [1, 2, 3] (\<lambda>_. None) = Inr d'" by blast
  from local_isolated[OF p, of 1 2 2 1] p show ?thesis by auto
qed

section \<open>Refinement\<close>

text \<open>What the service sees of the storage: a map from buckets and files to contents.\<close>

datatype objectOp = PutObject nat nat "byte list" | DeleteObject nat nat | DropBucket nat

fun applyObject :: "objectOp \<Rightarrow> (nat \<times> nat \<rightharpoonup> byte list) \<Rightarrow> (nat \<times> nat \<rightharpoonup> byte list)" where
  "applyObject (PutObject b f x) m = m((b, f) \<mapsto> x)"
| "applyObject (DeleteObject b f) m = m((b, f) := None)"
| "applyObject (DropBucket b) m = (\<lambda>(b', f). if b' = b then None else m (b', f))"

fun runObject :: "path \<Rightarrow> objectOp \<Rightarrow> disk \<Rightarrow> disk res" where
  "runObject root (PutObject b f x) d = localPut root (BucketEncoder b) (dec f) x d"
| "runObject root (DeleteObject b f) d = localDelete root (BucketEncoder b) (dec f) d"
| "runObject root (DropBucket b) d = localDeleteBucket root (BucketEncoder b) d"

fun runObjects :: "path \<Rightarrow> objectOp list \<Rightarrow> disk \<Rightarrow> disk res" where
  "runObjects root [] d = Inr d"
| "runObjects root (x # xs) d = (case runObject root x d of Inl e \<Rightarrow> Inl e | Inr d' \<Rightarrow> runObjects root xs d')"

definition objects :: "path \<Rightarrow> disk \<Rightarrow> (nat \<times> nat \<rightharpoonup> byte list)" where
  "objects root d = (\<lambda>(b, f). d (root @ [BucketEncoder b, dec f]))"

lemma resolve_object: "resolve root (BucketEncoder b) (dec f) = Inr (root @ [BucketEncoder b, dec f])"
  by (simp add: resolve_plain plain_BucketEncoder plain_dec)

lemma object_inj: "BucketEncoder b = BucketEncoder b' \<longleftrightarrow> b = b'" "dec f = dec f' \<longleftrightarrow> f = f'"
  using BucketEncoder_inj dec_inj by blast+

lemma drop_bucket:
  "localDeleteBucket root (BucketEncoder b) d = Inr (\<lambda>p. if is_under (root @ [BucketEncoder b]) p then None else d p)"
proof -
  have "set (BucketEncoder b) \<subseteq> set bucketPrefix \<union> set Charset"
    using enc_digits_charset[of b] nth_mem[of 0 Charset] by (auto simp: BucketEncoder_def)
  moreover have "char_of (92 :: nat) \<notin> set bucketPrefix" "char_of (92 :: nat) \<notin> set Charset"
    by (simp_all add: bucketPrefix_def Charset_def char_of_def)
  ultimately have "char_of (92 :: nat) \<notin> set (BucketEncoder b)" by blast
  moreover have "clean_path root [BucketEncoder b] = root @ [BucketEncoder b]"
    using plain_BucketEncoder[of b] by (simp add: plain_def)
  ultimately show ?thesis
    using plain_BucketEncoder[of b] by (simp add: localDeleteBucket_def plain_def)
qed

lemma objects_upd:
  "objects root (d(root @ [BucketEncoder b, dec f] := y)) = (objects root d)((b, f) := y)"
  "objects root (\<lambda>p. if is_under (root @ [BucketEncoder b]) p then None else d p) =
     (\<lambda>(b', f). if b' = b then None else objects root d (b', f))"
  by (auto simp: objects_def object_inj is_under_def fun_eq_iff)

lemma run_object: "\<exists>d'. runObject root x d = Inr d' \<and> objects root d' = applyObject x (objects root d)"
  by (cases x) (simp_all add: localPut_def localDelete_def resolve_object drop_bucket objects_upd)

text \<open>C39: the local driver implements the map from files to contents: any sequence of writes, deletions and
  removals of buckets succeeds, what it leaves on the disk is what the same sequence leaves in the map, and
  a range read gives the slice of the map's content.\<close>

theorem local_refines:
  "\<exists>d'. runObjects root xs d = Inr d' \<and> objects root d' = fold applyObject xs (objects root d) \<and>
     localGetRange root (BucketEncoder b) (dec f) (int s) e d' =
       (case fold applyObject xs (objects root d) (b, f) of None \<Rightarrow> Inl ErrObjectNotFound
        | Some x \<Rightarrow> Inr (take (nat (e - int s + 1)) (drop s x)))"
proof -
  have "\<exists>d'. runObjects root xs d = Inr d' \<and> objects root d' = fold applyObject xs (objects root d)"
  proof (induction xs arbitrary: d)
    case (Cons x xs)
    obtain d1 where "runObject root x d = Inr d1" "objects root d1 = applyObject x (objects root d)" using run_object by blast
    with Cons.IH[of d1] show ?case by simp
  qed simp
  then obtain d' where d: "runObjects root xs d = Inr d'" "objects root d' = fold applyObject xs (objects root d)" by blast
  have "d' (root @ [BucketEncoder b, dec f]) = fold applyObject xs (objects root d) (b, f)"
    unfolding d(2)[symmetric] by (simp add: objects_def)
  with d show ?thesis by (simp add: localGetRange_def resolve_object split: option.split)
qed

end
