(* ===== verification/Model.thy ===== *)
theory Model
  imports Effects Storage
begin

text \<open>
  The persistent state (model/): one record per table row, with the columns of the Go struct, one
  table per model, and the world the service layer runs in.  A nullable column is an option;
  DeletedAt is gorm's soft-delete mark.  Primary keys are naturals given out in increasing
  order; times are naturals.
\<close>

section \<open>Rows\<close>

type_synonym time = nat

record User =
  usr_ID :: nat
  usr_CreatedAt :: time
  usr_DeletedAt :: "time option"
  usr_Username :: string
  usr_Password :: string
  usr_Name :: string
  usr_Remarks :: string
  usr_Email :: string
  usr_PermissionLevel :: int
  usr_LastLogin :: "time option"
  usr_Status :: int
  usr_NtHash :: string
  usr_Quota :: "int option"
  usr_UsedSpace :: int

definition SuperAdmin :: int where "SuperAdmin = 0"
definition Admin :: int where "Admin = 1"
definition SpecialUser :: int where "SpecialUser = 2"
definition NormalUser :: int where "NormalUser = 3"

definition IsAdmin :: "int \<Rightarrow> bool" where
  "IsAdmin p \<longleftrightarrow> p \<le> Admin"

record Bucket =
  bkt_ID :: nat
  bkt_CreatedAt :: time
  bkt_DeletedAt :: "time option"
  bkt_Name :: string
  bkt_Description :: string
  bkt_PermissionLevel :: int
  bkt_ManagePermissionLevel :: int
  bkt_OwnerID :: nat
  bkt_Quota :: int
  bkt_UsedSpace :: int
  bkt_Status :: int

record File =
  fil_ID :: nat
  fil_CreatedAt :: time
  fil_DeletedAt :: "time option"
  fil_BucketID :: nat
  fil_FolderID :: nat
  fil_Name :: string
  fil_NameLower :: string
  fil_FileSize :: int
  fil_FileType :: string
  fil_MD5 :: string
  fil_UploadedBy :: nat
  fil_VisibleToGroups :: string

definition FolderUnusable :: int where "FolderUnusable = 0"
definition FolderUsable :: int where "FolderUsable = 1"
definition FolderDeleting :: int where "FolderDeleting = 2"

lemmas isable_defs = FolderUnusable_def FolderUsable_def FolderDeleting_def

record Folder =
  fld_ID :: nat
  fld_CreatedAt :: time
  fld_DeletedAt :: "time option"
  fld_Isable :: int
  fld_BucketID :: nat
  fld_ParentID :: nat
  fld_Name :: string
  fld_NameLower :: string
  fld_UploadedBy :: nat
  fld_VisibleToGroups :: string

record UserGroup =
  grp_ID :: nat
  grp_CreatedAt :: time
  grp_DeletedAt :: "time option"
  grp_Name :: string
  grp_Description :: string
  grp_CreatedBy :: nat
  grp_Status :: int

record UserGroupMember =
  mem_ID :: nat
  mem_CreatedAt :: time
  mem_DeletedAt :: "time option"
  mem_GroupID :: nat
  mem_UserID :: nat

record ShareLink =
  shr_ID :: nat
  shr_CreatedAt :: time
  shr_DeletedAt :: "time option"
  shr_BucketItemID :: nat
  shr_ItemType :: string
  shr_CreatorID :: nat
  shr_Token :: string
  shr_Permission :: string
  shr_ExpiresAt :: "time option"
  shr_MaxDownloads :: int
  shr_DownloadCount :: int
  shr_Password :: string

record DeleteTask =
  dtk_ID :: nat
  dtk_DeletedAt :: "time option"
  dtk_BucketID :: nat
  dtk_DirID :: nat
  dtk_Status :: int
  dtk_OperatorID :: nat
  dtk_OperatorLevel :: int
  dtk_LockOwner :: string
  dtk_LockExpiresAt :: "time option"

record CopyTask =
  ctk_ID :: nat
  ctk_DeletedAt :: "time option"
  ctk_BucketID :: nat
  ctk_SourceFolderID :: nat
  ctk_SourceFileID :: nat
  ctk_DstBucketID :: nat
  ctk_DstFolderID :: nat
  ctk_DstDirPath :: string
  ctk_DstName :: string
  ctk_UploadedBy :: nat
  ctk_OperatorLevel :: int
  ctk_Status :: int
  ctk_LockOwner :: string
  ctk_LockExpiresAt :: "time option"

record RefreshToken =
  rtk_ID :: nat
  rtk_DeletedAt :: "time option"
  rtk_UserID :: nat
  rtk_Token :: string
  rtk_ExpiresAt :: time
  rtk_RevokedAt :: "time option"
  rtk_UserAgent :: string
  rtk_IP :: string

record DownloadTask =
  dlt_ID :: nat
  dlt_CreatedAt :: time
  dlt_DeletedAt :: "time option"
  dlt_UserID :: nat
  dlt_BucketID :: nat
  dlt_FolderID :: nat
  dlt_FilePath :: string

section \<open>Tables and the world\<close>

text \<open>A table: its rows in primary-key order, and the next key.\<close>

record 'r tbl =
  rows :: "'r list"
  seq :: nat

record db =
  users :: "User tbl"
  buckets :: "Bucket tbl"
  files :: "File tbl"
  folders :: "Folder tbl"
  groups :: "UserGroup tbl"
  members :: "UserGroupMember tbl"
  shares :: "ShareLink tbl"
  deleteTasks :: "DeleteTask tbl"
  copyTasks :: "CopyTask tbl"
  tokens :: "RefreshToken tbl"
  downloads :: "DownloadTask tbl"

text \<open>
  The world: the database, the disk of the local storage driver, the clock, and the faults.  Every
  database or storage call draws the next tick; fault says whether the call fails.
  torn is how much of an object reaches the disk when its write fails midway; inst is
  core.InstanceID, the name of this server process.
\<close>

record world =
  wdb :: db
  disk :: disk
  clock :: time
  tick :: nat
  fault :: "nat \<Rightarrow> bool"
  torn :: nat
  inst :: string

type_synonym 'a W = "(world, 'a) M"

text \<open>An empty installation in which no call fails.\<close>

definition empty_tbl :: "'r tbl" where
  "empty_tbl = \<lparr>rows = [], seq = 0\<rparr>"

definition empty_db :: db where
  "empty_db = \<lparr>users = empty_tbl, buckets = empty_tbl, files = empty_tbl, folders = empty_tbl,
     groups = empty_tbl, members = empty_tbl, shares = empty_tbl, deleteTasks = empty_tbl,
     copyTasks = empty_tbl, tokens = empty_tbl, downloads = empty_tbl\<rparr>"

definition calm_world :: "db \<Rightarrow> disk \<Rightarrow> world" where
  "calm_world d k = \<lparr>wdb = d, disk = k, clock = 0, tick = 0, fault = (\<lambda>_. False), torn = 0,
     inst = ''host-1''\<rparr>"

definition faulty :: "'a W \<Rightarrow> 'a W" where
  "faulty m = (\<lambda>w. let w' = w\<lparr>tick := Suc (tick w)\<rparr> in
     if fault w (tick w) then (Err ErrInternal, w') else m w')"

definition queryDB :: "(db \<Rightarrow> 'a) \<Rightarrow> 'a W" where
  "queryDB f = faulty (getsM (\<lambda>w. f (wdb w)))"

definition execDB :: "(db \<Rightarrow> db) \<Rightarrow> unit W" where
  "execDB f = faulty (modifyM (\<lambda>w. w\<lparr>wdb := f (wdb w)\<rparr>))"

text \<open>A statement whose result (the new row, or gorm's RowsAffected) the code reads.\<close>

definition execRet :: "(db \<Rightarrow> 'a \<times> db) \<Rightarrow> 'a W" where
  "execRet f = faulty (\<lambda>w. let (x, d) = f (wdb w) in (Ok x, w\<lparr>wdb := d\<rparr>))"

text \<open>An insert or update that a unique index may refuse (gorm.ErrDuplicatedKey).\<close>

definition tryExecDB :: "(db \<Rightarrow> ('a \<times> db) option) \<Rightarrow> 'a option W" where
  "tryExecDB f = faulty (\<lambda>w. case f (wdb w) of
      None \<Rightarrow> (Ok None, w)
    | Some (x, d) \<Rightarrow> (Ok (Some x), w\<lparr>wdb := d\<rparr>))"

text \<open>gorm's Transaction: begin, the body, and commit or rollback of the database.\<close>

definition transaction :: "'a W \<Rightarrow> 'a W" where
  "transaction m = faulty (\<lambda>w. case m w of
      (Ok x, w') \<Rightarrow>
        if fault w' (tick w') then (Err ErrInternal, w'\<lparr>tick := Suc (tick w'), wdb := wdb w\<rparr>)
        else (Ok x, w'\<lparr>tick := Suc (tick w')\<rparr>)
    | (Err e, w') \<Rightarrow> (Err e, w'\<lparr>wdb := wdb w\<rparr>)
    | (Hang, w') \<Rightarrow> (Hang, w'))"

section \<open>Table operations\<close>

text \<open>gorm's First (by primary key), Find, Update, Delete and Create on a table.\<close>

definition tfirst :: "('r \<Rightarrow> bool) \<Rightarrow> 'r tbl \<Rightarrow> 'r option" where
  "tfirst P t = find P (rows t)"

definition tfind :: "('r \<Rightarrow> bool) \<Rightarrow> 'r tbl \<Rightarrow> 'r list" where
  "tfind P t = filter P (rows t)"

definition tcount :: "('r \<Rightarrow> bool) \<Rightarrow> 'r tbl \<Rightarrow> nat" where
  "tcount P t = length (filter P (rows t))"

definition tupdate :: "('r \<Rightarrow> bool) \<Rightarrow> ('r \<Rightarrow> 'r) \<Rightarrow> 'r tbl \<Rightarrow> 'r tbl" where
  "tupdate P f t = t\<lparr>rows := map (\<lambda>r. if P r then f r else r) (rows t)\<rparr>"

definition tdelete :: "('r \<Rightarrow> bool) \<Rightarrow> 'r tbl \<Rightarrow> 'r tbl" where
  "tdelete P t = t\<lparr>rows := filter (\<lambda>r. \<not> P r) (rows t)\<rparr>"

definition tcreate :: "(nat \<Rightarrow> 'r) \<Rightarrow> 'r tbl \<Rightarrow> 'r tbl" where
  "tcreate mk t = \<lparr>rows = rows t @ [mk (seq t)], seq = Suc (seq t)\<rparr>"

lemmas tbl_defs = tfirst_def tfind_def tcount_def tupdate_def tdelete_def tcreate_def

lemma rows_tables:
  "rows (tdelete P t) = filter (\<lambda>r. \<not> P r) (rows t)" "seq (tdelete P t) = seq t"
  "rows (tupdate P f t) = map (\<lambda>r. if P r then f r else r) (rows t)" "seq (tupdate P f t) = seq t"
  "rows (tcreate mk t) = rows t @ [mk (seq t)]" "seq (tcreate mk t) = Suc (seq t)"
  by (simp_all add: tdelete_def tupdate_def tcreate_def)

lemma tfirst_Some: "tfirst P t = Some r \<Longrightarrow> r \<in> set (rows t) \<and> P r"
  by (auto simp: tfirst_def find_Some_iff)

lemma tfirst_None: "tfirst P t = None \<longleftrightarrow> (\<forall>r\<in>set (rows t). \<not> P r)"
  by (auto simp: tfirst_def find_None_iff)

lemma tcount_0: "tcount P t = 0 \<longleftrightarrow> (\<forall>r\<in>set (rows t). \<not> P r)"
  by (auto simp: tcount_def filter_empty_conv)

text \<open>Rows that gorm's default scope sees.\<close>

definition live_usr :: "User \<Rightarrow> bool" where "live_usr r \<longleftrightarrow> usr_DeletedAt r = None"
definition live_bkt :: "Bucket \<Rightarrow> bool" where "live_bkt r \<longleftrightarrow> bkt_DeletedAt r = None"
definition live_fil :: "File \<Rightarrow> bool" where "live_fil r \<longleftrightarrow> fil_DeletedAt r = None"
definition live_fld :: "Folder \<Rightarrow> bool" where "live_fld r \<longleftrightarrow> fld_DeletedAt r = None"
definition live_grp :: "UserGroup \<Rightarrow> bool" where "live_grp r \<longleftrightarrow> grp_DeletedAt r = None"
definition live_mem :: "UserGroupMember \<Rightarrow> bool" where "live_mem r \<longleftrightarrow> mem_DeletedAt r = None"
definition live_shr :: "ShareLink \<Rightarrow> bool" where "live_shr r \<longleftrightarrow> shr_DeletedAt r = None"
definition live_dtk :: "DeleteTask \<Rightarrow> bool" where "live_dtk r \<longleftrightarrow> dtk_DeletedAt r = None"
definition live_ctk :: "CopyTask \<Rightarrow> bool" where "live_ctk r \<longleftrightarrow> ctk_DeletedAt r = None"
definition live_rtk :: "RefreshToken \<Rightarrow> bool" where "live_rtk r \<longleftrightarrow> rtk_DeletedAt r = None"
definition live_dlt :: "DownloadTask \<Rightarrow> bool" where "live_dlt r \<longleftrightarrow> dlt_DeletedAt r = None"

lemmas live_defs = live_usr_def live_bkt_def live_fil_def live_fld_def live_grp_def live_mem_def
  live_shr_def live_dtk_def live_ctk_def live_rtk_def live_dlt_def

text \<open>
  The unique indexes of files and folders, partial on live rows (migrate/recycle_bin_step.go):
  bucket, parent and lower-case name.
\<close>

definition file_key :: "File \<Rightarrow> nat \<times> nat \<times> string" where
  "file_key r = (fil_BucketID r, fil_FolderID r, fil_NameLower r)"

definition folder_key :: "Folder \<Rightarrow> nat \<times> nat \<times> string" where
  "folder_key r = (fld_BucketID r, fld_ParentID r, fld_NameLower r)"

definition unique_live :: "('r \<Rightarrow> bool) \<Rightarrow> ('r \<Rightarrow> 'k) \<Rightarrow> 'r tbl \<Rightarrow> bool" where
  "unique_live live key t \<longleftrightarrow> distinct (map key (filter live (rows t)))"

definition createFile :: "(nat \<Rightarrow> File) \<Rightarrow> File option W" where
  "createFile mk = tryExecDB (\<lambda>d.
     let t = tcreate mk (files d) in
     if unique_live live_fil file_key t then Some (mk (seq (files d)), d\<lparr>files := t\<rparr>) else None)"

definition createFolder :: "(nat \<Rightarrow> Folder) \<Rightarrow> Folder option W" where
  "createFolder mk = tryExecDB (\<lambda>d.
     let t = tcreate mk (folders d) in
     if unique_live live_fld folder_key t then Some (mk (seq (folders d)), d\<lparr>folders := t\<rparr>) else None)"

definition updateFiles :: "(File \<Rightarrow> bool) \<Rightarrow> (File \<Rightarrow> File) \<Rightarrow> unit option W" where
  "updateFiles P f = tryExecDB (\<lambda>d.
     let t = tupdate P f (files d) in
     if unique_live live_fil file_key t then Some ((), d\<lparr>files := t\<rparr>) else None)"

definition updateFolders :: "(Folder \<Rightarrow> bool) \<Rightarrow> (Folder \<Rightarrow> Folder) \<Rightarrow> unit option W" where
  "updateFolders P f = tryExecDB (\<lambda>d.
     let t = tupdate P f (folders d) in
     if unique_live live_fld folder_key t then Some ((), d\<lparr>folders := t\<rparr>) else None)"

section \<open>Storage calls\<close>

text \<open>
  core.Storage in the world: the local driver with a fault before the call, and for Put a second one
  midway, which leaves a torn object.
\<close>

definition storageRoot :: path where
  "storageRoot = []"

definition liftDisk :: "(disk \<Rightarrow> disk res) \<Rightarrow> unit W" where
  "liftDisk f = (\<lambda>w. case f (disk w) of Inl e \<Rightarrow> (Err e, w) | Inr d \<Rightarrow> (Ok (), w\<lparr>disk := d\<rparr>))"

definition storagePut :: "string \<Rightarrow> string \<Rightarrow> byte list \<Rightarrow> unit W" where
  "storagePut bucket key data = faulty (\<lambda>w.
     if fault w (tick w)
     then (Err ErrInternal, (snd (liftDisk (localPut storageRoot bucket key (take (torn w) data)) w))
                              \<lparr>tick := Suc (tick w)\<rparr>)
     else liftDisk (localPut storageRoot bucket key data) (w\<lparr>tick := Suc (tick w)\<rparr>))"

definition storageGet :: "string \<Rightarrow> string \<Rightarrow> byte list W" where
  "storageGet bucket key = faulty (\<lambda>w. case localGet storageRoot bucket key (disk w) of
      Inl e \<Rightarrow> (Err e, w) | Inr x \<Rightarrow> (Ok x, w))"

definition storageGetRange :: "string \<Rightarrow> string \<Rightarrow> int \<Rightarrow> int \<Rightarrow> byte list W" where
  "storageGetRange bucket key s e = faulty (\<lambda>w.
      case localGetRange storageRoot bucket key s e (disk w) of
        Inl er \<Rightarrow> (Err er, w) | Inr x \<Rightarrow> (Ok x, w))"

definition storageDelete :: "string \<Rightarrow> string \<Rightarrow> unit W" where
  "storageDelete bucket key = faulty (liftDisk (localDelete storageRoot bucket key))"

definition storageDeleteBucket :: "string \<Rightarrow> unit W" where
  "storageDeleteBucket bucket = faulty (liftDisk (localDeleteBucket storageRoot bucket))"


section \<open>Running without faults\<close>

lemma faulty_calm: "\<not> fault w (tick w) \<Longrightarrow> faulty m w = m (w\<lparr>tick := Suc (tick w)\<rparr>)"
  by (simp add: faulty_def Let_def)

lemma db_run [run]:
  "\<not> fault w (tick w) \<Longrightarrow> queryDB q w = (Ok (q (wdb w)), w\<lparr>tick := Suc (tick w)\<rparr>)"
  "\<not> fault w (tick w) \<Longrightarrow> execDB g w = (Ok (), w\<lparr>tick := Suc (tick w), wdb := g (wdb w)\<rparr>)"
  "\<not> fault w (tick w) \<Longrightarrow> tryExecDB h w = (case h (wdb w) of
      None \<Rightarrow> (Ok None, w\<lparr>tick := Suc (tick w)\<rparr>)
    | Some (x, d) \<Rightarrow> (Ok (Some x), w\<lparr>tick := Suc (tick w), wdb := d\<rparr>))"
  "\<not> fault w (tick w) \<Longrightarrow> execRet f w = (case f (wdb w) of (x, d) \<Rightarrow> (Ok x, w\<lparr>tick := Suc (tick w), wdb := d\<rparr>))"
  by (simp_all add: queryDB_def execDB_def tryExecDB_def execRet_def faulty_calm getsM_def modifyM_def Let_def
      split: option.splits prod.splits)

lemma transaction_run [run]: "(\<And>t. \<not> fault w t) \<Longrightarrow> transaction m w = (case m (w\<lparr>tick := Suc (tick w)\<rparr>) of
      (Ok x, w') \<Rightarrow> if fault w' (tick w') then (Err ErrInternal, w'\<lparr>tick := Suc (tick w'), wdb := wdb w\<rparr>)
        else (Ok x, w'\<lparr>tick := Suc (tick w')\<rparr>)
    | (Err e, w') \<Rightarrow> (Err e, w'\<lparr>wdb := wdb w\<rparr>) | (Hang, w') \<Rightarrow> (Hang, w'))"
  by (auto simp: transaction_def faulty_calm split: prod.splits outcome.splits)

lemma storage_run [run]:
  "(\<And>t. \<not> fault w t) \<Longrightarrow> storagePut b k x w = liftDisk (localPut storageRoot b k x) (w\<lparr>tick := tick w + 2\<rparr>)"
  "\<not> fault w (tick w) \<Longrightarrow> storageGet b k w = (case localGet storageRoot b k (disk w) of
      Inl e \<Rightarrow> (Err e, w\<lparr>tick := Suc (tick w)\<rparr>) | Inr y \<Rightarrow> (Ok y, w\<lparr>tick := Suc (tick w)\<rparr>))"
  "\<not> fault w (tick w) \<Longrightarrow> storageDelete b k w = liftDisk (localDelete storageRoot b k) (w\<lparr>tick := Suc (tick w)\<rparr>)"
  by (simp_all add: storagePut_def storageGet_def storageDelete_def faulty_calm split: sum.splits)

lemma liftDisk_run [run]: "liftDisk f w = (case f (disk w) of Inl e \<Rightarrow> (Err e, w) | Inr d \<Rightarrow> (Ok (), w\<lparr>disk := d\<rparr>))"
  by (simp add: liftDisk_def)

lemma model_cong:
  "w = w' \<Longrightarrow> transaction m w = transaction m w'" "w = w' \<Longrightarrow> queryDB q w = queryDB q w'"
  "w = w' \<Longrightarrow> execDB g w = execDB g w'" "w = w' \<Longrightarrow> tryExecDB h w = tryExecDB h w'"
  "w = w' \<Longrightarrow> execRet f w = execRet f w'"
  by simp_all

lemma calm_sel [simp]: "wdb (calm_world d k) = d" "disk (calm_world d k) = k" "clock (calm_world d k) = 0"
  "tick (calm_world d k) = 0" "fault (calm_world d k) = (\<lambda>_. False)"
  by (simp_all add: calm_world_def)

section \<open>Triples over the database\<close>

text \<open>Assertions about the database alone, which ticks and the disk cannot disturb.\<close>

definition onDB :: "(db \<Rightarrow> bool) \<Rightarrow> world \<Rightarrow> bool" where
  "onDB J w \<longleftrightarrow> J (wdb w)"

lemma faulty_cases:
  "faulty m w = (if fault w (tick w) then (Err ErrInternal, w\<lparr>tick := Suc (tick w)\<rparr>)
                 else m (w\<lparr>tick := Suc (tick w)\<rparr>))"
  by (simp add: faulty_def Let_def)

lemma valid_faulty:
  "valid (onDB J) m Q E \<Longrightarrow> (\<And>w. onDB J w \<Longrightarrow> E ErrInternal w) \<Longrightarrow> valid (onDB J) (faulty m) Q E"
  by (fastforce simp: valid_def faulty_cases onDB_def split: outcome.splits)

lemma valid_query:
  "valid (onDB J) (queryDB f) (\<lambda>x. onDB (\<lambda>d. J d \<and> f d = x))
     (\<lambda>e. onDB (\<lambda>d. J d \<and> e = ErrInternal))"
  by (auto simp: valid_def queryDB_def faulty_cases onDB_def getsM_def)

lemma valid_exec:
  "(\<And>d. J d \<Longrightarrow> K (f d)) \<Longrightarrow> valid (onDB J) (execDB f) (\<lambda>_. onDB K) (\<lambda>_. onDB J)"
  by (auto simp: valid_def execDB_def faulty_cases onDB_def modifyM_def)

lemma valid_tryExec:
  "(\<And>d x d'. J d \<Longrightarrow> f d = Some (x, d') \<Longrightarrow> K x d') \<Longrightarrow>
   valid (onDB J) (tryExecDB f)
     (\<lambda>r. onDB (\<lambda>d. case r of None \<Rightarrow> J d | Some x \<Rightarrow> K x d)) (\<lambda>_. onDB J)"
  by (auto simp: valid_def tryExecDB_def faulty_cases onDB_def split: option.splits)

lemma valid_transaction:
  "valid (onDB J) m (\<lambda>x. onDB (K x)) (\<lambda>_ _. True) \<Longrightarrow>
   valid (onDB J) (transaction m) (\<lambda>x. onDB (K x)) (\<lambda>_. onDB J)"
  unfolding transaction_def
proof (rule valid_faulty)
  assume m: "valid (onDB J) m (\<lambda>x. onDB (K x)) (\<lambda>_ _. True)"
  show "valid (onDB J) (\<lambda>w. case m w of
      (Ok x, w') \<Rightarrow>
        if fault w' (tick w') then (Err ErrInternal, w'\<lparr>tick := Suc (tick w'), wdb := wdb w\<rparr>)
        else (Ok x, w'\<lparr>tick := Suc (tick w')\<rparr>)
    | (Err e, w') \<Rightarrow> (Err e, w'\<lparr>wdb := wdb w\<rparr>)
    | (Hang, w') \<Rightarrow> (Hang, w')) (\<lambda>x. onDB (K x)) (\<lambda>_. onDB J)"
    by (rule validI)
      (auto simp: onDB_def split: prod.splits outcome.splits if_splits
        dest: valid_OkD[OF m, unfolded onDB_def])
qed

lemma wdb_liftDisk [simp]: "wdb (snd (liftDisk f w)) = wdb w"
  by (auto simp: liftDisk_def split: sum.splits)

lemma valid_db_eq:
  assumes "\<And>w. wdb (snd (m w)) = wdb w"
  shows "preserves (onDB J) m"
  using assms by (intro validI) (metis onDB_def snd_conv)+

lemma pres_storage [pres]:
  "preserves (onDB J) (storagePut b k x)" "preserves (onDB J) (storageGet b k)"
  "preserves (onDB J) (storageGetRange b k s e)" "preserves (onDB J) (storageDelete b k)"
  "preserves (onDB J) (storageDeleteBucket b)"
  by (auto intro!: valid_db_eq
      simp: storagePut_def storageGet_def storageGetRange_def storageDelete_def
        storageDeleteBucket_def faulty_cases split: sum.splits)

lemma pres_query [pres]: "preserves (onDB J) (queryDB f)"
  by (rule valid_weaken[OF valid_query[where J = J]]) (auto simp: onDB_def)

lemma pres_exec: "(\<And>d. J d \<Longrightarrow> J (f d)) \<Longrightarrow> preserves (onDB J) (execDB f)"
  by (rule valid_exec)

lemma valid_execRet:
  "(\<And>d x d'. J d \<Longrightarrow> f d = (x, d') \<Longrightarrow> K x d') \<Longrightarrow> valid (onDB J) (execRet f) (\<lambda>x. onDB (K x)) (\<lambda>_. onDB J)"
  by (auto simp: valid_def execRet_def faulty_cases onDB_def split: prod.splits)

lemma pres_execRet: "(\<And>d. J d \<Longrightarrow> J (snd (f d))) \<Longrightarrow> preserves (onDB J) (execRet f)"
  by (rule valid_execRet) (metis snd_conv)

lemma pres_tryExec:
  "(\<And>d x d'. J d \<Longrightarrow> f d = Some (x, d') \<Longrightarrow> J d') \<Longrightarrow> preserves (onDB J) (tryExecDB f)"
  by (rule valid_weaken[OF valid_tryExec[where K = "\<lambda>_. J"]])
    (auto simp: onDB_def split: option.splits)

lemma pres_transaction: "valid (onDB J) m (\<lambda>_. onDB J) (\<lambda>_ _. True) \<Longrightarrow> preserves (onDB J) (transaction m)"
  by (rule valid_transaction)

lemma pres_transaction' [pres]: "preserves (onDB J) m \<Longrightarrow> preserves (onDB J) (transaction m)"
  by (rule pres_transaction) (auto elim: valid_weaken)

lemma valid_True: "valid P m (\<lambda>_ _. True) (\<lambda>_ _. True)"
  by (auto simp: valid_def split: outcome.splits)


lemma ends_faulty: "(\<And>w. fst (m w) \<noteq> Hang) \<Longrightarrow> ends P (faulty m)"
  by (simp add: ends_def faulty_cases)

lemma ends_query [ends_rules]: "ends P (queryDB f)"
  unfolding queryDB_def by (rule ends_faulty) (simp add: getsM_def)

lemma ends_exec [ends_rules]: "ends P (execDB f)"
  unfolding execDB_def by (rule ends_faulty) (simp add: modifyM_def)

lemma ends_tryExec [ends_rules]: "ends P (tryExecDB f)"
  unfolding tryExecDB_def by (rule ends_faulty) (simp split: option.splits)

lemma ends_execRet [ends_rules]: "ends P (execRet f)"
  unfolding execRet_def by (rule ends_faulty) (simp add: Let_def split: prod.splits)

lemma total_transaction [ends_rules]: "total m \<Longrightarrow> total (transaction m)"
  unfolding transaction_def by (rule ends_faulty) (auto simp: ends_def split: prod.splits outcome.splits, metis fst_conv)

lemma fst_liftDisk: "fst (liftDisk f w) \<noteq> Hang"
  by (simp add: liftDisk_def split: sum.splits)

lemma ends_storage [ends_rules]:
  "ends P (storagePut b k x)" "ends P (storageGet b k)" "ends P (storageGetRange b k s e)"
  "ends P (storageDelete b k)" "ends P (storageDeleteBucket b)"
  unfolding storagePut_def storageGet_def storageGetRange_def storageDelete_def storageDeleteBucket_def
  by (rule ends_faulty; auto simp: fst_liftDisk split: sum.splits)+

lemma ends_table [ends_rules]:
  "ends P (createFile mk)" "ends P (createFolder mk2)" "ends P (updateFiles q h)" "ends P (updateFolders q2 h2)"
  unfolding createFile_def createFolder_def updateFiles_def updateFolders_def by (rule ends_tryExec)+

text \<open>Assertions about the disk alone, which no database call disturbs.\<close>

definition onDisk :: "(disk \<Rightarrow> bool) \<Rightarrow> world \<Rightarrow> bool" where
  "onDisk D w \<longleftrightarrow> D (disk w)"

lemma valid_disk_eq: "(\<And>w. disk (snd (m w)) = disk w) \<Longrightarrow> preserves (onDisk D) m"
  by (intro validI) (metis onDisk_def snd_conv)+

lemma pres_onDisk [pres]:
  "preserves (onDisk D) (queryDB f)" "preserves (onDisk D) (execDB g)" "preserves (onDisk D) (tryExecDB h)"
  "preserves (onDisk D) (execRet k)" "preserves (onDisk D) (storageGet b ky)"
  by (auto intro!: valid_disk_eq simp: queryDB_def execDB_def tryExecDB_def execRet_def storageGet_def faulty_cases
      getsM_def modifyM_def Let_def split: option.splits prod.splits sum.splits)

lemma pres_onDisk_table [pres]:
  "preserves (onDisk D) (createFile mk)" "preserves (onDisk D) (createFolder mk2)" "preserves (onDisk D) (updateFiles q h)"
  "preserves (onDisk D) (updateFolders q2 h2)"
  unfolding createFile_def createFolder_def updateFiles_def updateFolders_def by (intro pres)+

lemma pres_onDisk_transaction [pres]: "preserves (onDisk D) m \<Longrightarrow> preserves (onDisk D) (transaction m)"
proof -
  assume m: "preserves (onDisk D) m"
  have 1: "D (disk t)" if "D (disk s)" "m (s\<lparr>tick := Suc (tick s)\<rparr>) = (Ok x, t)" for s x t
    using valid_OkD[OF m _ that(2)] that(1) by (simp add: onDisk_def)
  have 2: "D (disk t)" if "D (disk s)" "m (s\<lparr>tick := Suc (tick s)\<rparr>) = (Err e, t)" for s e t
    using valid_ErrD[OF m _ that(2)] that(1) by (simp add: onDisk_def)
  show ?thesis
    by (rule validI)
      (auto simp: onDisk_def transaction_def faulty_cases split: prod.splits outcome.splits if_splits dest: 1 2)
qed

text \<open>Termination under an invariant that the parts keep.\<close>

lemma ends_total: "total m \<Longrightarrow> ends P m"
  by (simp add: ends_def)

lemma ends_keep_bind:
  "ends (onDB J) m \<Longrightarrow> preserves (onDB J) m \<Longrightarrow> (\<And>x. ends (onDB J) (f x)) \<Longrightarrow> ends (onDB J) (bindM m f)"
  by (rule ends_bind[where R = "\<lambda>_. onDB J"]) (auto elim: valid_weaken)

lemma ends_keep_then:
  "ends (onDB J) m \<Longrightarrow> preserves (onDB J) m \<Longrightarrow> ends (onDB J) k \<Longrightarrow> ends (onDB J) (thenM m k)"
  unfolding thenM_def by (rule ends_keep_bind)

text \<open>
  Backward rules: one per construct, with the side conditions on the database as goals.  They are
  collected in dbrules; the rules for the calls of a component join them.
\<close>

named_theorems dbrules \<open>backward rules of triples over the database\<close>

lemma valid_onDB:
  "valid (onDB J) m (\<lambda>x. onDB (Q x)) (\<lambda>e. onDB (E e)) \<Longrightarrow> (\<And>d. J' d \<Longrightarrow> J d) \<Longrightarrow>
   (\<And>x d. Q x d \<Longrightarrow> Q' x d) \<Longrightarrow> (\<And>e d. E e d \<Longrightarrow> E' e d) \<Longrightarrow>
   valid (onDB J') m (\<lambda>x. onDB (Q' x)) (\<lambda>e. onDB (E' e))"
  by (erule valid_weaken) (auto simp: onDB_def)

lemma valid_onDB_pre:
  "valid (onDB J) m Q E \<Longrightarrow> (\<And>d. J' d \<Longrightarrow> J d) \<Longrightarrow> valid (onDB J') m Q E"
  by (erule valid_pre) (auto simp: onDB_def)

lemma valid_absurd: "(\<And>d. \<not> J d) \<Longrightarrow> valid (onDB J) m Q E"
  by (simp add: valid_def onDB_def)

lemma ends_absurd: "(\<And>d. \<not> J d) \<Longrightarrow> ends (onDB J) m"
  by (simp add: ends_def onDB_def)

lemma db_return [dbrules]: "(\<And>d. J d \<Longrightarrow> Q x d) \<Longrightarrow> valid (onDB J) (returnM x) (\<lambda>x. onDB (Q x)) E"
  by (auto simp: valid_def returnM_def onDB_def)

lemma db_throw [dbrules]:
  "(\<And>d. J d \<Longrightarrow> E e d) \<Longrightarrow> valid (onDB J) (throwM e) Q (\<lambda>e. onDB (E e))"
  by (auto simp: valid_def throwM_def onDB_def)

lemma db_throw_any [dbrules]: "valid (onDB J) (throwM e) Q (\<lambda>_ _. True)"
  by (auto simp: valid_def throwM_def)

lemma db_hang [dbrules]: "valid P hangM Q E"
  by (auto simp: valid_def hangM_def)

lemma db_query:
  "(\<And>x. valid (onDB (\<lambda>d. J d \<and> q d = x)) (f x) Q (\<lambda>e. onDB (E e))) \<Longrightarrow>
   (\<And>d. J d \<Longrightarrow> E ErrInternal d) \<Longrightarrow>
   valid (onDB J) (bindM (queryDB q) f) Q (\<lambda>e. onDB (E e))"
  by (rule valid_bind[where R = "\<lambda>x. onDB (\<lambda>d. J d \<and> q d = x)"], assumption,
      rule valid_weaken[OF valid_query[where J = J]]) (auto simp: onDB_def)

lemma db_if [dbrules]:
  "(b \<Longrightarrow> valid P m Q E) \<Longrightarrow> (\<not> b \<Longrightarrow> valid P k Q E) \<Longrightarrow> valid P (if b then m else k) Q E"
  by simp

lemma db_option [dbrules]:
  "(opt = None \<Longrightarrow> valid P m Q E) \<Longrightarrow> (\<And>x. opt = Some x \<Longrightarrow> valid P (f x) Q E) \<Longrightarrow>
   valid P (case opt of None \<Rightarrow> m | Some x \<Rightarrow> f x) Q E"
  by (cases opt) auto

lemma db_sum [dbrules]:
  "(\<And>e. r = Inl e \<Longrightarrow> valid P (g e) Q E) \<Longrightarrow> (\<And>x. r = Inr x \<Longrightarrow> valid P (f x) Q E) \<Longrightarrow>
   valid P (case r of Inl e \<Rightarrow> g e | Inr x \<Rightarrow> f x) Q E"
  by (cases r) auto

text \<open>A call by its triple, the continuation from what the triple gives.\<close>

lemma db_call:
  "valid (onDB J) m (\<lambda>x. onDB (R x)) (\<lambda>e. onDB (E e)) \<Longrightarrow>
   (\<And>x. valid (onDB (R x)) (f x) Q (\<lambda>e. onDB (E e))) \<Longrightarrow>
   valid (onDB J) (bindM m f) Q (\<lambda>e. onDB (E e))"
  by (rule valid_bind)

lemma db_keep:
  "preserves (onDB J) m \<Longrightarrow> (\<And>x. valid (onDB J) (f x) Q (\<lambda>e. onDB (E e))) \<Longrightarrow>
   (\<And>d e. J d \<Longrightarrow> E e d) \<Longrightarrow> valid (onDB J) (bindM m f) Q (\<lambda>e. onDB (E e))"
  by (rule valid_bind[where R = "\<lambda>_. onDB J"], assumption, erule valid_weaken)
    (auto simp: onDB_def)

lemma db_keep_then:
  "preserves (onDB J) m \<Longrightarrow> valid (onDB J) k Q (\<lambda>e. onDB (E e)) \<Longrightarrow>
   (\<And>d e. J d \<Longrightarrow> E e d) \<Longrightarrow> valid (onDB J) (thenM m k) Q (\<lambda>e. onDB (E e))"
  unfolding thenM_def by (rule db_keep)

lemma db_exec:
  "valid (onDB (\<lambda>d'. \<exists>d. J d \<and> d' = g d)) k Q (\<lambda>e. onDB (E e)) \<Longrightarrow> (\<And>d. J d \<Longrightarrow> E ErrInternal d) \<Longrightarrow>
   valid (onDB J) (thenM (execDB g) k) Q (\<lambda>e. onDB (E e))"
  by (rule valid_then, assumption) (auto simp: valid_def execDB_def faulty_cases onDB_def modifyM_def)

lemma db_exec_last:
  "(\<And>d. J d \<Longrightarrow> Q () (g d)) \<Longrightarrow> (\<And>d. J d \<Longrightarrow> E ErrInternal d) \<Longrightarrow>
   valid (onDB J) (execDB g) (\<lambda>x. onDB (Q x)) (\<lambda>e. onDB (E e))"
  by (auto simp: valid_def execDB_def faulty_cases onDB_def modifyM_def)

lemma db_ignore_exec:
  "(\<And>d. J d \<Longrightarrow> K d \<and> K (g d)) \<Longrightarrow> valid (onDB K) k Q E \<Longrightarrow> valid (onDB J) (thenM (ignoreM (execDB g)) k) Q E"
  by (rule valid_then, assumption, rule valid_ignore)
    (auto simp: valid_def execDB_def faulty_cases onDB_def modifyM_def)

lemma db_transaction_last:
  "valid (onDB J) m (\<lambda>x. onDB (Q x)) (\<lambda>_. onDB (\<lambda>_. True)) \<Longrightarrow> (\<And>e d. J d \<Longrightarrow> E e d) \<Longrightarrow>
   valid (onDB J) (transaction m) (\<lambda>x. onDB (Q x)) (\<lambda>e. onDB (E e))"
  by (rule valid_weaken[OF valid_transaction[where J = J and K = Q]]) (auto simp: onDB_def elim!: valid_weaken)

lemma db_try:
  "valid (onDB J) m (\<lambda>x. onDB (R1 x)) (\<lambda>e. onDB (R2 e)) \<Longrightarrow> (\<And>x. valid (onDB (R1 x)) (f (Inr x)) Q E) \<Longrightarrow>
   (\<And>e. valid (onDB (R2 e)) (f (Inl e)) Q E) \<Longrightarrow> valid (onDB J) (bindM (tryM m) f) Q E"
  by (rule valid_bind[where R = "\<lambda>r. onDB (case r of Inl e \<Rightarrow> R2 e | Inr x \<Rightarrow> R1 x)"])
    (auto split: sum.splits intro: valid_try)

lemma db_keep_try:
  "preserves (onDB J) m \<Longrightarrow> (\<And>r. valid (onDB J) (f r) Q E) \<Longrightarrow> valid (onDB J) (bindM (tryM m) f) Q E"
  by (rule valid_bind, assumption, rule valid_try)

lemma db_keep_ignore:
  "preserves (onDB J) m \<Longrightarrow> valid (onDB J) k Q E \<Longrightarrow> valid (onDB J) (thenM (ignoreM m) k) Q E"
  by (rule valid_then, assumption, rule valid_ignore)


section \<open>Successful calls, read forwards\<close>

lemma queryDB_OkD: "queryDB f w = (Ok x, w') \<Longrightarrow> x = f (wdb w) \<and> wdb w' = wdb w \<and> disk w' = disk w"
  by (auto simp: queryDB_def faulty_cases getsM_def split: if_splits)

lemma execDB_OkD: "execDB f w = (Ok x, w') \<Longrightarrow> wdb w' = f (wdb w) \<and> disk w' = disk w"
  by (auto simp: execDB_def faulty_cases modifyM_def split: if_splits)

lemma tryExecDB_OkD:
  "tryExecDB f w = (Ok r, w') \<Longrightarrow> disk w' = disk w \<and>
     (case f (wdb w) of None \<Rightarrow> r = None \<and> wdb w' = wdb w | Some (x, d) \<Rightarrow> r = Some x \<and> wdb w' = d)"
  by (auto simp: tryExecDB_def faulty_cases split: if_splits option.splits)

lemma execRet_OkD: "execRet f w = (Ok x, w') \<Longrightarrow> f (wdb w) = (x, wdb w') \<and> disk w' = disk w"
  by (auto simp: execRet_def faulty_cases split: if_splits prod.splits)

lemma transaction_OkD:
  assumes "transaction m w = (Ok x, w')"
  shows "\<exists>v v'. wdb v = wdb w \<and> disk v = disk w \<and> m v = (Ok x, v') \<and> wdb w' = wdb v' \<and> disk w' = disk v'"
proof -
  let ?v = "w\<lparr>tick := Suc (tick w)\<rparr>"
  obtain r v' where m: "m ?v = (r, v')" by fastforce
  with assms have "r = Ok x \<and> wdb w' = wdb v' \<and> disk w' = disk v'"
    by (cases r) (auto simp: transaction_def faulty_cases split: if_splits)
  with m show ?thesis by (intro exI[of _ ?v] exI[of _ v']) auto
qed

lemma liftM_OkD: "liftM r w = (Ok x, w') \<Longrightarrow> r = Inr x \<and> w' = w"
  by (auto simp: liftM_def throwM_def returnM_def split: sum.splits)

lemma return_OkD: "returnM y w = (Ok x, w') \<Longrightarrow> x = y \<and> w' = w"
  by (simp add: returnM_def)

lemma throw_OkD: "throwM e w = (Ok x, w') \<Longrightarrow> False"
  by (simp add: throwM_def)

lemma gets_OkD: "getsM f w = (Ok x, w') \<Longrightarrow> x = f w \<and> w' = w"
  by (auto simp: getsM_def)

lemmas okD = queryDB_OkD execDB_OkD tryExecDB_OkD execRet_OkD transaction_OkD liftM_OkD return_OkD gets_OkD

end
