(* ===== verification/Names.thy ===== *)
theory Names
  imports Prelude
begin

text \<open>
  Names and paths (common/validate.go): NormalizeDirPath, ValidateItemName, JoinItemPath.
  A directory path is the bucket root ''/'' or a list of segments joined by single slashes.
\<close>

section \<open>Directory paths\<close>

definition maxDirPathLen :: nat where
  "maxDirPathLen = 500"

definition maxItemNameLen :: nat where
  "maxItemNameLen = 255"

definition bad_seg :: "string \<Rightarrow> bool" where
  "bad_seg s \<longleftrightarrow> s = [] \<or> s = ''.'' \<or> s = ''..''"

text \<open>The loop of NormalizeDirPath; b is the string builder.\<close>

fun norm_segs :: "string \<Rightarrow> string list \<Rightarrow> string res" where
  "norm_segs b [] = Inr b"
| "norm_segs b (s # ss) =
     (if bad_seg s then Inl ErrInvalidInput
      else norm_segs ((if b \<noteq> [] then b @ ''/'' else b) @ s) ss)"

definition NormalizeDirPath :: "string \<Rightarrow> string res" where
  "NormalizeDirPath p =
     (if p = [] \<or> p = ''/'' then Inr ''/''
      else (case norm_segs [] (split_on (CHR ''/'') (trim_char (CHR ''/'') p)) of
              Inl e \<Rightarrow> Inl e
            | Inr out \<Rightarrow>
                if RuneCountInString out > maxDirPathLen then Inl ErrInvalidInput else Inr out))"

definition JoinItemPath :: "string \<Rightarrow> string \<Rightarrow> string" where
  "JoinItemPath dirPath name =
     (if dirPath = [] \<or> dirPath = ''/'' then name else dirPath @ ''/'' @ name)"

section \<open>Item names\<close>

definition forbidden_runes :: "nat list" where
  "forbidden_runes = [58, 42, 63, 34, 60, 62, 124]"

text \<open>The rune loop of ValidateItemName: control characters and the Windows set are refused.\<close>

definition bad_rune :: "nat \<Rightarrow> bool" where
  "bad_rune r \<longleftrightarrow> r < 0x20 \<or> r = 0x7F \<or> r \<in> set forbidden_runes"

definition has_suffix :: "'a list \<Rightarrow> 'a list \<Rightarrow> bool" where
  "has_suffix s t \<longleftrightarrow> length t \<le> length s \<and> drop (length s - length t) s = t"

definition reserved3 :: "string list" where
  "reserved3 = [''CON'', ''PRN'', ''AUX'', ''NUL'']"

text \<open>COM1-COM9 and LPT1-LPT9, guarded by the byte tests of the source.\<close>

definition reserved4 :: "string \<Rightarrow> bool" where
  "reserved4 base \<longleftrightarrow>
     length base = 4 \<and> base ! 0 \<in> set ''CcLl'' \<and>
     (let up = ToUpper base in
        (take 3 up = ''COM'' \<or> take 3 up = ''LPT'') \<and>
        (49 :: nat) \<le> of_char (up ! 3) \<and> (of_char (up ! 3) :: nat) \<le> 57)"

definition base_name :: "string \<Rightarrow> string" where
  "base_name name = takeWhile (\<lambda>c. c \<noteq> CHR ''.'') name"

definition ValidateItemName :: "string \<Rightarrow> unit res" where
  "ValidateItemName name =
     (if name = [] then Inl ErrInvalidInput
      else if CHR ''/'' \<in> set name \<or> char_of (92 :: nat) \<in> set name then Inl ErrInvalidInput
      else if RuneCountInString name > maxItemNameLen then Inl ErrInvalidInput
      else if list_ex bad_rune (runes name) then Inl ErrInvalidInput
      else if has_suffix name ''.'' \<or> has_suffix name '' '' then Inl ErrInvalidInput
      else if ToUpper (base_name name) \<in> set reserved3 then Inl ErrInvalidInput
      else if reserved4 (base_name name) then Inl ErrInvalidInput
      else Inr ())"


section \<open>Lemmas: directory paths\<close>

definition good_segs :: "string list \<Rightarrow> bool" where
  "good_segs ss \<longleftrightarrow> ss \<noteq> [] \<and> (\<forall>s\<in>set ss. \<not> bad_seg s \<and> CHR ''/'' \<notin> set s)"

lemma join_with_concat: "join_with c (s # ss) = s @ concat (map (Cons c) ss)"
  by (induction ss arbitrary: s) auto

lemma norm_segs_ne:
  "b \<noteq> [] \<Longrightarrow> norm_segs b ss =
     (if \<exists>s\<in>set ss. bad_seg s then Inl ErrInvalidInput
      else Inr (b @ concat (map (Cons (CHR ''/'')) ss)))"
  by (induction ss arbitrary: b) auto

lemma norm_segs_join:
  "ss \<noteq> [] \<Longrightarrow> norm_segs [] ss =
     (if \<exists>s\<in>set ss. bad_seg s then Inl ErrInvalidInput else Inr (join_with (CHR ''/'') ss))"
proof (cases ss)
  case (Cons s ts)
  then show ?thesis
    by (cases "bad_seg s")
      (auto simp: join_with_concat norm_segs_ne bad_seg_def simp del: join_with.simps)
qed simp

lemma NormalizeDirPath_trim:
  "p \<noteq> [] \<Longrightarrow> p \<noteq> ''/'' \<Longrightarrow> NormalizeDirPath p =
     (let q = trim_char (CHR ''/'') p in
      if \<exists>s\<in>set (split_on (CHR ''/'') q). bad_seg s then Inl ErrInvalidInput
      else if RuneCountInString q > maxDirPathLen then Inl ErrInvalidInput else Inr q)"
  by (simp add: NormalizeDirPath_def norm_segs_join Let_def)

lemma good_segs_hd_last:
  assumes "good_segs ss"
  shows "join_with (CHR ''/'') ss \<noteq> []"
    and "hd (join_with (CHR ''/'') ss) \<noteq> CHR ''/''"
    and "last (join_with (CHR ''/'') ss) \<noteq> CHR ''/''"
proof -
  let ?c = "CHR ''/''"
  from assms obtain s ts where ss: "ss = s # ts" "s \<noteq> []" "?c \<notin> set s"
    by (cases ss) (auto simp: good_segs_def bad_seg_def)
  show "join_with ?c ss \<noteq> []" "hd (join_with ?c ss) \<noteq> ?c"
    using ss by (auto simp: join_with_concat simp del: join_with.simps)
      (metis hd_append2 hd_in_set)
  from assms obtain us t where ss': "ss = us @ [t]" "t \<noteq> []" "?c \<notin> set t"
    by (cases ss rule: rev_cases) (auto simp: good_segs_def bad_seg_def)
  then show "last (join_with ?c ss) \<noteq> ?c"
    by (cases "us = []") (auto simp: join_with_snoc last_in_set dest: last_in_set)
qed

lemma good_segs_normal:
  assumes "good_segs ss" "RuneCountInString (join_with (CHR ''/'') ss) \<le> maxDirPathLen"
  shows "NormalizeDirPath (join_with (CHR ''/'') ss) = Inr (join_with (CHR ''/'') ss)"
proof -
  let ?q = "join_with (CHR ''/'') ss"
  have "split_on (CHR ''/'') ?q = ss"
    using assms(1) by (auto simp: good_segs_def intro!: split_join)
  moreover have "?q \<noteq> ''/''" "?q \<noteq> []" "trim_char (CHR ''/'') ?q = ?q"
    using good_segs_hd_last[OF assms(1)] by (auto intro: trim_char_id)
  ultimately show ?thesis
    using assms by (simp add: NormalizeDirPath_trim good_segs_def Let_def)
qed

lemma NormalizeDirPath_cases:
  assumes "NormalizeDirPath p = Inr q"
  obtains "q = ''/''" "p = [] \<or> p = ''/''"
  | ss where "good_segs ss" "q = join_with (CHR ''/'') ss" "q = trim_char (CHR ''/'') p"
      "split_on (CHR ''/'') q = ss" "RuneCountInString q \<le> maxDirPathLen"
proof (cases "p = [] \<or> p = ''/''")
  case True
  with assms that(1) show ?thesis by (auto simp: NormalizeDirPath_def)
next
  case False
  with assms have "q = trim_char (CHR ''/'') p" "good_segs (split_on (CHR ''/'') q)"
      "RuneCountInString q \<le> maxDirPathLen"
    by (auto simp: NormalizeDirPath_trim Let_def good_segs_def split_on_notin split: if_splits)
  with that(2)[of "split_on (CHR ''/'') q"] show ?thesis by simp
qed

lemma NormalizeDirPath_idem: "NormalizeDirPath p = Inr q \<Longrightarrow> NormalizeDirPath q = Inr q"
  by (erule NormalizeDirPath_cases)
    (simp add: NormalizeDirPath_def, metis good_segs_normal)

section \<open>Lemmas: item names\<close>

lemma decode_rune_ascii:
  "x \<in> set (take (snd (decode_rune bs)) bs) \<Longrightarrow> x < 0x80 \<Longrightarrow> x = fst (decode_rune bs)"
proof (cases bs)
  case (Cons b cs)
  assume a: "x \<in> set (take (snd (decode_rune bs)) bs)" "x < 0x80"
  obtain n where n: "snd (decode_rune bs) = Suc n"
    using decode_rune_width[of bs] Cons by (auto simp: gr0_conv_Suc)
  show ?thesis
    using decode_rune_multi[of b cs] a n
    unfolding Cons by (auto simp: list_all_iff simp del: decode_rune.simps)
qed simp

lemma runes_of_ascii: "x \<in> set bs \<Longrightarrow> x < 0x80 \<Longrightarrow> x \<in> set (runes_of bs)"
proof (induction bs rule: runes_of.induct)
  case (1 bs)
  obtain r w where rw: "decode_rune bs = (r, w)" by fastforce
  from 1(2) have ne: "bs \<noteq> []" by auto
  have "x \<in> set (take w bs) \<or> x \<in> set (drop w bs)"
    using 1(2) by (metis Un_iff append_take_drop_id set_append)
  then show ?case
    using 1 ne rw decode_rune_ascii[of x bs] by (subst runes_of.simps) auto
qed

lemma runes_ascii: "c \<in> set s \<Longrightarrow> of_char c < (0x80 :: nat) \<Longrightarrow> of_char c \<in> set (runes s)"
  by (simp add: runes_def runes_of_ascii)

lemma has_suffix_single: "has_suffix s [c] \<longleftrightarrow> s \<noteq> [] \<and> last s = c"
  by (cases s rule: rev_cases) (auto simp: has_suffix_def)

lemma ValidateItemName_okD:
  assumes "ValidateItemName n = Inr ()"
  shows "n \<noteq> []" "CHR ''/'' \<notin> set n" "char_of (92 :: nat) \<notin> set n"
    "RuneCountInString n \<le> maxItemNameLen" "last n \<noteq> CHR ''.''" "last n \<noteq> CHR '' ''"
    "ToUpper (base_name n) \<notin> set reserved3" "\<not> reserved4 (base_name n)"
    "\<And>c. c \<in> set n \<Longrightarrow> \<not> bad_rune (of_char c)"
proof -
  note v = assms[unfolded ValidateItemName_def]
  show "n \<noteq> []" "CHR ''/'' \<notin> set n" "char_of (92 :: nat) \<notin> set n"
    "RuneCountInString n \<le> maxItemNameLen" "last n \<noteq> CHR ''.''" "last n \<noteq> CHR '' ''"
    "ToUpper (base_name n) \<notin> set reserved3" "\<not> reserved4 (base_name n)"
    using v by (auto split: if_splits simp: has_suffix_single)
  fix c assume c: "c \<in> set n"
  have "\<not> list_ex bad_rune (runes n)" using v by (auto split: if_splits)
  then have "of_char c < (0x80 :: nat) \<Longrightarrow> \<not> bad_rune (of_char c)"
    using runes_ascii[OF c] by (auto simp: list_ex_iff)
  then show "\<not> bad_rune (of_char c)"
    by (auto simp: bad_rune_def forbidden_runes_def)
qed

lemma valid_name_seg: "ValidateItemName n = Inr () \<Longrightarrow> \<not> bad_seg n \<and> CHR ''/'' \<notin> set n"
  using ValidateItemName_okD[of n] by (auto simp: bad_seg_def)

lemma JoinItemPath_split:
  assumes "NormalizeDirPath p = Inr d" "ValidateItemName n = Inr ()"
  shows "split_on (CHR ''/'') (JoinItemPath d n) =
         (if d = ''/'' then [] else split_on (CHR ''/'') d) @ [n]"
  using assms(1)
proof (cases rule: NormalizeDirPath_cases)
  case 1
  with valid_name_seg[OF assms(2)] show ?thesis
    by (simp add: JoinItemPath_def split_on_id)
next
  case (2 ss)
  have d: "d \<noteq> []" "d \<noteq> ''/''" using good_segs_hd_last[OF 2(1)] 2(2) by auto
  have "JoinItemPath d n = join_with (CHR ''/'') (ss @ [n])"
    using d 2 by (simp add: JoinItemPath_def join_with_snoc good_segs_def)
  moreover have "split_on (CHR ''/'') (join_with (CHR ''/'') (ss @ [n])) = ss @ [n]"
    by (rule split_join) (use 2(1) valid_name_seg[OF assms(2)] in \<open>auto simp: good_segs_def\<close>)
  ultimately show ?thesis using d 2 by simp
qed

section \<open>Properties\<close>

text \<open>NormalizeDirPath is exactly this: the empty path and ''/'' become the bucket root; any other
  path loses its outer slashes and is accepted when every segment is non-empty and neither ''.'' nor
  ''..'' and the result has at most 500 characters.  A normal form is its own normal form.\<close>

lemma NormalizeDirPath_spec:
  "(NormalizeDirPath p = Inr q \<longleftrightarrow>
      (if p = [] \<or> p = ''/'' then q = ''/''
       else q = trim_char (CHR ''/'') p \<and> good_segs (split_on (CHR ''/'') q) \<and>
            RuneCountInString q \<le> 500)) \<and>
   (NormalizeDirPath p = Inr q \<longrightarrow> NormalizeDirPath q = Inr q)"
proof (cases "p = [] \<or> p = ''/''")
  case True
  then show ?thesis by (auto simp: NormalizeDirPath_def)
next
  case False
  then have "NormalizeDirPath p = Inr q \<longleftrightarrow>
    q = trim_char (CHR ''/'') p \<and> good_segs (split_on (CHR ''/'') q) \<and> RuneCountInString q \<le> 500"
    by (auto simp: NormalizeDirPath_trim Let_def good_segs_def split_on_notin maxDirPathLen_def)
  moreover note NormalizeDirPath_idem[of p q]
  ultimately show ?thesis by (simp only: if_not_P[OF False]) blast
qed

lemma NormalizeDirPath_spec_witness:
  "NormalizeDirPath ''/a/b/'' = Inr ''a/b'' \<and> NormalizeDirPath ''a/b'' = Inr ''a/b''"
proof -
  have "NormalizeDirPath ''/a/b/'' = Inr ''a/b''" by code_simp
  with NormalizeDirPath_spec[of "''/a/b/''" "''a/b''"] show ?thesis by blast
qed



text \<open>JoinItemPath loses nothing: for normalised directories and valid names, the joined path
  determines both.\<close>

lemma JoinItemPath_injective:
  assumes "NormalizeDirPath p1 = Inr d1" "NormalizeDirPath p2 = Inr d2"
    and "ValidateItemName n1 = Inr ()" "ValidateItemName n2 = Inr ()"
  shows "JoinItemPath d1 n1 = JoinItemPath d2 n2 \<longleftrightarrow> d1 = d2 \<and> n1 = n2"
proof
  assume "JoinItemPath d1 n1 = JoinItemPath d2 n2"
  then have eq: "(if d1 = ''/'' then [] else split_on (CHR ''/'') d1) @ [n1] =
      (if d2 = ''/'' then [] else split_on (CHR ''/'') d2) @ [n2]"
    using JoinItemPath_split[OF assms(1,3)] JoinItemPath_split[OF assms(2,4)] by simp
  then have "d1 = d2"
    by (auto simp: split_on_ne[symmetric] split: if_splits
        dest: arg_cong[where f = "join_with (CHR ''/'')"])
  with eq show "d1 = d2 \<and> n1 = n2" by simp
qed simp

lemma JoinItemPath_injective_witness:
  "JoinItemPath ''a/b'' ''c'' = JoinItemPath ''a/b'' ''c'' \<longleftrightarrow> ''a/b'' = ''a/b'' \<and> ''c'' = ''c''"
proof -
  have "NormalizeDirPath ''a/b/'' = Inr ''a/b''" "NormalizeDirPath ''/a/b'' = Inr ''a/b''"
    "ValidateItemName ''c'' = Inr ()" by code_simp+
  from JoinItemPath_injective[OF this(1,2,3,3)] show ?thesis .
qed

end
