(* ===== verification/FileBase.thy ===== *)
theory FileBase
  imports Model Names
begin

text \<open>
  The base layer of bucket items (server/file.go, with GetBucket, GetUser and UserGroupIDs of
  server/bucket.go, user.go and user_group.go that it calls): loading rows, name conflicts,
  automatic renaming, the usability check along the ancestors.
\<close>

section \<open>Loading rows\<close>

definition objectKeyForFile :: "nat \<Rightarrow> string" where
  "objectKeyForFile fileID = dec fileID"

definition orNotFound :: "'a option \<Rightarrow> 'a W" where
  "orNotFound r = (case r of None \<Rightarrow> throwM ErrNotFound | Some x \<Rightarrow> returnM x)"

definition GetBucket :: "nat \<Rightarrow> Bucket W" where
  "GetBucket i = bindM (queryDB (\<lambda>d. tfirst (\<lambda>r. live_bkt r \<and> bkt_ID r = i) (buckets d))) orNotFound"

definition GetUser :: "nat \<Rightarrow> User W" where
  "GetUser i =
     bindM (queryDB (\<lambda>d. tfirst (\<lambda>r. live_usr r \<and> usr_ID r = i) (users d))) (\<lambda>u.
     bindM (orNotFound u) (\<lambda>u. returnM (u\<lparr>usr_Password := [], usr_NtHash := []\<rparr>)))"

definition UserGroupIDs :: "nat \<Rightarrow> nat list W" where
  "UserGroupIDs userID =
     bindM (queryDB (\<lambda>d. tfind (\<lambda>r. live_mem r \<and> mem_UserID r = userID) (members d))) (\<lambda>ms.
     returnM (map mem_GroupID ms))"

definition CheckBucketUsable :: "nat \<Rightarrow> Bucket W" where
  "CheckBucketUsable bucketID =
     bindM (GetBucket bucketID) (\<lambda>b.
     if bkt_Status b \<noteq> 1 then throwM ErrForbidden else returnM b)"

definition the_file :: "nat \<Rightarrow> nat \<Rightarrow> db \<Rightarrow> File option" where
  "the_file bucketID fileID d =
     tfirst (\<lambda>r. live_fil r \<and> fil_ID r = fileID \<and> fil_BucketID r = bucketID) (files d)"

definition the_folder :: "nat \<Rightarrow> nat \<Rightarrow> db \<Rightarrow> Folder option" where
  "the_folder bucketID folderID d =
     tfirst (\<lambda>r. live_fld r \<and> fld_ID r = folderID \<and> fld_BucketID r = bucketID) (folders d)"

definition loadFile :: "nat \<Rightarrow> nat \<Rightarrow> File W" where
  "loadFile bucketID fileID = bindM (queryDB (the_file bucketID fileID)) orNotFound"

definition loadFolder :: "nat \<Rightarrow> nat \<Rightarrow> Folder W" where
  "loadFolder bucketID folderID = bindM (queryDB (the_folder bucketID folderID)) orNotFound"

section \<open>Name conflicts\<close>

definition file_named :: "nat \<Rightarrow> nat \<Rightarrow> string \<Rightarrow> File \<Rightarrow> bool" where
  "file_named bucketID folderID lower r \<longleftrightarrow>
     live_fil r \<and> fil_BucketID r = bucketID \<and> fil_FolderID r = folderID \<and> fil_NameLower r = lower"

definition folder_named :: "nat \<Rightarrow> nat \<Rightarrow> string \<Rightarrow> Folder \<Rightarrow> bool" where
  "folder_named bucketID parentID lower r \<longleftrightarrow>
     live_fld r \<and> fld_BucketID r = bucketID \<and> fld_ParentID r = parentID \<and> fld_NameLower r = lower"

definition nameExists :: "nat \<Rightarrow> nat \<Rightarrow> string \<Rightarrow> bool W" where
  "nameExists bucketID folderID name =
     (let lower = ToLower name in
      bindM (queryDB (\<lambda>d. tcount (file_named bucketID folderID lower) (files d))) (\<lambda>n1.
      bindM (queryDB (\<lambda>d. tcount (folder_named bucketID folderID lower) (folders d))) (\<lambda>n2.
      returnM (n1 > 0 \<or> n2 > 0))))"

definition findFolderByParent :: "nat \<Rightarrow> nat \<Rightarrow> string \<Rightarrow> nat W" where
  "findFolderByParent bucketID parentID name =
     bindM (queryDB (\<lambda>d. tfirst
         (\<lambda>r. folder_named bucketID parentID (ToLower name) r \<and> fld_Isable r \<noteq> 0) (folders d)))
       (\<lambda>r. bindM (orNotFound r) (\<lambda>f. returnM (fld_ID f)))"

text \<open>filepath.Ext of a name without separators: from the last dot on.\<close>

definition Ext :: "string \<Rightarrow> string" where
  "Ext name =
     (if CHR ''.'' \<in> set name
      then CHR ''.'' # rev (takeWhile (\<lambda>c. c \<noteq> CHR ''.'') (rev name)) else [])"

definition TrimSuffix :: "string \<Rightarrow> string \<Rightarrow> string" where
  "TrimSuffix s t = (if has_suffix s t then take (length s - length t) s else s)"

definition numbered :: "string \<Rightarrow> nat \<Rightarrow> string" where
  "numbered name n =
     (let ext = Ext name; base = TrimSuffix name ext in base @ '' ('' @ dec n @ '')'' @ ext)"

text \<open>The loop over the candidates n, n + 1, \dots of uniqueName; k are left.\<close>

fun uniqueName_loop :: "nat \<Rightarrow> nat \<Rightarrow> nat \<Rightarrow> nat \<Rightarrow> string \<Rightarrow> string W" where
  "uniqueName_loop 0 n bucketID folderID name = throwM ErrConflict"
| "uniqueName_loop (Suc k) n bucketID folderID name =
     bindM (nameExists bucketID folderID (numbered name n)) (\<lambda>ex.
     if \<not> ex then returnM (numbered name n)
     else uniqueName_loop k (Suc n) bucketID folderID name)"

definition uniqueName :: "nat \<Rightarrow> nat \<Rightarrow> string \<Rightarrow> string W" where
  "uniqueName bucketID folderID name =
     bindM (nameExists bucketID folderID name) (\<lambda>ex.
     if \<not> ex then returnM name else uniqueName_loop 1000 1 bucketID folderID name)"

section \<open>Ancestors\<close>

text \<open>
  checkAncestorsUsable walks the parents without a cycle guard; the model gives it one step per
  folder row and one more, and Hang beyond.
\<close>

fun checkAncestorsUsable_loop :: "nat \<Rightarrow> nat \<Rightarrow> nat \<Rightarrow> unit W" where
  "checkAncestorsUsable_loop fuel bucketID cur =
     (if cur = 0 then returnM ()
      else (case fuel of 0 \<Rightarrow> hangM
        | Suc n \<Rightarrow>
            bindM (loadFolder bucketID cur) (\<lambda>f.
            if fld_Isable f = FolderUnusable then throwM ErrNotFound
            else checkAncestorsUsable_loop n bucketID (fld_ParentID f))))"

declare checkAncestorsUsable_loop.simps [simp del]

definition folderCount :: "nat W" where
  "folderCount = getsM (\<lambda>w. length (rows (folders (wdb w))))"

definition checkAncestorsUsable :: "nat \<Rightarrow> nat \<Rightarrow> unit W" where
  "checkAncestorsUsable bucketID folderID =
     bindM folderCount (\<lambda>n. checkAncestorsUsable_loop (Suc n) bucketID folderID)"

definition operatorLevelOf :: "nat \<Rightarrow> int W" where
  "operatorLevelOf userID =
     (if userID = 0 then returnM 0
      else bindM (tryM (GetUser userID)) (\<lambda>r.
        case r of Inl _ \<Rightarrow> returnM 0 | Inr u \<Rightarrow> returnM (usr_PermissionLevel u)))"

definition nextSubfolders :: "nat \<Rightarrow> nat \<Rightarrow> Folder list W" where
  "nextSubfolders bucketID folderID =
     queryDB (\<lambda>d. tfind (\<lambda>r. live_fld r \<and> fld_BucketID r = bucketID \<and> fld_ParentID r = folderID)
       (folders d))"


section \<open>Lemmas: reads keep the database\<close>

lemma pres_orNotFound [pres]: "preserves I (orNotFound r)"
  by (simp add: orNotFound_def pres)

lemma pres_GetBucket [pres]: "preserves (onDB J) (GetBucket i)"
  by (simp add: GetBucket_def pres)

lemma pres_GetUser [pres]: "preserves (onDB J) (GetUser i)"
  unfolding GetUser_def by (intro pres)

lemma pres_UserGroupIDs [pres]: "preserves (onDB J) (UserGroupIDs i)"
  unfolding UserGroupIDs_def by (intro pres)

lemma pres_CheckBucketUsable [pres]: "preserves (onDB J) (CheckBucketUsable i)"
  unfolding CheckBucketUsable_def by (intro pres)

lemma pres_loadFile [pres]: "preserves (onDB J) (loadFile b i)"
  by (simp add: loadFile_def pres)

lemma pres_loadFolder [pres]: "preserves (onDB J) (loadFolder b i)"
  by (simp add: loadFolder_def pres)

lemma pres_nameExists [pres]: "preserves (onDB J) (nameExists b f n)"
  unfolding nameExists_def Let_def by (intro pres)

lemma pres_findFolderByParent [pres]: "preserves (onDB J) (findFolderByParent b p n)"
  unfolding findFolderByParent_def by (intro pres)

lemma pres_uniqueName_loop: "preserves (onDB J) (uniqueName_loop k n b f nm)"
  by (induction k arbitrary: n) (auto intro!: pres)

lemma pres_uniqueName [pres]: "preserves (onDB J) (uniqueName b f n)"
  unfolding uniqueName_def by (intro pres pres_uniqueName_loop)

lemma pres_checkAncestorsUsable_loop: "preserves (onDB J) (checkAncestorsUsable_loop n b c)"
proof (induction n arbitrary: c)
  case 0
  show ?case by (subst checkAncestorsUsable_loop.simps) (simp add: pres)
next
  case (Suc n)
  then show ?case by (subst checkAncestorsUsable_loop.simps) (auto intro!: pres)
qed

lemma pres_folderCount [pres]: "preserves (onDB J) folderCount"
  by (simp add: folderCount_def pres)

lemma pres_checkAncestorsUsable [pres]: "preserves (onDB J) (checkAncestorsUsable b f)"
  unfolding checkAncestorsUsable_def by (intro pres pres_checkAncestorsUsable_loop)

lemma pres_operatorLevelOf [pres]: "preserves (onDB J) (operatorLevelOf u)"
  unfolding operatorLevelOf_def by (intro pres)

lemma pres_nextSubfolders [pres]: "preserves (onDB J) (nextSubfolders b f)"
  unfolding nextSubfolders_def by (intro pres)

lemma ends_orNotFound [ends_rules]: "ends P (orNotFound r)"
  unfolding orNotFound_def by (intro ends_rules)

lemma total_reads [ends_rules]:
  "total (GetBucket i)" "total (GetUser i)" "total (UserGroupIDs i)" "total (loadFile b i)" "total (loadFolder b i)"
  "total (nameExists b f n)" "total (findFolderByParent b p n)" "total (nextSubfolders b f)" "total folderCount"
  unfolding GetBucket_def GetUser_def UserGroupIDs_def loadFile_def loadFolder_def nameExists_def Let_def
    findFolderByParent_def nextSubfolders_def folderCount_def
  by (intro ends_rules)+

lemma total_CheckBucketUsable [ends_rules]: "total (CheckBucketUsable i)"
  unfolding CheckBucketUsable_def by (intro ends_rules)

lemma total_operatorLevelOf [ends_rules]: "total (operatorLevelOf i)"
  unfolding operatorLevelOf_def by (intro ends_rules)

lemma total_uniqueName_loop: "total (uniqueName_loop k n b f nm)"
  by (induction k arbitrary: n) (auto intro!: ends_rules)

lemma total_uniqueName [ends_rules]: "total (uniqueName b f n)"
  unfolding uniqueName_def by (intro ends_rules total_uniqueName_loop)

section \<open>Lemmas: what the loads return\<close>

lemma valid_load:
  "valid (onDB J) (bindM (queryDB q) orNotFound) (\<lambda>x. onDB (\<lambda>d. J d \<and> q d = Some x)) (\<lambda>_. onDB J)"
  unfolding orNotFound_def by (intro db_query dbrules) auto

lemma valid_loadFile:
  "valid (onDB J) (loadFile b i) (\<lambda>x. onDB (\<lambda>d. J d \<and> the_file b i d = Some x)) (\<lambda>_. onDB J)"
  unfolding loadFile_def by (rule valid_load)

lemma valid_loadFolder:
  "valid (onDB J) (loadFolder b i) (\<lambda>x. onDB (\<lambda>d. J d \<and> the_folder b i d = Some x)) (\<lambda>_. onDB J)"
  unfolding loadFolder_def by (rule valid_load)

section \<open>Lemmas: name conflicts\<close>

definition name_taken :: "nat \<Rightarrow> nat \<Rightarrow> string \<Rightarrow> db \<Rightarrow> bool" where
  "name_taken bucketID folderID name d \<longleftrightarrow>
     (\<exists>r\<in>set (rows (files d)). file_named bucketID folderID (ToLower name) r) \<or>
     (\<exists>r\<in>set (rows (folders d)). folder_named bucketID folderID (ToLower name) r)"

lemma valid_nameExists:
  "valid (onDB J) (nameExists b f n) (\<lambda>ex. onDB (\<lambda>d. J d \<and> ex = name_taken b f n d)) (\<lambda>_. onDB J)"
  unfolding nameExists_def Let_def
proof (intro db_query dbrules)
  fix n1 n2 d
  assume "(J d \<and> tcount (file_named b f (ToLower n)) (files d) = n1) \<and>
          tcount (folder_named b f (ToLower n)) (folders d) = n2"
  then show "J d \<and> (0 < n1 \<or> 0 < n2) = name_taken b f n d"
    using tcount_0[of "file_named b f (ToLower n)" "files d"]
      tcount_0[of "folder_named b f (ToLower n)" "folders d"]
    unfolding name_taken_def by (metis neq0_conv)
qed auto

definition candidate :: "string \<Rightarrow> string \<Rightarrow> bool" where
  "candidate name n \<longleftrightarrow> n = name \<or> (\<exists>k\<ge>1. k \<le> 1000 \<and> n = numbered name k)"

lemma valid_uniqueName_loop:
  "1 \<le> n \<Longrightarrow> n + k \<le> 1001 \<Longrightarrow>
   valid (onDB J) (uniqueName_loop k n b f nm)
     (\<lambda>r. onDB (\<lambda>d. J d \<and> \<not> name_taken b f r d \<and> candidate nm r)) (\<lambda>_. onDB J)"
proof (induction k arbitrary: n)
  case 0
  show ?case by (simp, intro dbrules) auto
next
  case (Suc k)
  show ?case
  proof (simp only: uniqueName_loop.simps, rule db_call[OF valid_nameExists], rule db_if)
    fix ex
    assume "\<not> ex"
    moreover have "candidate nm (numbered nm n)" using Suc.prems by (auto simp: candidate_def)
    ultimately show "valid (onDB (\<lambda>d. J d \<and> ex = name_taken b f (numbered nm n) d))
        (returnM (numbered nm n))
        (\<lambda>r. onDB (\<lambda>d. J d \<and> \<not> name_taken b f r d \<and> candidate nm r)) (\<lambda>_. onDB J)"
      by (intro dbrules) auto
  next
    fix ex
    show "valid (onDB (\<lambda>d. J d \<and> ex = name_taken b f (numbered nm n) d))
        (uniqueName_loop k (Suc n) b f nm)
        (\<lambda>r. onDB (\<lambda>d. J d \<and> \<not> name_taken b f r d \<and> candidate nm r)) (\<lambda>_. onDB J)"
      using Suc.prems by (intro valid_onDB_pre[OF Suc.IH]) auto
  qed
qed

lemma valid_uniqueName:
  "valid (onDB J) (uniqueName b f nm)
     (\<lambda>r. onDB (\<lambda>d. J d \<and> \<not> name_taken b f r d \<and> candidate nm r)) (\<lambda>_. onDB J)"
  unfolding uniqueName_def
proof (rule db_call[OF valid_nameExists], rule db_if)
  fix ex
  assume "\<not> ex"
  then show "valid (onDB (\<lambda>d. J d \<and> ex = name_taken b f nm d)) (returnM nm)
      (\<lambda>r. onDB (\<lambda>d. J d \<and> \<not> name_taken b f r d \<and> candidate nm r)) (\<lambda>_. onDB J)"
    by (intro dbrules) (auto simp: candidate_def)
next
  fix ex
  show "valid (onDB (\<lambda>d. J d \<and> ex = name_taken b f nm d)) (uniqueName_loop 1000 1 b f nm)
      (\<lambda>r. onDB (\<lambda>d. J d \<and> \<not> name_taken b f r d \<and> candidate nm r)) (\<lambda>_. onDB J)"
    by (intro valid_onDB_pre[OF valid_uniqueName_loop]) auto
qed


section \<open>Lemmas: the walk along the ancestors ends\<close>

definition parent_rel :: "db \<Rightarrow> (nat \<times> nat) set" where
  "parent_rel d = (\<lambda>r. (fld_ID r, fld_ParentID r)) ` set (rows (folders d))"

definition folder_ids :: "db \<Rightarrow> nat set" where
  "folder_ids d = fld_ID ` set (rows (folders d))"

lemma folder_ids_card: "finite (folder_ids d) \<and> card (folder_ids d) \<le> length (rows (folders d))"
  unfolding folder_ids_def by (metis List.finite_set finite_imageI card_image_le card_length le_trans)

lemma the_folder_row:
  "the_folder b i d = Some f \<Longrightarrow>
   f \<in> set (rows (folders d)) \<and> live_fld f \<and> fld_ID f = i \<and> fld_BucketID f = b"
  by (auto simp: the_folder_def dest: tfirst_Some)

lemma ends_loadFolder [ends_rules]: "ends P (loadFolder b i)"
  by (auto simp: ends_def loadFolder_def queryDB_def faulty_cases orNotFound_def effects
      split: prod.splits option.splits)

lemma checkAncestorsUsable_loop_ends:
  assumes "acyclic (parent_rel d)"
  shows "V \<subseteq> folder_ids d \<Longrightarrow> \<forall>v\<in>V. (v, c) \<in> (parent_rel d)\<^sup>+ \<Longrightarrow>
    card (folder_ids d - V) < n \<Longrightarrow> ends (onDB (\<lambda>e. e = d)) (checkAncestorsUsable_loop n b c)"
proof (induction n arbitrary: c V)
  case (Suc n)
  have step: "ends (onDB (\<lambda>e. e = d \<and> the_folder b c e = Some f))
     (checkAncestorsUsable_loop n b (fld_ParentID f))" for f
  proof (cases "the_folder b c d = Some f")
    case True
    note row = the_folder_row[OF True]
    then have c: "c \<in> folder_ids d" "(c, fld_ParentID f) \<in> parent_rel d"
      by (auto simp: folder_ids_def parent_rel_def image_iff)
    have nV: "c \<notin> V" using Suc.prems(2) assms by (auto simp: acyclic_def)
    have "ends (onDB (\<lambda>e. e = d)) (checkAncestorsUsable_loop n b (fld_ParentID f))"
    proof (rule Suc.IH[of "insert c V"])
      show "insert c V \<subseteq> folder_ids d" using Suc.prems(1) c by simp
      show "\<forall>v\<in>insert c V. (v, fld_ParentID f) \<in> (parent_rel d)\<^sup>+"
        using Suc.prems(2) c(2) by (auto intro: trancl_into_trancl)
      have "card (folder_ids d - insert c V) < card (folder_ids d - V)"
        using c(1) nV folder_ids_card[of d] by (intro psubset_card_mono) auto
      then show "card (folder_ids d - insert c V) < n" using Suc.prems(3) by simp
    qed
    then show ?thesis by (rule ends_pre) (auto simp: onDB_def)
  qed (auto simp: ends_def onDB_def)
  show ?case
    by (subst checkAncestorsUsable_loop.simps)
      (auto intro!: ends_rules step
        ends_bind[where R = "\<lambda>f. onDB (\<lambda>e. e = d \<and> the_folder b c e = Some f)"]
        intro: valid_weaken[OF valid_loadFolder[where J = "\<lambda>e. e = d"]])
qed simp

lemma ends_checkAncestorsUsable:
  "ends (onDB (\<lambda>d. acyclic (parent_rel d))) (checkAncestorsUsable b f)"
proof -
  have "fst (checkAncestorsUsable_loop (Suc (length (rows (folders (wdb w))))) b f w) \<noteq> Hang"
    if "acyclic (parent_rel (wdb w))" for w
    using checkAncestorsUsable_loop_ends[OF that, of "{}" f "Suc (length (rows (folders (wdb w))))" b]
      folder_ids_card[of "wdb w"] by (auto simp: ends_def onDB_def)
  then show ?thesis
    by (auto simp: ends_def onDB_def checkAncestorsUsable_def folderCount_def bindM_def getsM_def)
qed


section \<open>Lemmas: successful loads, read forwards\<close>

text \<open>What keeps every assertion about the database keeps the database.\<close>

lemma keep_OkD: "(\<And>J. preserves (onDB J) m) \<Longrightarrow> m w = (Ok x, w') \<Longrightarrow> wdb w' = wdb w"
  by (drule valid_OkD[where P = "onDB (\<lambda>d. d = wdb w)" and Q = "\<lambda>_. onDB (\<lambda>d. d = wdb w)" and m = m and s = w, rotated -1])
    (simp_all add: onDB_def)

lemma disk_OkD: "(\<And>D. preserves (onDisk D) m) \<Longrightarrow> m w = (Ok x, w') \<Longrightarrow> disk w' = disk w"
  by (drule valid_OkD[where P = "onDisk (\<lambda>d. d = disk w)" and Q = "\<lambda>_. onDisk (\<lambda>d. d = disk w)" and m = m and s = w, rotated -1])
    (simp_all add: onDisk_def)

lemma storageGet_OkD: "storageGet b k w = (Ok x, w') \<Longrightarrow> localGet storageRoot b k (disk w) = Inr x \<and> wdb w' = wdb w \<and> disk w' = disk w"
  by (auto simp: storageGet_def faulty_cases split: if_splits sum.splits)

lemma valid_db_OkD: "valid (onDB (\<lambda>d. d = wdb w)) m (\<lambda>x. onDB (Q x)) E \<Longrightarrow> m w = (Ok x, w') \<Longrightarrow> Q x (wdb w')"
  by (drule valid_OkD) (auto simp: onDB_def)

lemma orNotFound_OkD: "orNotFound r w = (Ok x, w') \<Longrightarrow> r = Some x \<and> w' = w"
  by (auto simp: orNotFound_def throwM_def returnM_def split: option.splits)

lemma loadFile_OkD:
  "loadFile b i w = (Ok f, w') \<Longrightarrow> the_file b i (wdb w) = Some f \<and> wdb w' = wdb w \<and> disk w' = disk w"
  by (auto simp: loadFile_def elim!: bindM_OkE dest!: okD orNotFound_OkD)

lemma loadFolder_OkD:
  "loadFolder b i w = (Ok f, w') \<Longrightarrow>
   the_folder b i (wdb w) = Some f \<and> wdb w' = wdb w \<and> disk w' = disk w"
  by (auto simp: loadFolder_def elim!: bindM_OkE dest!: okD orNotFound_OkD)

definition member_groups :: "nat \<Rightarrow> db \<Rightarrow> nat list" where
  "member_groups u d = map mem_GroupID (tfind (\<lambda>r. live_mem r \<and> mem_UserID r = u) (members d))"

lemma UserGroupIDs_OkD:
  "UserGroupIDs u w = (Ok gs, w') \<Longrightarrow>
   gs = member_groups u (wdb w) \<and> wdb w' = wdb w \<and> disk w' = disk w"
  by (auto simp: UserGroupIDs_def member_groups_def elim!: bindM_OkE dest!: okD)

lemma GetUser_OkD:
  "GetUser i w = (Ok u, w') \<Longrightarrow>
   (\<exists>v. tfirst (\<lambda>r. live_usr r \<and> usr_ID r = i) (users (wdb w)) = Some v \<and>
        u = v\<lparr>usr_Password := [], usr_NtHash := []\<rparr>) \<and> wdb w' = wdb w \<and> disk w' = disk w"
  by (auto simp: GetUser_def elim!: bindM_OkE dest!: okD orNotFound_OkD)

lemma GetBucket_OkD:
  "GetBucket i w = (Ok b, w') \<Longrightarrow>
   tfirst (\<lambda>r. live_bkt r \<and> bkt_ID r = i) (buckets (wdb w)) = Some b \<and> wdb w' = wdb w \<and>
   disk w' = disk w"
  by (auto simp: GetBucket_def elim!: bindM_OkE dest!: okD orNotFound_OkD)

section \<open>Specification: the chain of ancestors\<close>

text \<open>A folder and its ancestors up to the bucket root, if all rows are there.\<close>

fun chain :: "nat \<Rightarrow> db \<Rightarrow> nat \<Rightarrow> nat \<Rightarrow> Folder list option" where
  "chain n d b cur =
     (if cur = 0 then Some []
      else (case n of 0 \<Rightarrow> None
        | Suc m \<Rightarrow> (case the_folder b cur d of None \<Rightarrow> None
            | Some f \<Rightarrow> map_option (\<lambda>fs. f # fs) (chain m d b (fld_ParentID f)))))"

declare chain.simps [simp del]

definition ancestors :: "db \<Rightarrow> nat \<Rightarrow> nat \<Rightarrow> Folder list option" where
  "ancestors d b i = chain (Suc (length (rows (folders d)))) d b i"

lemma chain_0 [simp]: "chain n d b 0 = Some []"
  by (subst chain.simps) simp

lemma chain_step: "c \<noteq> 0 \<Longrightarrow> the_folder b c d = Some f \<Longrightarrow> chain n d b (fld_ParentID f) = Some fs \<Longrightarrow>
    chain (Suc n) d b c = Some (f # fs)"
  by (subst chain.simps) simp

lemma the_folder_edge: "the_folder b c d = Some f \<Longrightarrow> (c, fld_ParentID f) \<in> parent_rel d \<and> c \<in> folder_ids d"
  by (drule the_folder_row) (auto simp: parent_rel_def folder_ids_def image_iff)

lemma folder_ids_shrink:
  "c \<in> folder_ids d \<Longrightarrow> c \<notin> V \<Longrightarrow> card (folder_ids d - insert c V) < card (folder_ids d - V)"
  using folder_ids_card[of d] by (intro psubset_card_mono) auto

section \<open>A small installation\<close>

text \<open>
  An administrator (1), a member of group 1 (2) and a user of no group (3); one bucket with the folder
  docs, visible to group 1, a folder in it, and a file of two bytes in that.
\<close>

definition sample_user :: "nat \<Rightarrow> int \<Rightarrow> int \<Rightarrow> User" where
  "sample_user i lvl used = \<lparr>usr_ID = i, usr_CreatedAt = 0, usr_DeletedAt = None, usr_Username = ''u'',
     usr_Password = ''p'', usr_Name = [], usr_Remarks = [], usr_Email = [], usr_PermissionLevel = lvl,
     usr_LastLogin = None, usr_Status = 1, usr_NtHash = [], usr_Quota = Some 50, usr_UsedSpace = used\<rparr>"

definition sample_bucket :: Bucket where
  "sample_bucket = \<lparr>bkt_ID = 1, bkt_CreatedAt = 0, bkt_DeletedAt = None, bkt_Name = ''team'', bkt_Description = [],
     bkt_PermissionLevel = NormalUser, bkt_ManagePermissionLevel = Admin, bkt_OwnerID = 2, bkt_Quota = 100,
     bkt_UsedSpace = 2, bkt_Status = 1\<rparr>"

definition sample_folder :: "nat \<Rightarrow> nat \<Rightarrow> string \<Rightarrow> string \<Rightarrow> Folder" where
  "sample_folder i p nm vis = \<lparr>fld_ID = i, fld_CreatedAt = 0, fld_DeletedAt = None, fld_Isable = FolderUsable,
     fld_BucketID = 1, fld_ParentID = p, fld_Name = nm, fld_NameLower = ToLower nm, fld_UploadedBy = 2,
     fld_VisibleToGroups = vis\<rparr>"

definition sample_file :: File where
  "sample_file = \<lparr>fil_ID = 1, fil_CreatedAt = 0, fil_DeletedAt = None, fil_BucketID = 1, fil_FolderID = 2,
     fil_Name = ''a.txt'', fil_NameLower = ''a.txt'', fil_FileSize = 2, fil_FileType = [], fil_MD5 = [],
     fil_UploadedBy = 2, fil_VisibleToGroups = []\<rparr>"

definition sample_db :: db where
  "sample_db = empty_db
     \<lparr>users := \<lparr>rows = [sample_user 1 Admin 0, sample_user 2 NormalUser 2, sample_user 3 NormalUser 0], seq = 4\<rparr>,
      buckets := \<lparr>rows = [sample_bucket], seq = 2\<rparr>,
      folders := \<lparr>rows = [sample_folder 1 0 ''docs'' ''[1]'', sample_folder 2 1 ''in'' []], seq = 3\<rparr>,
      files := \<lparr>rows = [sample_file], seq = 2\<rparr>,
      groups := \<lparr>rows = [\<lparr>grp_ID = 1, grp_CreatedAt = 0, grp_DeletedAt = None, grp_Name = ''g'', grp_Description = [],
                         grp_CreatedBy = 1, grp_Status = 1\<rparr>], seq = 2\<rparr>,
      members := \<lparr>rows = [\<lparr>mem_ID = 1, mem_CreatedAt = 0, mem_DeletedAt = None, mem_GroupID = 1, mem_UserID = 2\<rparr>], seq = 2\<rparr>\<rparr>"

definition sample :: world where
  "sample = calm_world sample_db (\<lambda>_. None)"

lemma sample_sel [simp]: "wdb sample = sample_db" "disk sample = (\<lambda>_. None)" "clock sample = 0" "tick sample = 0"
  "fault sample = (\<lambda>_. False)"
  by (simp_all add: sample_def)

lemma sample_tables [simp]:
  "users sample_db = \<lparr>rows = [sample_user 1 Admin 0, sample_user 2 NormalUser 2, sample_user 3 NormalUser 0], seq = 4\<rparr>"
  "buckets sample_db = \<lparr>rows = [sample_bucket], seq = 2\<rparr>"
  "folders sample_db = \<lparr>rows = [sample_folder 1 0 ''docs'' ''[1]'', sample_folder 2 1 ''in'' []], seq = 3\<rparr>"
  "files sample_db = \<lparr>rows = [sample_file], seq = 2\<rparr>"
  "groups sample_db = \<lparr>rows = [\<lparr>grp_ID = 1, grp_CreatedAt = 0, grp_DeletedAt = None, grp_Name = ''g'', grp_Description = [],
     grp_CreatedBy = 1, grp_Status = 1\<rparr>], seq = 2\<rparr>"
  "members sample_db = \<lparr>rows = [\<lparr>mem_ID = 1, mem_CreatedAt = 0, mem_DeletedAt = None, mem_GroupID = 1, mem_UserID = 2\<rparr>], seq = 2\<rparr>"
  "shares sample_db = empty_tbl" "deleteTasks sample_db = empty_tbl" "copyTasks sample_db = empty_tbl"
  by (simp_all add: sample_db_def empty_db_def)

lemmas sample_rows = sample_user_def sample_bucket_def sample_folder_def sample_file_def live_defs tbl_defs empty_tbl_def

lemma sample_acyclic: "acyclic (parent_rel sample_db)"
proof -
  have "parent_rel sample_db = {(1, 0), (2, 1)}"
    by (auto simp: parent_rel_def sample_db_def sample_folder_def)
  moreover have "acyclic (less_than\<inverse>)"
    by (simp add: acyclic_converse wf_acyclic wf_less_than)
  moreover have "{(1 :: nat, 0), (2, 1)} \<subseteq> less_than\<inverse>" by auto
  ultimately show ?thesis by (metis acyclic_subset)
qed

section \<open>Properties\<close>

text \<open>Automatic renaming returns the name itself or one of its numbered forms, and no live file or
  folder of the directory has that name in any case; it changes nothing.\<close>

lemma uniqueName_fresh:
  assumes "uniqueName b f nm w = (Ok r, w')"
  shows "\<not> name_taken b f r (wdb w) \<and> candidate nm r \<and> wdb w' = wdb w"
  using valid_OkD[OF valid_uniqueName[where J = "\<lambda>d. d = wdb w"] _ assms] by (auto simp: onDB_def)

lemma uniqueName_fresh_witness:
  "\<not> name_taken 1 2 ''A (1).TXT'' sample_db"
proof -
  have "fst (uniqueName 1 2 ''A.TXT'' sample) = Ok ''A (1).TXT''" by code_simp
  then obtain w' where "uniqueName 1 2 ''A.TXT'' sample = (Ok ''A (1).TXT'', w')" by (metis prod.collapse)
  from uniqueName_fresh[OF this] show ?thesis by (simp add: sample_def calm_world_def)
qed

text \<open>The usability check along the ancestors has no cycle guard; on a folder table without
  cycles it ends.\<close>

lemma checkAncestorsUsable_ends:
  assumes "acyclic (parent_rel (wdb w))"
  shows "fst (checkAncestorsUsable b f w) \<noteq> Hang"
  using ends_checkAncestorsUsable[of b f] assms by (simp add: ends_def onDB_def)

lemma checkAncestorsUsable_ends_witness:
  "fst (checkAncestorsUsable 1 2 sample) \<noteq> Hang"
  by (rule checkAncestorsUsable_ends) (simp add: sample_acyclic sample_def calm_world_def)

end
