(* ===== verification/Paths.thy ===== *)
theory Paths
  imports FileBase
begin

text \<open>
  From a directory path to a folder row (common/path.go): ResolveDirPath creates the missing
  segments, ResolveDirPathStrict only looks them up.
\<close>

section \<open>Operations\<close>

definition MaxDirPathLen :: nat where
  "MaxDirPathLen = 512"

definition new_folder :: "nat \<Rightarrow> nat \<Rightarrow> nat \<Rightarrow> string \<Rightarrow> time \<Rightarrow> nat \<Rightarrow> Folder" where
  "new_folder userID bucketID parentID name now i =
     \<lparr>fld_ID = i, fld_CreatedAt = now, fld_DeletedAt = None, fld_Isable = FolderUsable,
      fld_BucketID = bucketID, fld_ParentID = parentID, fld_Name = name,
      fld_NameLower = ToLower name, fld_UploadedBy = userID, fld_VisibleToGroups = []\<rparr>"

definition child_named :: "nat \<Rightarrow> nat \<Rightarrow> string \<Rightarrow> db \<Rightarrow> Folder option" where
  "child_named bucketID parentID name d =
     tfirst (folder_named bucketID parentID (ToLower name)) (folders d)"

fun resolve_segs :: "nat \<Rightarrow> nat \<Rightarrow> nat \<Rightarrow> string list \<Rightarrow> nat W" where
  "resolve_segs userID bucketID parentID [] = returnM parentID"
| "resolve_segs userID bucketID parentID (seg # segs) =
     (if seg = [] then resolve_segs userID bucketID parentID segs
      else
        bindM (liftM (ValidateItemName seg)) (\<lambda>_.
        bindM (queryDB (child_named bucketID parentID seg)) (\<lambda>r.
        case r of
          Some f \<Rightarrow>
            if fld_Isable f = FolderDeleting then throwM ErrForbidden
            else resolve_segs userID bucketID (fld_ID f) segs
        | None \<Rightarrow>
            bindM (getsM clock) (\<lambda>now.
            bindM (createFolder (new_folder userID bucketID parentID seg now)) (\<lambda>c.
            case c of
              None \<Rightarrow> throwM ErrConflict
            | Some f \<Rightarrow> resolve_segs userID bucketID (fld_ID f) segs)))))"

definition ResolveDirPath :: "nat \<Rightarrow> nat \<Rightarrow> string \<Rightarrow> nat W" where
  "ResolveDirPath userID bucketID dirPath =
     (if RuneCountInString dirPath > MaxDirPathLen then throwM ErrInvalidInput
      else
        let chain = split_on (CHR ''/'') dirPath in
        if length chain > maxDirPathLen then throwM ErrInternal
        else resolve_segs userID bucketID 0 chain)"

fun resolve_strict :: "nat \<Rightarrow> nat \<Rightarrow> string list \<Rightarrow> nat W" where
  "resolve_strict bucketID parentID [] = returnM parentID"
| "resolve_strict bucketID parentID (seg # segs) =
     (if seg = [] then resolve_strict bucketID parentID segs
      else
        bindM (liftM (ValidateItemName seg)) (\<lambda>_.
        bindM (queryDB (child_named bucketID parentID seg)) (\<lambda>r.
        case r of
          None \<Rightarrow> throwM ErrNotFound
        | Some f \<Rightarrow> resolve_strict bucketID (fld_ID f) segs)))"

definition ResolveDirPathStrict :: "nat \<Rightarrow> string \<Rightarrow> nat W" where
  "ResolveDirPathStrict bucketID dirPath =
     (if RuneCountInString dirPath > MaxDirPathLen then throwM ErrInvalidInput
      else
        let chain = split_on (CHR ''/'') dirPath in
        if length chain > maxDirPathLen then throwM ErrInternal
        else resolve_strict bucketID 0 chain)"

section \<open>Specification\<close>

text \<open>
  The path a folder denotes: denotes d b p ss i holds when the live folders of bucket
  b lead from p through the names ss (case ignored) to the folder i.
\<close>

fun denotes :: "db \<Rightarrow> nat \<Rightarrow> nat \<Rightarrow> string list \<Rightarrow> nat \<Rightarrow> bool" where
  "denotes d b p [] i \<longleftrightarrow> i = p"
| "denotes d b p (s # ss) i \<longleftrightarrow>
     (case child_named b p s d of None \<Rightarrow> False | Some f \<Rightarrow> denotes d b (fld_ID f) ss i)"

definition path_segs :: "string \<Rightarrow> string list" where
  "path_segs p = filter (\<lambda>s. s \<noteq> []) (split_on (CHR ''/'') p)"

section \<open>Lemmas\<close>

lemma pres_resolve_strict: "preserves (onDB J) (resolve_strict b p ss)"
  by (induction ss arbitrary: p) (auto intro!: pres)

lemma pres_ResolveDirPathStrict [pres]: "preserves (onDB J) (ResolveDirPathStrict b p)"
  unfolding ResolveDirPathStrict_def Let_def by (intro pres pres_resolve_strict)

lemma valid_resolve_strict:
  "valid (onDB J) (resolve_strict b p ss)
     (\<lambda>i. onDB (\<lambda>d. J d \<and> denotes d b p (filter (\<lambda>s. s \<noteq> []) ss) i)) (\<lambda>_. onDB J)"
proof (induction ss arbitrary: p J)
  case Nil
  show ?case by (simp, intro dbrules) auto
next
  case (Cons s ss)
  show ?case
  proof (cases "s = []")
    case True
    with Cons show ?thesis by simp
  next
    case False
    have rec: "valid (onDB (\<lambda>d. J d \<and> child_named b p s d = Some f)) (resolve_strict b (fld_ID f) ss)
        (\<lambda>i. onDB (\<lambda>d. J d \<and> (case child_named b p s d of None \<Rightarrow> False
           | Some f \<Rightarrow> denotes d b (fld_ID f) (filter (\<lambda>s. s \<noteq> []) ss) i))) (\<lambda>_. onDB J)" for f
      by (rule valid_onDB[OF Cons.IH[where J = "\<lambda>d. J d \<and> child_named b p s d = Some f"]])
        auto
    show ?thesis
      using False
      by (simp add: liftM_def split: sum.splits)
        (intro conjI allI impI db_query dbrules, auto intro: rec simp: onDB_def)
  qed
qed


section \<open>The directory tree\<close>

text \<open>
  What every operation keeps of the folder table: keys are given out once, in order; parents point
  to keys given out before; the parent pointers have no cycle.
\<close>

definition tree_inv :: "db \<Rightarrow> bool" where
  "tree_inv d \<longleftrightarrow> 0 < seq (folders d) \<and> distinct (map fld_ID (rows (folders d))) \<and>
     (\<forall>r\<in>set (rows (folders d)). 0 < fld_ID r \<and> fld_ID r < seq (folders d) \<and>
        fld_ParentID r < seq (folders d)) \<and>
     acyclic (parent_rel d)"

lemma parent_rel_create:
  "parent_rel (d\<lparr>folders := tcreate mk (folders d)\<rparr>) =
   insert (fld_ID (mk (seq (folders d))), fld_ParentID (mk (seq (folders d)))) (parent_rel d)"
  by (auto simp: parent_rel_def tcreate_def)

lemma tree_inv_range: "tree_inv d \<Longrightarrow> (a, b) \<in> (parent_rel d)\<^sup>* \<Longrightarrow> b = seq (folders d) \<Longrightarrow> a = b"
  by (erule rtranclE) (auto simp: tree_inv_def parent_rel_def)

lemma tree_inv_create:
  assumes "tree_inv d" "p < seq (folders d)" "\<And>i. fld_ID (mk i) = i" "\<And>i. fld_ParentID (mk i) = p"
  shows "tree_inv (d\<lparr>folders := tcreate mk (folders d)\<rparr>)"
proof -
  have "(p, seq (folders d)) \<notin> (parent_rel d)\<^sup>*"
    using tree_inv_range[OF assms(1)] assms(2) by blast
  then have "acyclic (parent_rel (d\<lparr>folders := tcreate mk (folders d)\<rparr>))"
    using assms by (simp add: parent_rel_create acyclic_insert tree_inv_def)
  with assms show ?thesis
    by (auto simp: tree_inv_def tcreate_def less_Suc_eq)
qed

lemma tree_inv_folder: "tree_inv d \<Longrightarrow> f \<in> set (rows (folders d)) \<Longrightarrow> fld_ID f < seq (folders d)"
  by (simp add: tree_inv_def)

lemma child_named_row: "child_named b p s d = Some f \<Longrightarrow> f \<in> set (rows (folders d)) \<and>
    folder_named b p (ToLower s) f"
  by (auto simp: child_named_def dest: tfirst_Some)

lemma new_folder_sel [simp]:
  "fld_ID (new_folder u b p s now i) = i" "fld_ParentID (new_folder u b p s now i) = p"
  "fld_BucketID (new_folder u b p s now i) = b" "fld_Isable (new_folder u b p s now i) = FolderUsable"
  "fld_NameLower (new_folder u b p s now i) = ToLower s" "live_fld (new_folder u b p s now i)"
  by (simp_all add: new_folder_def live_fld_def)

text \<open>
  What the code that creates folders relies on: an invariant of the database under which folder keys
  stay below the next one, and which a new folder under an existing parent keeps.
\<close>

definition fresh_folder :: "(nat \<Rightarrow> Folder) \<Rightarrow> nat \<Rightarrow> bool" where
  "fresh_folder mk p \<longleftrightarrow> (\<forall>i. fld_ID (mk i) = i \<and> fld_ParentID (mk i) = p)"

lemma fresh_new_folder [simp]: "fresh_folder (new_folder u b p s now) p"
  by (simp add: fresh_folder_def)

locale folder_growth =
  fixes J :: "db \<Rightarrow> bool"
  assumes below: "J d \<Longrightarrow> f \<in> set (rows (folders d)) \<Longrightarrow> fld_ID f < seq (folders d)"
    and seq_pos: "J d \<Longrightarrow> 0 < seq (folders d)"
    and grow: "J d \<Longrightarrow> p < seq (folders d) \<Longrightarrow> fresh_folder mk p \<Longrightarrow>
      unique_live live_fld folder_key (tcreate mk (folders d)) \<Longrightarrow> J (d\<lparr>folders := tcreate mk (folders d)\<rparr>)"
begin

lemma valid_createFolder:
  assumes "fresh_folder mk p"
  shows "valid (onDB (\<lambda>d. J d \<and> p < seq (folders d))) (createFolder mk)
     (\<lambda>r. onDB (\<lambda>d. J d \<and> p < seq (folders d) \<and> (\<forall>f. r = Some f \<longrightarrow> fld_ID f < seq (folders d))))
     (\<lambda>_. onDB (\<lambda>d. J d \<and> p < seq (folders d)))"
  unfolding createFolder_def
  by (rule valid_weaken[OF valid_tryExec[where J = "\<lambda>d. J d \<and> p < seq (folders d)"
        and K = "\<lambda>f d. J d \<and> p < seq (folders d) \<and> fld_ID f < seq (folders d)"]])
    (use assms in \<open>auto simp: onDB_def Let_def fresh_folder_def tcreate_def split: if_splits option.splits
      intro: grow[OF _ _ assms, unfolded tcreate_def]\<close>)

lemma valid_createFolder_J:
  assumes "fresh_folder mk p"
  shows "valid (onDB (\<lambda>d. J d \<and> p < seq (folders d))) (createFolder mk)
     (\<lambda>r. onDB (\<lambda>d. J d \<and> (\<forall>f. r = Some f \<longrightarrow> fld_ID f < seq (folders d)))) (\<lambda>_. onDB J)"
  by (rule valid_onDB[OF valid_createFolder[OF assms]]) auto

lemma valid_resolve_segs:
  "valid (onDB (\<lambda>d. J d \<and> p < seq (folders d))) (resolve_segs u b p ss)
     (\<lambda>i. onDB (\<lambda>d. J d \<and> i < seq (folders d))) (\<lambda>_. onDB J)"
proof (induction ss arbitrary: p)
  case Nil
  show ?case by (simp, intro dbrules) auto
next
  case (Cons s ss)
  let ?J = "\<lambda>d. J d \<and> p < seq (folders d)"
  have found: "valid (onDB (\<lambda>d. ?J d \<and> child_named b p s d = Some f)) (resolve_segs u b (fld_ID f) ss)
     (\<lambda>i. onDB (\<lambda>d. J d \<and> i < seq (folders d))) (\<lambda>_. onDB J)" for f
    by (rule valid_onDB_pre[OF Cons.IH]) (metis child_named_row below)
  have made: "valid (onDB ?J) (bindM (createFolder (new_folder u b p s now)) (\<lambda>c.
      case c of None \<Rightarrow> throwM ErrConflict | Some f \<Rightarrow> resolve_segs u b (fld_ID f) ss))
     (\<lambda>i. onDB (\<lambda>d. J d \<and> i < seq (folders d))) (\<lambda>_. onDB J)" for now
    by (rule db_call[OF valid_createFolder_J[OF fresh_new_folder]], intro dbrules valid_onDB_pre[OF Cons.IH]) auto
  show ?case
  proof (cases "s = []")
    case False
    then show ?thesis
      by (simp add: liftM_def split: sum.splits)
        (intro conjI allI impI db_query dbrules db_keep[OF pres_gets],
          auto intro: valid_onDB_pre[OF found] valid_onDB_pre[OF made])
  qed (use Cons in simp)
qed

lemma valid_ResolveDirPath:
  "valid (onDB J) (ResolveDirPath u b p) (\<lambda>i. onDB (\<lambda>d. J d \<and> i < seq (folders d))) (\<lambda>_. onDB J)"
  unfolding ResolveDirPath_def Let_def
  by (intro dbrules valid_onDB_pre[OF valid_resolve_segs]) (auto simp: seq_pos)

lemma pres_ResolveDirPath: "preserves (onDB J) (ResolveDirPath u b p)"
  by (rule valid_weaken[OF valid_ResolveDirPath]) (auto simp: onDB_def)

end

interpretation tree: folder_growth tree_inv
proof
  fix d f
  show "tree_inv d \<Longrightarrow> f \<in> set (rows (folders d)) \<Longrightarrow> fld_ID f < seq (folders d)" by (rule tree_inv_folder)
  show "tree_inv d \<Longrightarrow> 0 < seq (folders d)" by (simp add: tree_inv_def)
  fix p mk
  show "tree_inv d \<Longrightarrow> p < seq (folders d) \<Longrightarrow> fresh_folder mk p \<Longrightarrow> tree_inv (d\<lparr>folders := tcreate mk (folders d)\<rparr>)"
    by (simp add: fresh_folder_def tree_inv_create)
qed

lemma total_resolve_segs: "total (resolve_segs u b p ss)"
  by (induction ss arbitrary: p) (auto intro!: ends_rules)

lemma total_ResolveDirPath [ends_rules]: "total (ResolveDirPath u b p)"
  unfolding ResolveDirPath_def by (intro ends_rules total_resolve_segs)

section \<open>What ResolveDirPath returns\<close>

text \<open>The folder table only grows at its end, so what was found stays found.\<close>

definition folders_ext :: "db \<Rightarrow> db \<Rightarrow> bool" where
  "folders_ext d e \<longleftrightarrow> prefix (rows (folders d)) (rows (folders e)) \<and> e\<lparr>folders := folders d\<rparr> = d"

lemma folders_ext_refl [simp]: "folders_ext d d"
  by (simp add: folders_ext_def)

lemma folders_ext_trans: "folders_ext d e \<Longrightarrow> folders_ext e f \<Longrightarrow> folders_ext d f"
  unfolding folders_ext_def by (cases d; cases e; cases f) (auto intro: prefix_order.trans)

lemma folders_ext_create:
  "folders_ext d (d\<lparr>folders := tcreate mk (folders d)\<rparr>)"
  by (cases d) (simp add: folders_ext_def tcreate_def)

lemma child_named_ext:
  "child_named b p s d = Some f \<Longrightarrow> folders_ext d e \<Longrightarrow> child_named b p s e = Some f"
  by (auto simp: folders_ext_def child_named_def tfirst_def prefix_def find_append
      split: option.splits)

lemma createFolder_OkD:
  assumes "createFolder mk w = (Ok (Some f), w')"
  shows "wdb w' = (wdb w)\<lparr>folders := tcreate mk (folders (wdb w))\<rparr> \<and>
    f = mk (seq (folders (wdb w))) \<and> disk w' = disk w"
  using tryExecDB_OkD[OF assms[unfolded createFolder_def]]
  by (auto simp: Let_def split: if_splits option.splits)

lemma child_named_created:
  assumes "child_named b p s d = None"
  shows "child_named b p s (d\<lparr>folders := tcreate (new_folder u b p s now) (folders d)\<rparr>) =
         Some (new_folder u b p s now (seq (folders d)))"
  using assms
  by (simp add: child_named_def tfirst_def tcreate_def find_append folder_named_def)

lemma resolve_segs_Ok:
  "resolve_segs u b p ss w = (Ok i, w') \<Longrightarrow>
   folders_ext (wdb w) (wdb w') \<and> disk w' = disk w \<and>
   denotes (wdb w') b p (filter (\<lambda>s. s \<noteq> []) ss) i"
proof (induction ss arbitrary: p w)
  case Nil
  then show ?case by (simp add: returnM_def)
next
  case (Cons s ss)
  show ?case
  proof (cases "s = []")
    case True
    with Cons show ?thesis by simp
  next
    case False
    with Cons.prems obtain r w2 where q: "queryDB (child_named b p s) w = (Ok r, w2)"
      and rest: "(case r of
          Some f \<Rightarrow> if fld_Isable f = FolderDeleting then throwM ErrForbidden
            else resolve_segs u b (fld_ID f) ss
        | None \<Rightarrow> bindM (getsM clock) (\<lambda>now.
            bindM (createFolder (new_folder u b p s now)) (\<lambda>c.
            case c of None \<Rightarrow> throwM ErrConflict | Some f \<Rightarrow> resolve_segs u b (fld_ID f) ss))) w2 =
        (Ok i, w')"
      by (auto elim!: bindM_OkE dest!: liftM_OkD)
    note q' = queryDB_OkD[OF q]
    show ?thesis
    proof (cases r)
      case (Some f)
      with rest have "resolve_segs u b (fld_ID f) ss w2 = (Ok i, w')"
        by (auto simp: throwM_def split: if_splits)
      note ih = Cons.IH[OF this]
      have "child_named b p s (wdb w) = Some f" using q' Some by simp
      moreover have "folders_ext (wdb w) (wdb w')" using ih q' by simp
      ultimately have "child_named b p s (wdb w') = Some f" by (rule child_named_ext)
      with ih q' False show ?thesis by simp
    next
      case None
      with rest obtain now f w3 where c: "createFolder (new_folder u b p s now) w2 = (Ok (Some f), w3)"
        and r: "resolve_segs u b (fld_ID f) ss w3 = (Ok i, w')"
        by (auto simp: throwM_def elim!: bindM_OkE dest!: gets_OkD split: option.splits)
      have c3: "wdb w3 = (wdb w)\<lparr>folders := tcreate (new_folder u b p s now) (folders (wdb w))\<rparr>"
          "child_named b p s (wdb w3) = Some f"
        using createFolder_OkD[OF c] child_named_created q' None by auto
      have "folders_ext (wdb w) (wdb w3)" by (simp add: c3(1) folders_ext_create)
      with Cons.IH[OF r] c3(2) False createFolder_OkD[OF c] q' show ?thesis
        using child_named_ext[OF c3(2)] folders_ext_trans by auto
    qed
  qed
qed

lemma ResolveDirPath_Ok:
  "ResolveDirPath u b p w = (Ok i, w') \<Longrightarrow>
   folders_ext (wdb w) (wdb w') \<and> disk w' = disk w \<and> denotes (wdb w') b 0 (path_segs p) i"
  unfolding ResolveDirPath_def Let_def path_segs_def
  by (auto simp: throwM_def split: if_splits dest: resolve_segs_Ok)

section \<open>Properties\<close>

text \<open>C21: a resolved path is one the folder table leads along afterwards; the resolution only appends
  rows to the folder table and touches nothing else.\<close>

theorem ResolveDirPath_denotes:
  assumes "ResolveDirPath u b p w = (Ok i, w')"
  shows "denotes (wdb w') b 0 (path_segs p) i \<and> folders_ext (wdb w) (wdb w') \<and> disk w' = disk w"
  using ResolveDirPath_Ok[OF assms] by simp

theorem ResolveDirPath_denotes_witness:
  "\<exists>w'. ResolveDirPath 2 1 ''Docs/new'' sample = (Ok 3, w') \<and> denotes (wdb w') 1 0 [''Docs'', ''new''] 3"
proof -
  have "fst (ResolveDirPath 2 1 ''Docs/new'' sample) = Ok 3" by code_simp
  then obtain w' where r: "ResolveDirPath 2 1 ''Docs/new'' sample = (Ok 3, w')" by (metis prod.collapse)
  have "path_segs ''Docs/new'' = [''Docs'', ''new'']" by code_simp
  with ResolveDirPath_denotes[OF r] r show ?thesis by auto
qed

text \<open>Creating the missing folders of a path keeps the directory tree: fresh keys, parents that
  exist, no cycle; whether the resolution succeeds or fails midway.\<close>

lemma ResolveDirPath_tree:
  assumes "tree_inv (wdb w)"
  shows "tree_inv (wdb (snd (ResolveDirPath u b p w))) \<and> fst (ResolveDirPath u b p w) \<noteq> Hang"
proof -
  from pres_result[OF tree.pres_ResolveDirPath total_ResolveDirPath] total_ResolveDirPath[of u b p] assms
  show ?thesis by (simp add: onDB_def ends_def)
qed

lemma ResolveDirPath_tree_witness:
  "tree_inv (wdb (snd (ResolveDirPath 2 1 ''Docs/new/x'' sample)))"
  by (rule ResolveDirPath_tree[THEN conjunct1])
    (simp add: tree_inv_def sample_acyclic sample_def calm_world_def, simp add: sample_db_def sample_folder_def empty_db_def)

end
