(* ===== verification/Quota.thy ===== *)
theory Quota
  imports FileBase
begin

text \<open>
  Quota review before a write, and the accounting of used space (server/quota.go).  Sizes are Go
  int64 values: the addition of the review wraps around, the SQL arithmetic of the accounting is
  exact.
\<close>

section \<open>Operations\<close>

definition wrap64 :: "int \<Rightarrow> int" where
  "wrap64 x = (x + 2 ^ 63) mod 2 ^ 64 - 2 ^ 63"

definition orRecordNotFound :: "'a option \<Rightarrow> 'a W" where
  "orRecordNotFound r = (case r of None \<Rightarrow> throwM ErrRecordNotFound | Some x \<Rightarrow> returnM x)"

definition the_bucket :: "nat \<Rightarrow> db \<Rightarrow> Bucket option" where
  "the_bucket i d = tfirst (\<lambda>r. live_bkt r \<and> bkt_ID r = i) (buckets d)"

definition the_user :: "nat \<Rightarrow> db \<Rightarrow> User option" where
  "the_user i d = tfirst (\<lambda>r. live_usr r \<and> usr_ID r = i) (users d)"

definition CheckBucketQuota :: "nat \<Rightarrow> int \<Rightarrow> unit W" where
  "CheckBucketQuota bucketID delta =
     (if delta \<le> 0 then returnM ()
      else
        bindM (queryDB (the_bucket bucketID)) (\<lambda>r.
        bindM (orRecordNotFound r) (\<lambda>b.
        if bkt_Quota b \<le> 0 then returnM ()
        else if wrap64 (bkt_UsedSpace b + delta) > bkt_Quota b then throwM ErrQuotaExceeded
        else returnM ())))"

definition CheckUserQuota :: "nat \<Rightarrow> unit W" where
  "CheckUserQuota userID =
     bindM (queryDB (the_user userID)) (\<lambda>r.
     bindM (orRecordNotFound r) (\<lambda>u.
     case usr_Quota u of
       None \<Rightarrow> returnM ()
     | Some q \<Rightarrow>
         if q = 0 then throwM ErrQuotaExceeded
         else if usr_UsedSpace u > q then throwM ErrQuotaExceeded
         else returnM ()))"

definition add_user_used :: "nat \<Rightarrow> int \<Rightarrow> db \<Rightarrow> db" where
  "add_user_used userID n d = d\<lparr>users := tupdate (\<lambda>r. live_usr r \<and> usr_ID r = userID)
     (\<lambda>r. r\<lparr>usr_UsedSpace := usr_UsedSpace r + n\<rparr>) (users d)\<rparr>"

definition addUserUsedSpace :: "nat \<Rightarrow> int \<Rightarrow> unit W" where
  "addUserUsedSpace userID n = (if n \<le> 0 then returnM () else execDB (add_user_used userID n))"

definition return_user_used :: "nat \<Rightarrow> int \<Rightarrow> db \<Rightarrow> db" where
  "return_user_used userID n d = d\<lparr>users := tupdate (\<lambda>r. live_usr r \<and> usr_ID r = userID)
     (\<lambda>r. r\<lparr>usr_UsedSpace := (if usr_UsedSpace r - n < 0 then 0 else usr_UsedSpace r - n)\<rparr>) (users d)\<rparr>"

definition returnUserUsedSpace :: "nat \<Rightarrow> int \<Rightarrow> unit W" where
  "returnUserUsedSpace userID n = (if n \<le> 0 then returnM () else execDB (return_user_used userID n))"

text \<open>used_space = used_space + n of the callers (file_upload.go, file_copy_move.go).\<close>

definition add_bucket_used :: "nat \<Rightarrow> int \<Rightarrow> db \<Rightarrow> db" where
  "add_bucket_used bucketID n d = d\<lparr>buckets := tupdate (\<lambda>r. live_bkt r \<and> bkt_ID r = bucketID)
     (\<lambda>r. r\<lparr>bkt_UsedSpace := bkt_UsedSpace r + n\<rparr>) (buckets d)\<rparr>"

definition set_bucket_used :: "nat \<Rightarrow> int \<Rightarrow> db \<Rightarrow> db" where
  "set_bucket_used bucketID n d = d\<lparr>buckets := tupdate (\<lambda>r. live_bkt r \<and> bkt_ID r = bucketID)
     (\<lambda>r. r\<lparr>bkt_UsedSpace := n\<rparr>) (buckets d)\<rparr>"

text \<open>What remains of a use of n bytes when m are given back (recycle_bin.go).\<close>

definition less_used :: "int \<Rightarrow> int \<Rightarrow> int" where
  "less_used n m = (if n - m < 0 then 0 else n - m)"

section \<open>Lemmas\<close>

lemma wrap64_id: "- (2 ^ 63) \<le> x \<Longrightarrow> x < 2 ^ 63 \<Longrightarrow> wrap64 x = x"
  by (simp add: wrap64_def)

lemma pres_orRecordNotFound [pres]: "preserves I (orRecordNotFound r)"
  by (simp add: orRecordNotFound_def pres)

lemma pres_CheckBucketQuota [pres]: "preserves (onDB J) (CheckBucketQuota b n)"
  unfolding CheckBucketQuota_def by (intro pres)

lemma pres_CheckUserQuota [pres]: "preserves (onDB J) (CheckUserQuota u)"
  unfolding CheckUserQuota_def by (intro pres)

lemma total_Quota [ends_rules]: "total (orRecordNotFound r)" "total (CheckBucketQuota b n)" "total (CheckUserQuota u)"
  "total (addUserUsedSpace u n)" "total (returnUserUsedSpace u n)"
  unfolding orRecordNotFound_def CheckBucketQuota_def CheckUserQuota_def addUserUsedSpace_def returnUserUsedSpace_def
  by (intro ends_rules)+

lemma add_user_used_0 [simp]: "add_user_used u 0 d = d"
proof -
  have "(\<lambda>r :: User. if live_usr r \<and> usr_ID r = u then r\<lparr>usr_UsedSpace := usr_UsedSpace r + 0\<rparr> else r) = (\<lambda>r. r)"
    by auto
  then show ?thesis by (simp add: add_user_used_def tupdate_def)
qed

text \<open>What a passed review says of the bucket and of the user.\<close>

definition bucket_admits :: "nat \<Rightarrow> int \<Rightarrow> db \<Rightarrow> bool" where
  "bucket_admits b n d \<longleftrightarrow> n \<le> 0 \<or>
     (\<exists>r. the_bucket b d = Some r \<and> (bkt_Quota r \<le> 0 \<or> wrap64 (bkt_UsedSpace r + n) \<le> bkt_Quota r))"

definition user_admits :: "nat \<Rightarrow> db \<Rightarrow> bool" where
  "user_admits u d \<longleftrightarrow>
     (\<exists>r. the_user u d = Some r \<and>
        (usr_Quota r = None \<or> (\<exists>q. usr_Quota r = Some q \<and> q \<noteq> 0 \<and> usr_UsedSpace r \<le> q)))"

lemma valid_CheckBucketQuota:
  "valid (onDB J) (CheckBucketQuota b n) (\<lambda>_. onDB (\<lambda>d. J d \<and> bucket_admits b n d)) (\<lambda>_. onDB J)"
  unfolding CheckBucketQuota_def orRecordNotFound_def
  by (intro db_query dbrules) (auto simp: bucket_admits_def intro!: dbrules split: option.splits)

lemma valid_CheckUserQuota:
  "valid (onDB J) (CheckUserQuota u) (\<lambda>_. onDB (\<lambda>d. J d \<and> user_admits u d)) (\<lambda>_. onDB J)"
  unfolding CheckUserQuota_def orRecordNotFound_def
  by (intro db_query dbrules) (auto simp: user_admits_def intro!: dbrules split: option.splits)

section \<open>Properties\<close>

text \<open>The bucket review admits a growth exactly when the bucket has no quota or the sum stays
  within it, as long as the sum is representable; a missing bucket is an error.\<close>

lemma CheckBucketQuota_sound:
  assumes "CheckBucketQuota b n w = (Ok x, w')" "0 < n" "\<And>r. the_bucket b (wdb w) = Some r \<Longrightarrow>
     0 \<le> bkt_UsedSpace r \<and> bkt_UsedSpace r + n < 2 ^ 63"
  shows "wdb w' = wdb w \<and> (\<exists>r. the_bucket b (wdb w) = Some r \<and>
     (0 < bkt_Quota r \<longrightarrow> bkt_UsedSpace r + n \<le> bkt_Quota r))"
proof -
  have "bucket_admits b n (wdb w) \<and> wdb w' = wdb w"
    using valid_OkD[OF valid_CheckBucketQuota[where J = "\<lambda>d. d = wdb w"] _ assms(1)]
    by (auto simp: onDB_def)
  then show ?thesis
    using assms(2,3) by (fastforce simp: bucket_admits_def wrap64_id)
qed

lemma CheckBucketQuota_sound_witness:
  "\<exists>w'. CheckBucketQuota 1 90 sample = (Ok (), w') \<and> wdb w' = sample_db"
proof -
  have "fst (CheckBucketQuota 1 90 sample) = Ok ()" by code_simp
  then obtain w' where r: "CheckBucketQuota 1 90 sample = (Ok (), w')" by (metis prod.collapse)
  have "the_bucket 1 (wdb sample) = Some sample_bucket" by code_simp
  with CheckBucketQuota_sound[OF r] r show ?thesis
    by (auto simp: sample_bucket_def sample_def calm_world_def)
qed

text \<open>The sum is a machine integer, so an absurd growth passes the review of a limited bucket.\<close>

lemma CheckBucketQuota_wraps:
  "fst (CheckBucketQuota 1 (2 ^ 63 - 1) sample) = Ok ()"
  by code_simp

text \<open>The user review has three states: unlimited, read-only, and a soft limit that the last
  admitted write may exceed.\<close>

lemma CheckUserQuota_sound:
  assumes "CheckUserQuota u w = (Ok x, w')"
  shows "wdb w' = wdb w \<and> (\<exists>r. the_user u (wdb w) = Some r \<and>
     (usr_Quota r = None \<or> (\<exists>q. usr_Quota r = Some q \<and> q \<noteq> 0 \<and> usr_UsedSpace r \<le> q)))"
  using valid_OkD[OF valid_CheckUserQuota[where J = "\<lambda>d. d = wdb w"] _ assms]
  by (auto simp: onDB_def user_admits_def)

lemma CheckUserQuota_sound_witness:
  "the_user 2 sample_db \<noteq> None"
proof -
  have "fst (CheckUserQuota 2 sample) = Ok ()" by code_simp
  then obtain w' where "CheckUserQuota 2 sample = (Ok (), w')" by (metis prod.collapse)
  from CheckUserQuota_sound[OF this] show ?thesis by (auto simp: sample_def calm_world_def)
qed

end
