(* ===== verification/Visibility.thy ===== *)
theory Visibility
  imports Quota Paths
begin

text \<open>
  Item visibility by user groups (server/visibility.go): the JSON column VisibleToGroups, the rule
  that decides access, the walks along the ancestors, and setting the groups of an item.
\<close>

section \<open>The JSON column\<close>

text \<open>
  encoding/json on a slice of uint.  Inside the brackets of a valid value commas only separate, so
  the elements are the pieces between them; an element is a plain decimal literal or null.
\<close>

definition json_ws :: "char \<Rightarrow> bool" where
  "json_ws c \<longleftrightarrow> (of_char c :: nat) \<in> {32, 9, 10, 13}"

definition json_trim :: "string \<Rightarrow> string" where
  "json_trim s = rev (dropWhile json_ws (rev (dropWhile json_ws s)))"

definition max_uint64 :: nat where
  "max_uint64 = 2 ^ 64 - 1"

definition json_uint :: "string \<Rightarrow> nat option" where
  "json_uint e =
     (let t = json_trim e in
      if t = ''null'' then Some 0
      else if t = [] \<or> \<not> list_all is_digit t \<or> (hd t = CHR ''0'' \<and> length t > 1) then None
      else
        let n = foldl (\<lambda>a c. a * 10 + digit_val c) 0 t in
        if n < 2 ^ 64 then Some (nat n) else None)"

fun all_some :: "'a option list \<Rightarrow> 'a list option" where
  "all_some [] = Some []"
| "all_some (x # xs) =
     (case x of None \<Rightarrow> None | Some y \<Rightarrow> (case all_some xs of None \<Rightarrow> None | Some ys \<Rightarrow> Some (y # ys)))"

definition json_uints :: "string \<Rightarrow> nat list option" where
  "json_uints s =
     (let t = json_trim s in
      if t = ''null'' then Some []
      else if length t \<ge> 2 \<and> hd t = CHR ''['' \<and> last t = CHR '']'' then
        let inner = butlast (tl t) in
        if json_trim inner = [] then Some []
        else all_some (map json_uint (split_on (CHR '','') inner))
      else None)"

definition marshalVisibleGroups :: "nat list \<Rightarrow> string" where
  "marshalVisibleGroups ids =
     (if ids = [] then [] else ''['' @ join_with (CHR '','') (map dec ids) @ '']'')"

text \<open>Dropping zeros and repetitions, in order.\<close>

fun dedup_ids :: "nat list \<Rightarrow> nat list \<Rightarrow> nat list" where
  "dedup_ids seen [] = []"
| "dedup_ids seen (i # is) =
     (if i = 0 \<or> i \<in> set seen then dedup_ids seen is else i # dedup_ids (i # seen) is)"

definition ParseVisibleGroups :: "string \<Rightarrow> nat list res" where
  "ParseVisibleGroups s =
     (let t = TrimSpace s in
      if t = [] then Inr []
      else (case json_uints t of None \<Rightarrow> Inl ErrInternal | Some ids \<Rightarrow> Inr (dedup_ids [] ids)))"

section \<open>The rule\<close>

definition ItemVisibleRule :: "string \<Rightarrow> User option \<Rightarrow> nat list \<Rightarrow> unit res" where
  "ItemVisibleRule visibleToGroups user userGroups =
     (if TrimSpace visibleToGroups = [] then Inr ()
      else (case ParseVisibleGroups visibleToGroups of
        Inl _ \<Rightarrow> Inl ErrForbidden
      | Inr groupIDs \<Rightarrow>
          if groupIDs = [] then Inl ErrForbidden
          else (case user of
            None \<Rightarrow> Inl ErrForbidden
          | Some u \<Rightarrow>
              if IsAdmin (usr_PermissionLevel u) then Inr ()
              else if \<exists>g\<in>set userGroups. g \<in> set groupIDs then Inr ()
              else Inl ErrForbidden)))"

text \<open>
  The rule inside a walk: gcache is the cache of the user's groups, loaded once; the new
  cache is returned.
\<close>

definition checkItemAccessTree :: "User \<Rightarrow> nat list option \<Rightarrow> string \<Rightarrow> nat list option W" where
  "checkItemAccessTree user gcache visibleToGroups =
     (if TrimSpace visibleToGroups = [] then returnM gcache
      else if IsAdmin (usr_PermissionLevel user) then returnM gcache
      else
        bindM (case gcache of None \<Rightarrow> UserGroupIDs (usr_ID user) | Some gs \<Rightarrow> returnM gs) (\<lambda>gs.
        bindM (liftM (ItemVisibleRule visibleToGroups (Some user) gs)) (\<lambda>_.
        returnM (Some gs))))"

section \<open>Walks along the ancestors\<close>

text \<open>
  Both walks stop at a folder seen before; the fuel (one step per folder row and one more) is
  therefore always enough, see ends_checkAncestorsAccessTree.
\<close>

fun accessTree_loop ::
  "nat \<Rightarrow> nat \<Rightarrow> nat \<Rightarrow> nat \<Rightarrow> nat list \<Rightarrow> User option \<Rightarrow> nat list option \<Rightarrow> unit W" where
  "accessTree_loop fuel userID bucketID cur seen user gcache =
     (if cur = 0 \<or> cur \<in> set seen then returnM ()
      else (case fuel of 0 \<Rightarrow> hangM
        | Suc n \<Rightarrow>
            bindM (loadFolder bucketID cur) (\<lambda>f.
            if fld_Isable f = FolderUnusable then throwM ErrNotFound
            else
              bindM (case user of None \<Rightarrow> GetUser userID | Some u \<Rightarrow> returnM u) (\<lambda>u.
              bindM (checkItemAccessTree u gcache (fld_VisibleToGroups f)) (\<lambda>gcache'.
              accessTree_loop n userID bucketID (fld_ParentID f) (cur # seen) (Some u) gcache')))))"

declare accessTree_loop.simps [simp del]

definition checkAncestorsAccessTree :: "nat \<Rightarrow> nat \<Rightarrow> nat \<Rightarrow> unit W" where
  "checkAncestorsAccessTree userID bucketID folderID =
     bindM folderCount (\<lambda>n. accessTree_loop (Suc n) userID bucketID folderID [] None None)"

fun writable_loop :: "nat \<Rightarrow> nat \<Rightarrow> nat \<Rightarrow> nat list \<Rightarrow> unit W" where
  "writable_loop fuel bucketID cur seen =
     (if cur = 0 \<or> cur \<in> set seen then returnM ()
      else (case fuel of 0 \<Rightarrow> hangM
        | Suc n \<Rightarrow>
            bindM (loadFolder bucketID cur) (\<lambda>f.
            if fld_Isable f = FolderUnusable then throwM ErrNotFound
            else if fld_Isable f = FolderDeleting then throwM ErrForbidden
            else writable_loop n bucketID (fld_ParentID f) (cur # seen))))"

declare writable_loop.simps [simp del]

definition CheckAncestorsWritable :: "nat \<Rightarrow> nat \<Rightarrow> unit W" where
  "CheckAncestorsWritable bucketID folderID =
     bindM folderCount (\<lambda>n. writable_loop (Suc n) bucketID folderID [])"

section \<open>Setting the groups of an item\<close>

definition ItemKindFile :: string where "ItemKindFile = ''file''"
definition ItemKindFolder :: string where "ItemKindFolder = ''folder''"

definition normalizeAndCheckGroups :: "nat list \<Rightarrow> nat list W" where
  "normalizeAndCheckGroups groupIDs =
     (let ids = dedup_ids [] groupIDs in
      if ids = [] then returnM ids
      else
        bindM (queryDB (\<lambda>d. tcount (\<lambda>r. live_grp r \<and> grp_ID r \<in> set ids \<and> grp_Status r = 1)
                              (groups d))) (\<lambda>count.
        if count \<noteq> length ids then throwM ErrInvalidInput else returnM ids))"

definition set_file_vis :: "nat \<Rightarrow> nat \<Rightarrow> string \<Rightarrow> db \<Rightarrow> db" where
  "set_file_vis bucketID itemID js d = d\<lparr>files := tupdate
     (\<lambda>r. live_fil r \<and> fil_ID r = itemID \<and> fil_BucketID r = bucketID)
     (\<lambda>r. r\<lparr>fil_VisibleToGroups := js\<rparr>) (files d)\<rparr>"

definition set_folder_vis :: "nat \<Rightarrow> nat \<Rightarrow> string \<Rightarrow> db \<Rightarrow> db" where
  "set_folder_vis bucketID itemID js d = d\<lparr>folders := tupdate
     (\<lambda>r. live_fld r \<and> fld_ID r = itemID \<and> fld_BucketID r = bucketID)
     (\<lambda>r. r\<lparr>fld_VisibleToGroups := js\<rparr>) (folders d)\<rparr>"

text \<open>A user who is not an administrator may only name groups of his own.\<close>

definition check_own_groups :: "nat \<Rightarrow> nat list \<Rightarrow> unit W" where
  "check_own_groups userID ids =
     (if ids = [] then returnM ()
      else
        bindM (GetUser userID) (\<lambda>operator.
        if IsAdmin (usr_PermissionLevel operator) then returnM ()
        else
          bindM (UserGroupIDs userID) (\<lambda>mine.
          if \<exists>g\<in>set ids. g \<notin> set mine then throwM ErrForbidden else returnM ())))"

definition setItemVisibility :: "nat \<Rightarrow> nat \<Rightarrow> string \<Rightarrow> nat \<Rightarrow> nat list \<Rightarrow> unit W" where
  "setItemVisibility userID bucketID itemType itemID groupIDs =
     thenM
       (if itemType = ItemKindFile then bindM (loadFile bucketID itemID) (\<lambda>_. returnM ())
        else if itemType = ItemKindFolder then bindM (loadFolder bucketID itemID) (\<lambda>_. returnM ())
        else throwM ErrInvalidInput)
       (bindM (normalizeAndCheckGroups groupIDs) (\<lambda>ids.
        thenM (check_own_groups userID ids)
          (let js = marshalVisibleGroups ids in
           if itemType = ItemKindFile then execDB (set_file_vis bucketID itemID js)
           else if itemType = ItemKindFolder then execDB (set_folder_vis bucketID itemID js)
           else returnM ())))"

definition SetFileVisibility :: "nat \<Rightarrow> nat \<Rightarrow> nat \<Rightarrow> nat list \<Rightarrow> unit W" where
  "SetFileVisibility userID bucketID fileID groupIDs =
     setItemVisibility userID bucketID ItemKindFile fileID groupIDs"

definition SetFolderVisibility :: "nat \<Rightarrow> nat \<Rightarrow> nat \<Rightarrow> nat list \<Rightarrow> unit W" where
  "SetFolderVisibility userID bucketID folderID groupIDs =
     setItemVisibility userID bucketID ItemKindFolder folderID groupIDs"

section \<open>The list filter\<close>

definition userForVisibility :: "nat \<Rightarrow> User W" where
  "userForVisibility userID = bindM (queryDB (the_user userID)) orNotFound"

text \<open>
  The SQL predicate of visibilitySQL as a predicate on the column.  json_ints stands for the
  database's own reading of a JSON array of integers.
\<close>

definition visibilitySQL :: "(string \<Rightarrow> nat list option) \<Rightarrow> User option \<Rightarrow> nat list \<Rightarrow> string \<Rightarrow> bool" where
  "visibilitySQL json_ints user userGroupIDs col =
     (case user of
        None \<Rightarrow> False
      | Some u \<Rightarrow>
          if IsAdmin (usr_PermissionLevel u) then True
          else col = [] \<or>
            (userGroupIDs \<noteq> [] \<and>
             (case json_ints col of None \<Rightarrow> False
              | Some vs \<Rightarrow> \<exists>v\<in>set vs. v \<in> set userGroupIDs)))"

definition listVisibilityPredicate :: "(string \<Rightarrow> nat list option) \<Rightarrow> nat \<Rightarrow> (string \<Rightarrow> bool) W" where
  "listVisibilityPredicate json_ints userID =
     bindM (userForVisibility userID) (\<lambda>user.
     bindM (UserGroupIDs userID) (\<lambda>groups.
     returnM (visibilitySQL json_ints (Some user) groups)))"


section \<open>Lemmas: the column\<close>

lemma dedup_ids_props:
  "set (dedup_ids seen ids) = set ids - {0} - set seen \<and> distinct (dedup_ids seen ids)"
  by (induction ids arbitrary: seen) auto

lemma dedup_ids_id: "distinct ids \<Longrightarrow> 0 \<notin> set ids \<Longrightarrow> set ids \<inter> set seen = {} \<Longrightarrow> dedup_ids seen ids = ids"
  by (induction ids arbitrary: seen) auto

lemma json_trim_visible: "s \<noteq> [] \<Longrightarrow> \<not> json_ws (hd s) \<Longrightarrow> \<not> json_ws (last s) \<Longrightarrow> json_trim s = s"
  by (cases s) (auto simp: json_trim_def dropWhile_eq_self_iff hd_rev hd_append)

lemma digit_not_ws: "is_digit c \<Longrightarrow> \<not> json_ws c"
  by (auto simp: is_digit_def json_ws_def)

lemma json_uint_dec: "n \<le> max_uint64 \<Longrightarrow> json_uint (dec n) = Some n"
proof -
  assume n: "n \<le> max_uint64"
  have d: "list_all is_digit (dec n)" by (rule dec_digits)
  then have "json_trim (dec n) = dec n"
    by (intro json_trim_visible) (auto simp: list_all_iff digit_not_ws)
  moreover have "dec n \<noteq> ''null''" using d by (auto simp: is_digit_def)
  ultimately show ?thesis
    using n d dec_leading[of n] by (auto simp: json_uint_def dec_value Let_def max_uint64_def)
qed

lemma all_some_map: "\<forall>x\<in>set xs. f x = Some (g x) \<Longrightarrow> all_some (map f xs) = Some (map g xs)"
  by (induction xs) auto

lemma json_uints_marshal:
  assumes "ids \<noteq> []" "\<forall>i\<in>set ids. i \<le> max_uint64"
  shows "json_uints (marshalVisibleGroups ids) = Some ids"
proof -
  let ?in = "join_with (CHR '','') (map dec ids)"
  have m: "marshalVisibleGroups ids = CHR ''['' # ?in @ [CHR '']'']"
    using assms(1) by (simp add: marshalVisibleGroups_def)
  have "json_trim (CHR ''['' # ?in @ [CHR '']'']) = CHR ''['' # ?in @ [CHR '']'']"
    by (rule json_trim_visible) (auto simp: json_ws_def)
  moreover have sp: "split_on (CHR '','') ?in = map dec ids"
    using assms(1) by (intro split_join) (auto simp: dec_seps)
  have "json_trim ?in \<noteq> []"
  proof -
    obtain i js where i: "ids = i # js" using assms(1) by (cases ids) auto
    obtain c cs where c: "dec i = c # cs" by (cases "dec i") auto
    have "\<not> json_ws c" using dec_digits[of i] c digit_not_ws[of c] by simp
    moreover have "?in = c # drop 1 ?in" using i c by (cases js) auto
    ultimately show ?thesis
      by (metis append_Nil2 dropWhile_eq_Nil_conv dropWhile.simps(2) json_trim_def list.set_intros(1)
          rev_is_Nil_conv set_rev)
  qed
  moreover have "all_some (map json_uint (map dec ids)) = Some (map id ids)"
    unfolding map_map by (rule all_some_map) (use assms(2) in \<open>simp add: json_uint_dec\<close>)
  ultimately show ?thesis
    by (simp add: json_uints_def m sp Let_def)
qed

lemma TrimSpace_marshal: "TrimSpace (marshalVisibleGroups ids) = marshalVisibleGroups ids"
proof (cases "ids = []")
  case True
  then show ?thesis by (simp add: marshalVisibleGroups_def) code_simp
next
  case False
  then show ?thesis
    by (intro TrimSpace_visible) (auto simp: marshalVisibleGroups_def visible_def)
qed

lemma ParseVisibleGroups_marshal:
  "\<forall>i\<in>set ids. i \<le> max_uint64 \<Longrightarrow>
   ParseVisibleGroups (marshalVisibleGroups ids) = Inr (dedup_ids [] ids)"
  by (cases "ids = []")
    (auto simp: ParseVisibleGroups_def TrimSpace_marshal json_uints_marshal Let_def,
      simp_all add: marshalVisibleGroups_def)

lemma marshal_Nil: "marshalVisibleGroups ids = [] \<longleftrightarrow> ids = []"
  by (simp add: marshalVisibleGroups_def)

text \<open>The rule on a column written by the program.\<close>

lemma ItemVisibleRule_marshal:
  assumes "distinct ids" "0 \<notin> set ids" "\<forall>i\<in>set ids. i \<le> max_uint64"
  shows "ItemVisibleRule (marshalVisibleGroups ids) (Some u) gs = Inr () \<longleftrightarrow>
    ids = [] \<or> IsAdmin (usr_PermissionLevel u) \<or> (\<exists>g\<in>set gs. g \<in> set ids)"
  using assms dedup_ids_id[of ids "[]"]
  by (auto simp: ItemVisibleRule_def TrimSpace_marshal marshal_Nil ParseVisibleGroups_marshal)

section \<open>Lemmas: the walks\<close>

lemma pres_checkItemAccessTree [pres]: "preserves (onDB J) (checkItemAccessTree u g v)"
  unfolding checkItemAccessTree_def by (intro pres)

lemma pres_accessTree_loop: "preserves (onDB J) (accessTree_loop n u b c seen us g)"
proof (induction n arbitrary: c seen us g)
  case 0
  show ?case by (subst accessTree_loop.simps) (simp add: pres)
next
  case (Suc n)
  show ?case by (subst accessTree_loop.simps) (auto intro!: pres Suc)
qed

lemma pres_checkAncestorsAccessTree [pres]: "preserves (onDB J) (checkAncestorsAccessTree u b f)"
  unfolding checkAncestorsAccessTree_def by (intro pres pres_accessTree_loop)

lemma pres_writable_loop: "preserves (onDB J) (writable_loop n b c seen)"
proof (induction n arbitrary: c seen)
  case 0
  show ?case by (subst writable_loop.simps) (simp add: pres)
next
  case (Suc n)
  show ?case by (subst writable_loop.simps) (auto intro!: pres Suc)
qed

lemma pres_CheckAncestorsWritable [pres]: "preserves (onDB J) (CheckAncestorsWritable b f)"
  unfolding CheckAncestorsWritable_def by (intro pres pres_writable_loop)


text \<open>The guard on seen folders makes the fuel enough, whatever the parent pointers are.\<close>

lemma ends_cached_user: "ends P (case us of None \<Rightarrow> GetUser u | Some x \<Rightarrow> returnM x)"
  by (cases us) (auto simp: ends_def GetUser_def queryDB_def faulty_cases orNotFound_def effects
      split: prod.splits option.splits)

lemma ends_checkItemAccessTree: "ends P (checkItemAccessTree u g v)"
  by (cases g) (auto simp: ends_def checkItemAccessTree_def UserGroupIDs_def queryDB_def faulty_cases effects
      split: prod.splits option.splits sum.splits)

lemma accessTree_loop_ends:
  "card (folder_ids d - set seen) < n \<Longrightarrow>
   ends (onDB (\<lambda>e. e = d)) (accessTree_loop n u b c seen us g)"
proof (induction n arbitrary: c seen us g)
  case (Suc n)
  let ?P = "\<lambda>f. onDB (\<lambda>e. e = d \<and> the_folder b c e = Some f)"
  have step: "ends (?P f) (accessTree_loop n u b (fld_ParentID f) (c # seen) (Some x) g')"
    if "c \<notin> set seen" for f x g'
  proof (cases "the_folder b c d = Some f")
    case True
    then have "card (folder_ids d - set (c # seen)) < n"
      using Suc.prems that the_folder_edge folder_ids_shrink[of c d "set seen"] by fastforce
    from Suc.IH[OF this] show ?thesis by (rule ends_pre) (auto simp: onDB_def)
  qed (auto simp: ends_def onDB_def)
  have keep: "valid (?P f) m (\<lambda>_. ?P f) (\<lambda>_ _. True)" if "\<And>J. preserves (onDB J) m" for f m
    by (rule valid_weaken[OF that]) auto
  have body: "ends (?P f) (bindM (case us of None \<Rightarrow> GetUser u | Some x \<Rightarrow> returnM x) (\<lambda>x.
      bindM (checkItemAccessTree x g (fld_VisibleToGroups f)) (\<lambda>g'.
      accessTree_loop n u b (fld_ParentID f) (c # seen) (Some x) g')))"
    if "c \<notin> set seen" for f
    by (rule ends_bind[where R = "\<lambda>_. ?P f", OF ends_cached_user keep],
        intro pres, rule ends_bind[where R = "\<lambda>_. ?P f", OF ends_checkItemAccessTree keep],
        intro pres, rule step[OF that])
  show ?case
    by (subst accessTree_loop.simps)
      (auto intro!: ends_rules body ends_bind[where R = ?P]
        intro: valid_weaken[OF valid_loadFolder[where J = "\<lambda>e. e = d"]])
qed simp

lemma ends_checkAncestorsAccessTree [ends_rules]: "ends P (checkAncestorsAccessTree u b f)"
proof -
  have "fst (accessTree_loop (Suc (length (rows (folders (wdb w))))) u b f [] None None w) \<noteq> Hang" for w
    using accessTree_loop_ends[of "wdb w" "[]" "Suc (length (rows (folders (wdb w))))" u b f None None]
      folder_ids_card[of "wdb w"] by (auto simp: ends_def onDB_def)
  then show ?thesis
    by (auto simp: ends_def checkAncestorsAccessTree_def folderCount_def bindM_def getsM_def)
qed

lemma writable_loop_ends:
  "card (folder_ids d - set seen) < n \<Longrightarrow> ends (onDB (\<lambda>e. e = d)) (writable_loop n b c seen)"
proof (induction n arbitrary: c seen)
  case (Suc n)
  let ?P = "\<lambda>f. onDB (\<lambda>e. e = d \<and> the_folder b c e = Some f)"
  have step: "ends (?P f) (writable_loop n b (fld_ParentID f) (c # seen))" if "c \<notin> set seen" for f
  proof (cases "the_folder b c d = Some f")
    case True
    then have "card (folder_ids d - set (c # seen)) < n"
      using Suc.prems that the_folder_edge folder_ids_shrink[of c d "set seen"] by fastforce
    from Suc.IH[OF this] show ?thesis by (rule ends_pre) (auto simp: onDB_def)
  qed (auto simp: ends_def onDB_def)
  show ?case
    by (subst writable_loop.simps)
      (auto intro!: ends_rules step ends_bind[where R = ?P]
        intro: valid_weaken[OF valid_loadFolder[where J = "\<lambda>e. e = d"]])
qed simp

lemma ends_CheckAncestorsWritable [ends_rules]: "ends P (CheckAncestorsWritable b f)"
proof -
  have "fst (writable_loop (Suc (length (rows (folders (wdb w))))) b f [] w) \<noteq> Hang" for w
    using writable_loop_ends[of "wdb w" "[]" "Suc (length (rows (folders (wdb w))))" b f]
      folder_ids_card[of "wdb w"] by (auto simp: ends_def onDB_def)
  then show ?thesis
    by (auto simp: ends_def CheckAncestorsWritable_def folderCount_def bindM_def getsM_def)
qed

section \<open>What a passed walk says of the ancestors\<close>

definition visible_to :: "nat \<Rightarrow> db \<Rightarrow> string \<Rightarrow> bool" where
  "visible_to userID d col \<longleftrightarrow> TrimSpace col = [] \<or>
     (\<exists>u. the_user userID d = Some u \<and>
        ItemVisibleRule col (Some u) (member_groups userID d) = Inr ())"

lemma writable_loop_Ok:
  assumes "acyclic (parent_rel d)"
  shows "writable_loop n b c seen w = (Ok x, w') \<Longrightarrow> wdb w = d \<Longrightarrow>
    \<forall>v\<in>set seen. (v, c) \<in> (parent_rel d)\<^sup>+ \<and> (c = 0 \<or> v \<noteq> c) \<Longrightarrow>
    \<exists>fs. chain n d b c = Some fs \<and> wdb w' = d \<and>
      (\<forall>f\<in>set fs. fld_Isable f \<noteq> FolderUnusable \<and> fld_Isable f \<noteq> FolderDeleting)"
proof (induction n arbitrary: c seen w)
  case 0
  then show ?case
    by (subst (asm) writable_loop.simps)
      (auto simp: hangM_def returnM_def split: if_splits)
next
  case (Suc n)
  show ?case
  proof (cases "c = 0")
    case True
    with Suc.prems show ?thesis by (subst (asm) writable_loop.simps) (simp add: returnM_def)
  next
    case False
    have ns: "c \<notin> set seen" using Suc.prems(3) False by auto
    from Suc.prems(1) False ns obtain f w2 where l: "loadFolder b c w = (Ok f, w2)"
      and g: "fld_Isable f \<noteq> FolderUnusable" "fld_Isable f \<noteq> FolderDeleting"
      and r: "writable_loop n b (fld_ParentID f) (c # seen) w2 = (Ok x, w')"
      by (subst (asm) writable_loop.simps)
        (auto elim!: bindM_OkE simp: throwM_def split: if_splits)
    note l' = loadFolder_OkD[OF l]
    have tf: "the_folder b c d = Some f" using l' Suc.prems(2) by simp
    note e = the_folder_edge[OF tf, THEN conjunct1]
    have "\<forall>v\<in>set (c # seen). (v, fld_ParentID f) \<in> (parent_rel d)\<^sup>+ \<and> (fld_ParentID f = 0 \<or> v \<noteq> fld_ParentID f)"
      using Suc.prems(3) e assms
      by (auto intro: trancl_into_trancl simp: acyclic_def)
    from Suc.IH[OF r _ this] l' Suc.prems(2) obtain fs where
      "chain n d b (fld_ParentID f) = Some fs" "wdb w' = d"
      "\<forall>f\<in>set fs. fld_Isable f \<noteq> FolderUnusable \<and> fld_Isable f \<noteq> FolderDeleting" by auto
    with chain_step[OF False tf] g show ?thesis by (intro exI[of _ "f # fs"]) auto
  qed
qed

lemma CheckAncestorsWritable_Ok:
  assumes "CheckAncestorsWritable b i w = (Ok x, w')" "acyclic (parent_rel (wdb w))"
  shows "wdb w' = wdb w \<and> (\<exists>fs. ancestors (wdb w) b i = Some fs \<and>
      (\<forall>f\<in>set fs. fld_Isable f \<noteq> FolderUnusable \<and> fld_Isable f \<noteq> FolderDeleting))"
proof -
  from assms(1) have "writable_loop (Suc (length (rows (folders (wdb w))))) b i [] w = (Ok x, w')"
    by (simp add: CheckAncestorsWritable_def folderCount_def bindM_def getsM_def)
  from writable_loop_Ok[OF assms(2) this] show ?thesis by (auto simp: ancestors_def)
qed


definition user_agrees :: "nat \<Rightarrow> db \<Rightarrow> User \<Rightarrow> bool" where
  "user_agrees userID d u \<longleftrightarrow> (\<exists>v. the_user userID d = Some v \<and> usr_ID u = userID \<and>
     usr_PermissionLevel u = usr_PermissionLevel v)"

lemma the_user_ID: "the_user i d = Some v \<Longrightarrow> usr_ID v = i"
  by (auto simp: the_user_def dest: tfirst_Some)

lemma cached_user_OkD:
  assumes "(case us of None \<Rightarrow> GetUser i | Some x \<Rightarrow> returnM x) w = (Ok u, w')"
    and "\<And>x. us = Some x \<Longrightarrow> user_agrees i (wdb w) x"
  shows "user_agrees i (wdb w) u \<and> wdb w' = wdb w"
  using assms
  by (auto simp: returnM_def user_agrees_def the_user_def split: option.splits
      dest!: GetUser_OkD dest: tfirst_Some)

lemma ItemVisibleRule_level:
  "usr_PermissionLevel u = usr_PermissionLevel v \<Longrightarrow>
   ItemVisibleRule s (Some u) gs = ItemVisibleRule s (Some v) gs"
  by (auto simp: ItemVisibleRule_def split: sum.splits)

lemma ItemVisibleRule_admin:
  "IsAdmin (usr_PermissionLevel u) \<Longrightarrow> ItemVisibleRule s (Some u) gs =
   (if TrimSpace s = [] then Inr ()
    else if (\<exists>ids. ParseVisibleGroups s = Inr ids \<and> ids \<noteq> []) then Inr () else Inl ErrForbidden)"
  by (auto simp: ItemVisibleRule_def split: sum.splits)

text \<open>
  checkItemAccessTree lets an administrator through before it looks at the column, so it is the rule
  except for administrators at a corrupt column.
\<close>

definition walk_visible :: "nat \<Rightarrow> db \<Rightarrow> string \<Rightarrow> bool" where
  "walk_visible userID d col \<longleftrightarrow> visible_to userID d col \<or>
     (\<exists>u. the_user userID d = Some u \<and> IsAdmin (usr_PermissionLevel u))"

lemma checkItemAccessTree_OkD:
  assumes "checkItemAccessTree u g col w = (Ok g', w')"
    and "user_agrees i (wdb w) u" and "\<And>gs. g = Some gs \<Longrightarrow> gs = member_groups i (wdb w)"
  shows "walk_visible i (wdb w) col \<and> wdb w' = wdb w \<and>
    (\<forall>gs. g' = Some gs \<longrightarrow> gs = member_groups i (wdb w))"
proof (cases "TrimSpace col = [] \<or> IsAdmin (usr_PermissionLevel u)")
  case True
  with assms(1) have "g' = g" "w' = w"
    by (auto simp: checkItemAccessTree_def returnM_def split: if_splits)
  with True assms(2,3) show ?thesis
    by (auto simp: walk_visible_def visible_to_def user_agrees_def)
next
  case False
  from assms(1) False obtain gs w2 where
      1: "(case g of None \<Rightarrow> UserGroupIDs (usr_ID u) | Some gs \<Rightarrow> returnM gs) w = (Ok gs, w2)"
    and 2: "ItemVisibleRule col (Some u) gs = Inr ()" and 3: "g' = Some gs" "w' = w2"
    by (auto simp: checkItemAccessTree_def elim!: bindM_OkE dest!: okD split: if_splits)
  have gs: "gs = member_groups i (wdb w) \<and> wdb w2 = wdb w"
    using 1 assms(2,3)
    by (auto simp: returnM_def user_agrees_def split: option.splits dest!: UserGroupIDs_OkD)
  with 2 assms(2) have "visible_to i (wdb w) col"
    by (auto simp: visible_to_def user_agrees_def) (metis ItemVisibleRule_level)
  with gs 3 show ?thesis by (auto simp: walk_visible_def)
qed

lemma accessTree_loop_Ok:
  assumes "acyclic (parent_rel d)"
  shows "accessTree_loop n i b c seen us g w = (Ok x, w') \<Longrightarrow> wdb w = d \<Longrightarrow>
    \<forall>v\<in>set seen. (v, c) \<in> (parent_rel d)\<^sup>+ \<and> (c = 0 \<or> v \<noteq> c) \<Longrightarrow>
    (\<And>y. us = Some y \<Longrightarrow> user_agrees i d y) \<Longrightarrow> (\<And>gs. g = Some gs \<Longrightarrow> gs = member_groups i d) \<Longrightarrow>
    \<exists>fs. chain n d b c = Some fs \<and> wdb w' = d \<and>
      (\<forall>f\<in>set fs. fld_Isable f \<noteq> FolderUnusable \<and> walk_visible i d (fld_VisibleToGroups f))"
proof (induction n arbitrary: c seen us g w)
  case 0
  then show ?case
    by (subst (asm) accessTree_loop.simps) (auto simp: hangM_def returnM_def split: if_splits)
next
  case (Suc n)
  show ?case
  proof (cases "c = 0")
    case True
    with Suc.prems(1,2) show ?thesis by (subst (asm) accessTree_loop.simps) (simp add: returnM_def)
  next
    case False
    have ns: "c \<notin> set seen" using Suc.prems(3) False by auto
    from Suc.prems(1) False ns obtain f w2 u w3 g' w4 where l: "loadFolder b c w = (Ok f, w2)"
      and us: "fld_Isable f \<noteq> FolderUnusable"
      and u: "(case us of None \<Rightarrow> GetUser i | Some x \<Rightarrow> returnM x) w2 = (Ok u, w3)"
      and v: "checkItemAccessTree u g (fld_VisibleToGroups f) w3 = (Ok g', w4)"
      and r: "accessTree_loop n i b (fld_ParentID f) (c # seen) (Some u) g' w4 = (Ok x, w')"
      by (subst (asm) accessTree_loop.simps)
        (auto elim!: bindM_OkE simp: throwM_def split: if_splits)
    have w2: "wdb w2 = d" and tf: "the_folder b c d = Some f"
      using loadFolder_OkD[OF l] Suc.prems(2) by auto
    have w3: "wdb w3 = d" and ua: "user_agrees i d u"
      using cached_user_OkD[OF u] w2 Suc.prems(4) by auto
    have w4: "wdb w4 = d" and vis: "walk_visible i d (fld_VisibleToGroups f)"
      and ga: "\<And>gs. g' = Some gs \<Longrightarrow> gs = member_groups i d"
      using checkItemAccessTree_OkD[OF v, of i] w3 ua Suc.prems(5) by auto
    note e = the_folder_edge[OF tf, THEN conjunct1]
    have "\<forall>v\<in>set (c # seen). (v, fld_ParentID f) \<in> (parent_rel d)\<^sup>+ \<and> (fld_ParentID f = 0 \<or> v \<noteq> fld_ParentID f)"
      using Suc.prems(3) e assms
      by (auto intro: trancl_into_trancl simp: acyclic_def)
    from Suc.IH[OF r w4 this] ua ga obtain fs where
      "chain n d b (fld_ParentID f) = Some fs" "wdb w' = d"
      "\<forall>f\<in>set fs. fld_Isable f \<noteq> FolderUnusable \<and> walk_visible i d (fld_VisibleToGroups f)" by auto
    with chain_step[OF False tf] us vis show ?thesis by (intro exI[of _ "f # fs"]) auto
  qed
qed

lemma checkAncestorsAccessTree_Ok:
  assumes "checkAncestorsAccessTree i b c w = (Ok x, w')" "acyclic (parent_rel (wdb w))"
  shows "wdb w' = wdb w \<and> (\<exists>fs. ancestors (wdb w) b c = Some fs \<and>
      (\<forall>f\<in>set fs. fld_Isable f \<noteq> FolderUnusable \<and> walk_visible i (wdb w) (fld_VisibleToGroups f)))"
proof -
  from assms(1) have "accessTree_loop (Suc (length (rows (folders (wdb w))))) i b c [] None None w = (Ok x, w')"
    by (simp add: checkAncestorsAccessTree_def folderCount_def bindM_def getsM_def)
  from accessTree_loop_Ok[OF assms(2) this] show ?thesis by (auto simp: ancestors_def)
qed

section \<open>Setting the visible groups\<close>

lemma check_own_groups_OkD:
  assumes "check_own_groups u ids w = (Ok x, w')"
  shows "wdb w' = wdb w \<and> disk w' = disk w \<and> (ids = [] \<or> (\<exists>v. the_user u (wdb w) = Some v \<and>
    (IsAdmin (usr_PermissionLevel v) \<or> set ids \<subseteq> set (member_groups u (wdb w)))))"
proof (cases "ids = []")
  case True
  with assms show ?thesis by (simp add: check_own_groups_def returnM_def)
next
  case False
  with assms obtain v w2 where g: "GetUser u w = (Ok v, w2)"
    and r: "(if IsAdmin (usr_PermissionLevel v) then returnM ()
        else bindM (UserGroupIDs u) (\<lambda>mine.
          if \<exists>g\<in>set ids. g \<notin> set mine then throwM ErrForbidden else returnM ())) w2 = (Ok x, w')"
    by (auto simp: check_own_groups_def elim!: bindM_OkE)
  note gu = GetUser_OkD[OF g, folded the_user_def]
  show ?thesis
  proof (cases "IsAdmin (usr_PermissionLevel v)")
    case True
    with r gu show ?thesis by (auto simp: returnM_def)
  next
    case no: False
    with r obtain mine where "UserGroupIDs u w2 = (Ok mine, w')" "\<forall>g\<in>set ids. g \<in> set mine"
      by (auto elim!: bindM_OkE simp: throwM_def returnM_def split: if_splits)
    with UserGroupIDs_OkD[of u w2 mine w'] gu show ?thesis by auto
  qed
qed

lemma normalizeAndCheckGroups_OkD:
  "normalizeAndCheckGroups gs w = (Ok ids, w') \<Longrightarrow>
   ids = dedup_ids [] gs \<and> wdb w' = wdb w \<and> disk w' = disk w \<and>
   (ids = [] \<or> tcount (\<lambda>r. live_grp r \<and> grp_ID r \<in> set ids \<and> grp_Status r = 1) (groups (wdb w)) = length ids)"
  by (auto simp: normalizeAndCheckGroups_def Let_def throwM_def returnM_def elim!: bindM_OkE dest!: okD
      split: if_splits)

lemma the_user_files [simp]: "the_user u (d\<lparr>files := t\<rparr>) = the_user u d"
  "the_user u (d\<lparr>folders := t2\<rparr>) = the_user u d"
  by (simp_all add: the_user_def)

lemma member_groups_files [simp]: "member_groups u (d\<lparr>files := t\<rparr>) = member_groups u d"
  "member_groups u (d\<lparr>folders := t2\<rparr>) = member_groups u d"
  by (simp_all add: member_groups_def)

lemma visible_to_marshal:
  assumes "ids = [] \<or> (\<exists>v. the_user u d = Some v \<and>
      (IsAdmin (usr_PermissionLevel v) \<or> set ids \<subseteq> set (member_groups u d)))"
    and "distinct ids" "0 \<notin> set ids" "\<forall>i\<in>set ids. i \<le> max_uint64"
  shows "visible_to u d (marshalVisibleGroups ids)"
proof (cases "ids = []")
  case True
  then show ?thesis by (simp add: visible_to_def TrimSpace_marshal marshal_Nil)
next
  case False
  then obtain g where "g \<in> set ids" by (cases ids) auto
  with False assms show ?thesis
    by (auto simp: visible_to_def ItemVisibleRule_marshal)
qed

section \<open>Properties\<close>

text \<open>C18: both walks along the ancestors end, whatever the parent pointers are: their guard on seen
  folders stops them on a cycle.\<close>

theorem ancestor_walks_end:
  "fst (checkAncestorsAccessTree u b f w) \<noteq> Hang \<and> fst (CheckAncestorsWritable b f w) \<noteq> Hang"
  using ends_checkAncestorsAccessTree[of "\<lambda>_. True" u b f] ends_CheckAncestorsWritable[of "\<lambda>_. True" b f]
  by (simp add: ends_def)

text \<open>C17: when the read check passes on a tree without cycles, the whole chain of folders up to the
  bucket root exists, none is deleted, and the user may see each of them.\<close>

theorem checkAncestorsAccessTree_sound:
  assumes "checkAncestorsAccessTree u b f w = (Ok x, w')" "acyclic (parent_rel (wdb w))"
  shows "wdb w' = wdb w \<and> (\<exists>fs. ancestors (wdb w) b f = Some fs \<and>
    (\<forall>g\<in>set fs. fld_Isable g \<noteq> FolderUnusable \<and> walk_visible u (wdb w) (fld_VisibleToGroups g)))"
  by (rule checkAncestorsAccessTree_Ok[OF assms])

lemma ItemVisibleRule_one: "ItemVisibleRule ''[1]'' (Some u) gs = Inr () \<longleftrightarrow>
    IsAdmin (usr_PermissionLevel u) \<or> Suc 0 \<in> set gs"
proof -
  have "marshalVisibleGroups [1] = ''[1]''" by code_simp
  then show ?thesis using ItemVisibleRule_marshal[of "[1]" u gs] by (simp add: max_uint64_def)
qed

lemma TrimSpace_one: "TrimSpace ''[1]'' = ''[1]''" "TrimSpace [] = []"
  by code_simp+

lemmas walk_run = run checkAncestorsAccessTree_def folderCount_def accessTree_loop.simps loadFolder_def
  the_folder_def orNotFound_def sample_rows isable_defs numeral_eq_Suc GetUser_def checkItemAccessTree_def
  UserGroupIDs_def ItemVisibleRule_one[THEN iffD2, OF disjI2] TrimSpace_one IsAdmin_def NormalUser_def Admin_def liftM_def

theorem checkAncestorsAccessTree_sound_witness:
  "\<exists>w'. checkAncestorsAccessTree 2 1 2 sample = (Ok (), w') \<and> walk_visible 2 sample_db ''[1]''"
proof -
  have "fst (checkAncestorsAccessTree 2 1 2 sample) = Ok ()"
    by (simp add: walk_run cong: run_cong model_cong)
  then obtain w' where r: "checkAncestorsAccessTree 2 1 2 sample = (Ok (), w')" by (metis prod.collapse)
  have "ancestors sample_db 1 2 = Some [sample_folder 2 1 ''in'' [], sample_folder 1 0 ''docs'' ''[1]'']"
    by code_simp
  with checkAncestorsAccessTree_sound[OF r] r show ?thesis
    by (simp add: sample_acyclic sample_folder_def)
qed

text \<open>When the write check passes on a tree without cycles, no folder up to the bucket root is
  deleted or being deleted.\<close>

lemma CheckAncestorsWritable_sound:
  assumes "CheckAncestorsWritable b f w = (Ok x, w')" "acyclic (parent_rel (wdb w))"
  shows "wdb w' = wdb w \<and> (\<exists>fs. ancestors (wdb w) b f = Some fs \<and>
    (\<forall>g\<in>set fs. fld_Isable g \<noteq> FolderUnusable \<and> fld_Isable g \<noteq> FolderDeleting))"
  by (rule CheckAncestorsWritable_Ok[OF assms])

lemma CheckAncestorsWritable_sound_witness:
  "\<exists>fs. ancestors sample_db 1 2 = Some fs"
proof -
  have "fst (CheckAncestorsWritable 1 2 sample) = Ok ()" by code_simp
  then obtain w' where r: "CheckAncestorsWritable 1 2 sample = (Ok (), w')" by (metis prod.collapse)
  from CheckAncestorsWritable_sound[OF r] show ?thesis by (auto simp: sample_acyclic)
qed

text \<open>What the program writes into the visibility column reads back as the groups it was given, and
  the rule then admits administrators, members of one of them, and everyone when there is none.\<close>

lemma visibility_roundtrip:
  assumes "distinct ids" "0 \<notin> set ids" "\<forall>i\<in>set ids. i \<le> max_uint64"
  shows "ParseVisibleGroups (marshalVisibleGroups ids) = Inr ids \<and>
    (ItemVisibleRule (marshalVisibleGroups ids) (Some u) gs = Inr () \<longleftrightarrow>
       ids = [] \<or> IsAdmin (usr_PermissionLevel u) \<or> (\<exists>g\<in>set gs. g \<in> set ids))"
  using ItemVisibleRule_marshal[OF assms] ParseVisibleGroups_marshal[OF assms(3)]
    dedup_ids_id[OF assms(1,2), of "[]"] by simp

lemma visibility_roundtrip_witness:
  "ParseVisibleGroups ''[7,12]'' = Inr [7, 12]"
proof -
  have "marshalVisibleGroups [7, 12] = ''[7,12]''" by code_simp
  with visibility_roundtrip[of "[7, 12]"] show ?thesis by (simp add: max_uint64_def)
qed



text \<open>C19: whoever restricts a file keeps access to it: after a successful SetFileVisibility the file
  carries the normalised groups, and the rule admits the operator.\<close>

theorem SetFileVisibility_no_lockout:
  assumes "SetFileVisibility u b f gids w = (Ok x, w')" "\<forall>g\<in>set gids. g \<le> max_uint64"
  shows "the_file b f (wdb w) \<noteq> None \<and>
    wdb w' = set_file_vis b f (marshalVisibleGroups (dedup_ids [] gids)) (wdb w) \<and>
    visible_to u (wdb w') (marshalVisibleGroups (dedup_ids [] gids))"
proof -
  from assms(1) obtain fl w1 ids w2 w3 where l: "loadFile b f w = (Ok fl, w1)"
    and n0: "normalizeAndCheckGroups gids w1 = (Ok ids, w2)" and c0: "check_own_groups u ids w2 = (Ok (), w3)"
    and e0: "execDB (set_file_vis b f (marshalVisibleGroups ids)) w3 = (Ok x, w')"
    by (auto simp: SetFileVisibility_def setItemVisibility_def thenM_def Let_def
        elim!: bindM_OkE dest!: return_OkD)
  have ids: "ids = dedup_ids [] gids" using normalizeAndCheckGroups_OkD[OF n0] by simp
  note n = n0[unfolded ids] and c = c0[unfolded ids] and e = e0[unfolded ids]
  have d: "wdb w3 = wdb w" "the_file b f (wdb w) \<noteq> None"
    using loadFile_OkD[OF l] normalizeAndCheckGroups_OkD[OF n] check_own_groups_OkD[OF c] by auto
  have e': "wdb w' = set_file_vis b f (marshalVisibleGroups (dedup_ids [] gids)) (wdb w)"
    using execDB_OkD[OF e] d by simp
  have "visible_to u (wdb w') (marshalVisibleGroups (dedup_ids [] gids))"
    using check_own_groups_OkD[OF c] d assms(2) dedup_ids_props[of "[]" gids]
      normalizeAndCheckGroups_OkD[OF n] loadFile_OkD[OF l]
    by (intro visible_to_marshal) (auto simp: e' set_file_vis_def)
  with d e' show ?thesis by simp
qed

theorem SetFileVisibility_no_lockout_witness:
  "\<exists>w'. SetFileVisibility 2 1 1 [1, 0, 1] sample = (Ok (), w') \<and> visible_to 2 (wdb w') ''[1]'' \<and>
     fst (SetFileVisibility 3 1 1 [1] sample) = Err ErrForbidden"
proof -
  have "fst (SetFileVisibility 2 1 1 [1, 0, 1] sample) = Ok ()" by code_simp
  then obtain w' where r: "SetFileVisibility 2 1 1 [1, 0, 1] sample = (Ok (), w')" by (metis prod.collapse)
  have "marshalVisibleGroups (dedup_ids [] [1, 0, 1]) = ''[1]''" by code_simp
  moreover have "fst (SetFileVisibility 3 1 1 [1] sample) = Err ErrForbidden" by code_simp
  ultimately show ?thesis using SetFileVisibility_no_lockout[OF r] r by (auto simp: max_uint64_def)
qed

end
