(* ===== verification/Protocol.thy ===== *)
theory Protocol
  imports Storage
begin

text \<open>
  The private frame protocol between the SMB front end and the gateway (smb_server/go/protocol.go,
  and readFrame of transport.go): 16 byte headers in network byte order, frames, and the control
  body that carries a JSON part and a data part.  Integers keep their widths.
\<close>

unbundle bit_operations_syntax

section \<open>Constants and headers\<close>

definition Magic :: "32 word" where "Magic = 0x4F435354"
definition Version :: "8 word" where "Version = 1"
definition MaxBodyLen :: "32 word" where "MaxBodyLen = 0x1000000"
definition headerLen :: nat where "headerLen = 16"

definition FlagResponse :: "8 word" where "FlagResponse = 1"

definition MSG_OPERATE :: "16 word" where "MSG_OPERATE = 0x0201"
definition MSG_OPERATE_RESP :: "16 word" where "MSG_OPERATE_RESP = 0x0202"
definition MSG_ERR_RESP :: "16 word" where "MSG_ERR_RESP = 0x8001"

record FrameHeader =
  hMagic :: "32 word"
  hVersion :: "8 word"
  hFlags :: "8 word"
  hMsgType :: "16 word"
  hSeq :: "32 word"
  hBodyLen :: "32 word"

datatype frame_err =
    HeaderTooShort | BadMagic | VersionMismatch | BodyTooLarge | OperateBodyTooShort
  | OperateJsonLenOverflow | ReadFailed

section \<open>Network byte order\<close>

text \<open>binary.BigEndian.PutUint32, PutUint16, Uint32 and Uint16.\<close>

definition put32 :: "32 word \<Rightarrow> byte list" where
  "put32 x = [ucast (drop_bit 24 x), ucast (drop_bit 16 x), ucast (drop_bit 8 x), ucast x]"

definition put16 :: "16 word \<Rightarrow> byte list" where
  "put16 x = [ucast (drop_bit 8 x), ucast x]"

definition get32 :: "byte list \<Rightarrow> 32 word" where
  "get32 b = ucast (b ! 3) OR push_bit 8 (ucast (b ! 2)) OR push_bit 16 (ucast (b ! 1)) OR
     push_bit 24 (ucast (b ! 0))"

definition get16 :: "byte list \<Rightarrow> 16 word" where
  "get16 b = ucast (b ! 1) OR push_bit 8 (ucast (b ! 0))"

section \<open>Frames\<close>

definition marshalFrameHeader :: "FrameHeader \<Rightarrow> byte list" where
  "marshalFrameHeader hdr =
     put32 (hMagic hdr) @ [hVersion hdr, hFlags hdr] @ put16 (hMsgType hdr) @
     put32 (hSeq hdr) @ put32 (hBodyLen hdr)"

definition slice :: "nat \<Rightarrow> nat \<Rightarrow> 'a list \<Rightarrow> 'a list" where
  "slice from to xs = take (to - from) (drop from xs)"

definition unmarshalFrameHeader :: "byte list \<Rightarrow> frame_err + FrameHeader" where
  "unmarshalFrameHeader buf =
     (if length buf < headerLen then Inl HeaderTooShort
      else
        let hdr = \<lparr>hMagic = get32 (slice 0 4 buf), hVersion = buf ! 4, hFlags = buf ! 5,
                   hMsgType = get16 (slice 6 8 buf), hSeq = get32 (slice 8 12 buf),
                   hBodyLen = get32 (slice 12 16 buf)\<rparr> in
        if hMagic hdr \<noteq> Magic then Inl BadMagic
        else if hVersion hdr \<noteq> Version then Inl VersionMismatch
        else if hBodyLen hdr > MaxBodyLen then Inl BodyTooLarge
        else Inr hdr)"

definition marshalFrame :: "FrameHeader \<Rightarrow> byte list \<Rightarrow> byte list" where
  "marshalFrame hdr body =
     (let hdr' = hdr\<lparr>hMagic := Magic, hVersion := Version, hBodyLen := of_nat (length body)\<rparr> in
      marshalFrameHeader hdr' @ body)"

text \<open>readFrame on the bytes the connection still delivers: header, body, and what is left.\<close>

definition readFrame :: "byte list \<Rightarrow> frame_err + (FrameHeader \<times> byte list \<times> byte list)" where
  "readFrame conn =
     (if length conn < headerLen then Inl ReadFailed
      else
        case unmarshalFrameHeader (take headerLen conn) of
          Inl e \<Rightarrow> Inl e
        | Inr hdr \<Rightarrow>
            let rest = drop headerLen conn; n = unat (hBodyLen hdr) in
            if length rest < n then Inl ReadFailed
            else Inr (hdr, take n rest, drop n rest))"

section \<open>The control body\<close>

text \<open>The JSON part is taken as bytes: marshalling it is the library's.\<close>

definition marshalOperateBody :: "byte list \<Rightarrow> byte list \<Rightarrow> byte list" where
  "marshalOperateBody j stream = put32 (of_nat (length j)) @ j @ stream"

definition splitOperateBody :: "byte list \<Rightarrow> frame_err + (byte list \<times> byte list)" where
  "splitOperateBody body =
     (if length body < 4 then Inl OperateBodyTooShort
      else
        let jsonLen = unat (get32 (take 4 body)) in
        if jsonLen > length body - 4 then Inl OperateJsonLenOverflow
        else Inr (slice 4 (4 + jsonLen) body, drop (4 + jsonLen) body))"

section \<open>Lemmas\<close>

lemma bit_byte_of:
  fixes x :: "'a::len word"
  shows "n < LENGTH('a) \<Longrightarrow>
    bit (push_bit k (ucast (ucast (drop_bit k x) :: byte)) :: 'a word) n \<longleftrightarrow> k \<le> n \<and> n < k + 8 \<and> bit x n"
  by (auto simp only: bit_push_bit_iff bit_ucast_iff bit_drop_bit_eq comp_def) auto

lemma bit_low_byte:
  fixes x :: "'a::len word"
  shows "n < LENGTH('a) \<Longrightarrow> bit (ucast (ucast x :: byte) :: 'a word) n \<longleftrightarrow> n < 8 \<and> bit x n"
  by (simp add: bit_ucast_iff)

lemma get32_put32 [simp]: "get32 (put32 x) = x"
proof (rule bit_word_eqI)
  fix n assume n: "n < LENGTH(32)"
  have "bit (ucast (ucast x :: byte) OR push_bit 8 (ucast (ucast (drop_bit 8 x) :: byte)) OR
      push_bit 16 (ucast (ucast (drop_bit 16 x) :: byte)) OR
      push_bit 24 (ucast (ucast (drop_bit 24 x) :: byte)) :: 32 word) n \<longleftrightarrow> bit x n"
    using n by (simp only: bit_or_iff bit_byte_of[OF n] bit_low_byte[OF n]) auto
  then show "bit (get32 (put32 x)) n \<longleftrightarrow> bit x n"
    by (simp only: get32_def put32_def nth_Cons_0 nth_Cons_numeral nth_Cons_Suc numeral_3_eq_3
        numeral_2_eq_2 One_nat_def)
qed

lemma get16_put16 [simp]: "get16 (put16 x) = x"
proof (rule bit_word_eqI)
  fix n assume n: "n < LENGTH(16)"
  have "bit (ucast (ucast x :: byte) OR push_bit 8 (ucast (ucast (drop_bit 8 x) :: byte)) :: 16 word) n
      \<longleftrightarrow> bit x n"
    using n by (simp only: bit_or_iff bit_byte_of[OF n] bit_low_byte[OF n]) auto
  then show "bit (get16 (put16 x)) n \<longleftrightarrow> bit x n"
    by (simp only: get16_def put16_def nth_Cons_0 nth_Cons_Suc One_nat_def)
qed

lemma length_put32 [simp]: "length (put32 x) = 4"
  by (simp add: put32_def)

lemma length_put16 [simp]: "length (put16 x) = 2"
  by (simp add: put16_def)

lemma length_header [simp]: "length (marshalFrameHeader h) = 16"
  by (simp add: marshalFrameHeader_def)


lemma slice_app: "length a = from \<Longrightarrow> length b = to - from \<Longrightarrow> slice from to (a @ b @ c) = b"
  by (simp add: slice_def)

definition hdr_ok :: "FrameHeader \<Rightarrow> bool" where
  "hdr_ok h \<longleftrightarrow> hMagic h = Magic \<and> hVersion h = Version \<and> hBodyLen h \<le> MaxBodyLen"

lemma unmarshal_marshal:
  assumes "hdr_ok h"
  shows "unmarshalFrameHeader (marshalFrameHeader h @ rest) = Inr h"
proof -
  let ?m = "put32 (hMagic h)" and ?v = "[hVersion h, hFlags h]" and ?t = "put16 (hMsgType h)"
    and ?s = "put32 (hSeq h)" and ?l = "put32 (hBodyLen h)"
  let ?b = "marshalFrameHeader h @ rest"
  have b: "?b = ?m @ ?v @ ?t @ ?s @ ?l @ rest" by (simp add: marshalFrameHeader_def)
  have "slice 0 4 ?b = ?m" using slice_app[of "[]" 0 ?m 4 "?v @ ?t @ ?s @ ?l @ rest"] b by simp
  moreover have "slice 6 8 ?b = ?t" using slice_app[of "?m @ ?v" 6 ?t 8 "?s @ ?l @ rest"] b by simp
  moreover have "slice 8 12 ?b = ?s" using slice_app[of "?m @ ?v @ ?t" 8 ?s 12 "?l @ rest"] b by simp
  moreover have "slice 12 16 ?b = ?l" using slice_app[of "?m @ ?v @ ?t @ ?s" 12 ?l 16 rest] b by simp
  moreover have "?b ! 4 = hVersion h" "?b ! 5 = hFlags h" using b by (simp_all add: nth_append)
  ultimately show ?thesis
    using assms by (simp add: unmarshalFrameHeader_def headerLen_def hdr_ok_def Let_def not_less)
qed

lemma unmarshal_ok: "unmarshalFrameHeader b = Inr h \<Longrightarrow> hdr_ok h \<and> 16 \<le> length b"
  by (auto simp: unmarshalFrameHeader_def hdr_ok_def headerLen_def Let_def split: if_splits)

definition framed :: "FrameHeader \<Rightarrow> byte list \<Rightarrow> FrameHeader" where
  "framed h body = h\<lparr>hMagic := Magic, hVersion := Version, hBodyLen := of_nat (length body)\<rparr>"

lemma unat_body_len: "length body \<le> unat MaxBodyLen \<Longrightarrow> unat (of_nat (length body) :: 32 word) = length body"
  by (simp add: unat_of_nat MaxBodyLen_def)

lemma readFrame_marshal:
  assumes "length body \<le> unat MaxBodyLen"
  shows "readFrame (marshalFrame h body @ rest) = Inr (framed h body, body, rest)"
proof -
  have ok: "hdr_ok (framed h body)"
    using assms unat_body_len[OF assms] by (simp add: hdr_ok_def framed_def word_le_nat_alt)
  have "unmarshalFrameHeader (marshalFrameHeader (framed h body)) = Inr (framed h body)"
    using unmarshal_marshal[OF ok, of "[]"] by simp
  then show ?thesis
    using unat_body_len[OF assms]
    by (simp add: readFrame_def marshalFrame_def headerLen_def Let_def framed_def)
qed

lemma length_readFrame: "readFrame conn = Inr (h, body, rest) \<Longrightarrow>
    length conn = 16 + length body + length rest \<and> length body = unat (hBodyLen h) \<and> hdr_ok h"
  by (auto simp: readFrame_def headerLen_def Let_def split: if_splits sum.splits dest: unmarshal_ok)

text \<open>The frames of a connection, read until one fails.\<close>

function readFrames :: "byte list \<Rightarrow> (FrameHeader \<times> byte list) list" where
  "readFrames conn = (case readFrame conn of Inl _ \<Rightarrow> []
     | Inr (h, body, rest) \<Rightarrow> (h, body) # readFrames rest)"
  by auto
termination
  by (relation "measure length") (auto dest: length_readFrame)

declare readFrames.simps [simp del]

section \<open>Properties\<close>

text \<open>C26: framing is lossless and self-delimiting: the bytes of any sequence of frames, written one
  after the other, are read back as exactly these frames, with the header fields the writer must
  fill in.\<close>

theorem frames_roundtrip:
  assumes "\<forall>(h, body)\<in>set fs. length body \<le> unat MaxBodyLen"
  shows "readFrames (concat (map (\<lambda>(h, body). marshalFrame h body) fs)) =
         map (\<lambda>(h, body). (framed h body, body)) fs"
  using assms
proof (induction fs)
  case Nil
  then show ?case by (subst readFrames.simps) (simp add: readFrame_def headerLen_def)
next
  case (Cons f fs)
  obtain h body where f: "f = (h, body)" by fastforce
  with Cons show ?case
    by (subst readFrames.simps) (simp add: readFrame_marshal)
qed

theorem frames_roundtrip_witness:
  "readFrames (concat (map (\<lambda>(h, body). marshalFrame h body)
     [(\<lparr>hMagic = 0, hVersion = 0, hFlags = 2, hMsgType = MSG_OPERATE, hSeq = 7, hBodyLen = 0\<rparr>, [1, 2])])) =
   [(\<lparr>hMagic = Magic, hVersion = 1, hFlags = 2, hMsgType = MSG_OPERATE, hSeq = 7, hBodyLen = 2\<rparr>, [1, 2])]"
  using frames_roundtrip[of "[(\<lparr>hMagic = 0, hVersion = 0, hFlags = 2, hMsgType = MSG_OPERATE, hSeq = 7,
      hBodyLen = 0\<rparr>, [1, 2])]"]
  by (simp add: framed_def Version_def MaxBodyLen_def)

text \<open>A header that unmarshalFrameHeader accepts has the protocol's magic number and version and a
  body of at most 16 MiB, so readFrame never allocates more; a shorter buffer or a wrong field is an
  error.\<close>

lemma header_checked:
  "(\<forall>h. unmarshalFrameHeader buf = Inr h \<longrightarrow>
      hMagic h = Magic \<and> hVersion h = Version \<and> unat (hBodyLen h) \<le> 16 * 2 ^ 20) \<and>
   (\<forall>h body rest. readFrame buf = Inr (h, body, rest) \<longrightarrow>
      length body \<le> 16 * 2 ^ 20 \<and> length buf = 16 + length body + length rest)"
proof (intro conjI allI impI)
  fix h assume "unmarshalFrameHeader buf = Inr h"
  then have "hdr_ok h" by (simp add: unmarshal_ok)
  then show "hMagic h = Magic" "hVersion h = Version" "unat (hBodyLen h) \<le> 16 * 2 ^ 20"
    by (auto simp: hdr_ok_def MaxBodyLen_def word_le_nat_alt)
next
  fix h body rest assume "readFrame buf = Inr (h, body, rest)"
  note l = length_readFrame[OF this]
  then show "length body \<le> 16 * 2 ^ 20" "length buf = 16 + length body + length rest"
    by (auto simp: hdr_ok_def MaxBodyLen_def word_le_nat_alt)
qed

definition sample_header :: FrameHeader where
  "sample_header = \<lparr>hMagic = 0, hVersion = 0, hFlags = 2, hMsgType = MSG_OPERATE, hSeq = 7, hBodyLen = 0\<rparr>"

lemma header_checked_witness:
  "readFrame (marshalFrame sample_header [5] @ [6]) = Inr (framed sample_header [5], [5], [6]) \<and>
   length ([5] :: byte list) \<le> 16 * 2 ^ 20"
proof -
  have "readFrame (marshalFrame sample_header [5] @ [6]) = Inr (framed sample_header [5], [5], [6])"
    by (rule readFrame_marshal) (simp add: MaxBodyLen_def)
  with header_checked[of "marshalFrame sample_header [5] @ [6]"] show ?thesis by blast
qed

text \<open>The control body separates its JSON part from the data part whatever bytes they hold, and a
  length prefix that points behind the body is refused.\<close>

lemma operate_body_roundtrip:
  "(length j < 2 ^ 32 \<longrightarrow> splitOperateBody (marshalOperateBody j stream) = Inr (j, stream)) \<and>
   (\<forall>j' s'. splitOperateBody body = Inr (j', s') \<longrightarrow> body = take 4 body @ j' @ s')"
proof (intro conjI allI impI)
  assume "length j < 2 ^ 32"
  then have "unat (of_nat (length j) :: 32 word) = length j" by (simp add: unat_of_nat)
  then show "splitOperateBody (marshalOperateBody j stream) = Inr (j, stream)"
    by (simp add: splitOperateBody_def marshalOperateBody_def slice_def Let_def)
next
  fix j' s' assume "splitOperateBody body = Inr (j', s')"
  then show "body = take 4 body @ j' @ s'"
    by (auto simp: splitOperateBody_def slice_def Let_def split: if_splits)
      (metis add.commute append_take_drop_id drop_drop)
qed

lemma operate_body_roundtrip_witness:
  "splitOperateBody (marshalOperateBody [123, 125] [9]) = Inr ([123, 125], [9])"
  using operate_body_roundtrip[of "[123, 125]" "[9]"] by simp

end
