(* ===== verification/WriteCache.thy ===== *)
theory WriteCache
  imports Model "HOL-Library.Multiset"
begin

text \<open>
  The write-back cache of the SMB gateway (smb_server/go/write_cache.go): the table of written
  segments with its merge, the read path, and the assembly of a whole object on flush.  Offsets are
  Go int64 values, modelled as integers; the gateway's files stay far below 2^63 bytes.
\<close>

section \<open>Segments\<close>

record writeRange =
  wr_off :: int
  wr_end :: int
  wr_data :: "byte list"

record writeSpec =
  ws_size :: int
  ws_truncateAt :: int
  ws_segments :: "writeRange list"
  ws_dirty :: bool

record WriteBackCache =
  wc_ranges :: "writeRange list"
  wc_maxSize :: int
  wc_dirty :: bool

definition NewWriteBackCache :: WriteBackCache where
  "NewWriteBackCache = \<lparr>wc_ranges = [], wc_maxSize = 4 * 2 ^ 20, wc_dirty = False\<rparr>"

text \<open>
  One step of the merge over the segments in order of their offsets: the segment joins the last one,
  is dropped when the last one covers it, or stands alone.
\<close>

definition merge_step :: "writeRange list \<Rightarrow> writeRange \<Rightarrow> writeRange list" where
  "merge_step merged s =
     (if merged = [] then [s]
      else
        let l = last merged in
        if wr_off s \<le> wr_end l then
          if wr_end s \<le> wr_end l then merged
          else
            let keepLen = min (wr_off s - wr_off l) (int (length (wr_data l))) in
            butlast merged @
              [l\<lparr>wr_data := take (nat keepLen) (wr_data l) @ wr_data s, wr_end := wr_end s\<rparr>]
        else merged @ [s])"

text \<open>
  sort.Slice does not promise to keep equal elements in order; srt is any sorting by offset.
  Up to twelve elements Go's is the insertion sort, which sort_key wr_off agrees with.
\<close>

definition merge_with :: "(writeRange list \<Rightarrow> writeRange list) \<Rightarrow> writeRange list \<Rightarrow> writeRange list" where
  "merge_with srt rs = (if length rs < 2 then rs else foldl merge_step [] (srt rs))"

definition mergeLocked :: "writeRange list \<Rightarrow> writeRange list" where
  "mergeLocked = merge_with (sort_key wr_off)"

definition sizeLocked :: "writeRange list \<Rightarrow> int" where
  "sizeLocked rs = sum_list (map (\<lambda>s. int (length (wr_data s))) rs)"

definition seg_of :: "int \<Rightarrow> byte list \<Rightarrow> writeRange" where
  "seg_of offset data = \<lparr>wr_off = offset, wr_end = offset + int (length data), wr_data = data\<rparr>"

definition ApplyWrite :: "int \<Rightarrow> byte list \<Rightarrow> WriteBackCache \<Rightarrow> int \<times> WriteBackCache" where
  "ApplyWrite offset data c =
     (let rs = mergeLocked (wc_ranges c @ [seg_of offset data]) in
      (sizeLocked rs, c\<lparr>wc_ranges := rs, wc_dirty := True\<rparr>))"

section \<open>Reading\<close>

definition seg_slice :: "writeRange \<Rightarrow> int \<Rightarrow> int \<Rightarrow> byte list" where
  "seg_slice s from to = take (nat (to - from)) (drop (nat (from - wr_off s)) (wr_data s))"

fun read_loop :: "int \<Rightarrow> int \<Rightarrow> writeRange list \<Rightarrow> byte list" where
  "read_loop cursor en [] = []"
| "read_loop cursor en (s # ss) =
     (if wr_end s \<le> cursor then read_loop cursor en ss
      else if wr_off s \<ge> en then []
      else
        let from = max cursor (wr_off s); to = min (wr_end s) en in
        if to > from then seg_slice s from to @ read_loop to en ss
        else read_loop cursor en ss)"

definition ReadRange :: "int \<Rightarrow> int \<Rightarrow> WriteBackCache \<Rightarrow> byte list option" where
  "ReadRange offset len c =
     (let out = read_loop offset (offset + len) (wc_ranges c) in
      if int (length out) = len then Some out else None)"

section \<open>Flushing\<close>

text \<open>
  copyFromObject: the bytes it appends for the gap [from, to); the object is read up to
  limit, a missing object counts as zeros, a short one is filled up with zeros.
\<close>

definition zeros :: "int \<Rightarrow> byte list" where
  "zeros n = replicate (nat n) 0"

definition copy_got :: "int \<Rightarrow> int \<Rightarrow> int \<Rightarrow> byte list \<Rightarrow> byte list" where
  "copy_got from to rdTo rc =
     (let got = take (nat (rdTo - from)) rc; n = int (length got) in
      if n < rdTo - from then got @ zeros (rdTo - from - n)
      else got @ (if to > rdTo then zeros (to - rdTo) else []))"

definition copyFromObject :: "string \<Rightarrow> string \<Rightarrow> int \<Rightarrow> int \<Rightarrow> int \<Rightarrow> byte list W" where
  "copyFromObject bucket key from to limit =
     (if to \<le> from then returnM []
      else
        let rdTo = min to limit in
        if rdTo > from then
          bindM (tryM (storageGetRange bucket key from (rdTo - 1))) (\<lambda>r.
          case r of
            Inl e \<Rightarrow> if e = ErrObjectNotFound then returnM (zeros (to - from)) else throwM e
          | Inr rc \<Rightarrow> returnM (copy_got from to rdTo rc))
        else returnM (if to > rdTo then zeros (to - rdTo) else []))"

text \<open>The loop over the segments; it returns the cursor and what was appended to the buffer.\<close>

fun assemble ::
  "string \<Rightarrow> string \<Rightarrow> int \<Rightarrow> int \<Rightarrow> int \<Rightarrow> byte list \<Rightarrow> writeRange list \<Rightarrow> (int \<times> byte list) W" where
  "assemble bucket key tot objLimit cursor buf [] = returnM (cursor, buf)"
| "assemble bucket key tot objLimit cursor buf (s # ss) =
     (if wr_off s \<ge> tot then returnM (cursor, buf)
      else
        bindM (if wr_off s > cursor
               then bindM (copyFromObject bucket key cursor (min (wr_off s) tot) objLimit) (\<lambda>x.
                    returnM (min (wr_off s) tot, buf @ x))
               else returnM (cursor, buf)) (\<lambda>(cursor, buf).
        let to = min (wr_end s) tot in
        if to > cursor
        then assemble bucket key tot objLimit to (buf @ seg_slice s cursor to) ss
        else assemble bucket key tot objLimit cursor buf ss))"

definition objLimitOf :: "writeSpec \<Rightarrow> int" where
  "objLimitOf spec =
     (if ws_truncateAt spec \<ge> 0 \<and> ws_truncateAt spec < ws_size spec then ws_truncateAt spec
      else ws_size spec)"

text \<open>The cache comes back empty and clean; on an error the caller keeps the old one.\<close>

definition FlushToStorage :: "string \<Rightarrow> string \<Rightarrow> writeSpec \<Rightarrow> WriteBackCache \<Rightarrow> WriteBackCache W" where
  "FlushToStorage bucket key spec c =
     (if \<not> ws_dirty spec then returnM c
      else
        let tot = ws_size spec; objLimit = objLimitOf spec in
        bindM (assemble bucket key tot objLimit 0 [] (ws_segments spec)) (\<lambda>(cursor, buf).
        bindM (if cursor < tot
               then bindM (copyFromObject bucket key cursor tot objLimit) (\<lambda>x. returnM (buf @ x))
               else returnM buf) (\<lambda>buf.
        thenM (storagePut bucket key buf)
          (returnM (c\<lparr>wc_ranges := [], wc_dirty := False\<rparr>)))))"


section \<open>Lemmas: the segment table\<close>

definition seg_ok :: "writeRange \<Rightarrow> bool" where
  "seg_ok s \<longleftrightarrow> 0 \<le> wr_off s \<and> wr_end s = wr_off s + int (length (wr_data s))"

text \<open>Well-formed tables: in order, with a gap between any two segments.\<close>

definition tbl_ok :: "writeRange list \<Rightarrow> bool" where
  "tbl_ok rs \<longleftrightarrow> list_all seg_ok rs \<and> sorted_wrt (\<lambda>a b. wr_end a < wr_off b) rs"

definition in_seg :: "int \<Rightarrow> writeRange \<Rightarrow> bool" where
  "in_seg p s \<longleftrightarrow> wr_off s \<le> p \<and> p < wr_end s"

definition seg_byte :: "writeRange \<Rightarrow> int \<Rightarrow> byte" where
  "seg_byte s p = wr_data s ! nat (p - wr_off s)"

text \<open>The byte a table has for a position, if it has one.\<close>

fun cover :: "writeRange list \<Rightarrow> int \<Rightarrow> byte option" where
  "cover [] p = None"
| "cover (s # ss) p = (if in_seg p s then Some (seg_byte s p) else cover ss p)"

lemma cover_append: "cover (xs @ ys) p = (case cover xs p of None \<Rightarrow> cover ys p | Some b \<Rightarrow> Some b)"
  by (induction xs) auto

lemma cover_None: "cover rs p = None \<longleftrightarrow> (\<forall>s\<in>set rs. \<not> in_seg p s)"
  by (induction rs) auto

lemma seg_ok_seg_of [simp]: "seg_ok (seg_of off d) \<longleftrightarrow> 0 \<le> off"
  by (simp add: seg_ok_def seg_of_def)

lemma seg_ok_le: "seg_ok s \<Longrightarrow> wr_off s \<le> wr_end s"
  by (simp add: seg_ok_def)

lemma tbl_ok_Nil [simp]: "tbl_ok []"
  by (simp add: tbl_ok_def)

lemma tbl_ok_Cons: "tbl_ok (s # ss) \<longleftrightarrow> seg_ok s \<and> (\<forall>t\<in>set ss. wr_end s < wr_off t) \<and> tbl_ok ss"
  by (auto simp: tbl_ok_def)

lemma tbl_ok_append:
  "tbl_ok (xs @ ys) \<longleftrightarrow> tbl_ok xs \<and> tbl_ok ys \<and> (\<forall>s\<in>set xs. \<forall>t\<in>set ys. wr_end s < wr_off t)"
  by (auto simp: tbl_ok_def sorted_wrt_append)

lemma tbl_ok_seg: "tbl_ok rs \<Longrightarrow> s \<in> set rs \<Longrightarrow> seg_ok s"
  by (auto simp: tbl_ok_def list_all_iff)

lemma tbl_ok_strict: "tbl_ok rs \<Longrightarrow> sorted_wrt (\<lambda>a b. wr_off a < wr_off b) rs"
  by (induction rs) (auto simp: tbl_ok_Cons dest!: bspec seg_ok_le)

text \<open>Merging the new last segment l with the segments behind it.\<close>

fun absorb :: "writeRange \<Rightarrow> writeRange list \<Rightarrow> writeRange list" where
  "absorb l [] = [l]"
| "absorb l (b # bs) =
     (if wr_off b \<le> wr_end l then
        if wr_end b \<le> wr_end l then absorb l bs
        else l\<lparr>wr_data := take (nat (min (wr_off b - wr_off l) (int (length (wr_data l))))) (wr_data l) @ wr_data b,
               wr_end := wr_end b\<rparr> # bs
      else l # b # bs)"

lemma merge_apart: "tbl_ok (l # bs) \<Longrightarrow> foldl merge_step (M @ [l]) bs = M @ l # bs"
proof (induction bs arbitrary: M l)
  case (Cons b bs)
  then have "merge_step (M @ [l]) b = (M @ [l]) @ [b]"
    by (simp add: merge_step_def tbl_ok_Cons Let_def)
  then show ?case using Cons.IH[of b "M @ [l]"] Cons.prems by (simp add: tbl_ok_Cons)
qed simp

lemma merge_self: "tbl_ok rs \<Longrightarrow> foldl merge_step [] rs = rs"
  using merge_apart[of "hd rs" "tl rs" "[]"] by (cases rs) (simp_all add: merge_step_def)

lemma merge_absorb: "tbl_ok bs \<Longrightarrow> foldl merge_step (M @ [l]) bs = M @ absorb l bs"
proof (induction bs arbitrary: l)
  case (Cons b bs)
  have ok: "seg_ok b" "tbl_ok bs" "tbl_ok (b # bs)" using Cons.prems by (simp_all add: tbl_ok_Cons)
  let ?j = "l\<lparr>wr_data := take (nat (min (wr_off b - wr_off l) (int (length (wr_data l))))) (wr_data l) @ wr_data b,
               wr_end := wr_end b\<rparr>"
  consider "wr_off b \<le> wr_end l" "wr_end b \<le> wr_end l" | "wr_off b \<le> wr_end l" "\<not> wr_end b \<le> wr_end l"
    | "\<not> wr_off b \<le> wr_end l" by blast
  then show ?case
  proof cases
    case 1
    then show ?thesis using Cons.IH[OF ok(2), of l] by (simp add: merge_step_def Let_def)
  next
    case 2
    have "absorb ?j bs = ?j # bs" using Cons.prems by (cases bs) (auto simp: tbl_ok_Cons)
    with 2 show ?thesis using Cons.IH[OF ok(2), of ?j] by (simp add: merge_step_def Let_def)
  next
    case 3
    then have "merge_step (M @ [l]) b = (M @ [l]) @ [b]" by (simp add: merge_step_def Let_def)
    with 3 show ?thesis using merge_apart[of b bs "M @ [l]"] ok(3) by simp
  qed
qed simp

lemma seg_byte_join:
  assumes "seg_ok l" "seg_ok b" "wr_off l \<le> wr_off b" "wr_off b \<le> wr_end l"
    and "j = l\<lparr>wr_data := take (nat (min (wr_off b - wr_off l) (int (length (wr_data l))))) (wr_data l) @ wr_data b,
               wr_end := wr_end b\<rparr>"
  shows "seg_ok j \<and> (in_seg p j \<longleftrightarrow> wr_off l \<le> p \<and> p < wr_end b) \<and>
    (in_seg p j \<longrightarrow> seg_byte j p = (if p < wr_off b then seg_byte l p else seg_byte b p))"
proof -
  have m: "min (wr_off b - wr_off l) (int (length (wr_data l))) = wr_off b - wr_off l"
    using assms by (simp add: seg_ok_def)
  have len: "nat (wr_off b - wr_off l) \<le> length (wr_data l)" using assms by (simp add: seg_ok_def)
  have "seg_byte j p = (if p < wr_off b then seg_byte l p else seg_byte b p)" if "wr_off l \<le> p" "p < wr_end b"
  proof (cases "p < wr_off b")
    case True
    then have "nat (p - wr_off l) < nat (wr_off b - wr_off l)" using that by simp
    then show ?thesis using True m len by (simp add: seg_byte_def assms(5) nth_append)
  next
    case False
    then have "nat (p - wr_off l) - nat (wr_off b - wr_off l) = nat (p - wr_off b)"
      and "\<not> nat (p - wr_off l) < nat (wr_off b - wr_off l)" using assms(3) that by auto
    then show ?thesis using False m len by (simp add: seg_byte_def assms(5) nth_append)
  qed
  moreover have "seg_ok j" using assms m len by (auto simp: seg_ok_def)
  ultimately show ?thesis using assms(5) by (auto simp: in_seg_def)
qed

lemma absorb_cover:
  "seg_ok l \<Longrightarrow> tbl_ok bs \<Longrightarrow> \<forall>b\<in>set bs. wr_off l \<le> wr_off b \<Longrightarrow>
   tbl_ok (absorb l bs) \<and> (\<forall>t\<in>set (absorb l bs). wr_off l \<le> wr_off t) \<and>
   cover (absorb l bs) p =
     (if in_seg p l \<and> \<not> (\<exists>b\<in>set bs. in_seg p b \<and> wr_end l < wr_end b) then Some (seg_byte l p)
      else cover bs p)"
proof (induction bs)
  case Nil
  then show ?case by (simp add: tbl_ok_Cons)
next
  case (Cons b bs)
  have ok: "seg_ok b" "tbl_ok bs" "\<forall>t\<in>set bs. wr_end b < wr_off t"
    using Cons.prems by (simp_all add: tbl_ok_Cons)
  consider "wr_off b \<le> wr_end l" "wr_end b \<le> wr_end l" | "wr_off b \<le> wr_end l" "\<not> wr_end b \<le> wr_end l"
    | "\<not> wr_off b \<le> wr_end l" by blast
  then show ?case
  proof cases
    case 1
    then have "in_seg p b \<Longrightarrow> in_seg p l" using Cons.prems by (auto simp: in_seg_def)
    moreover have "in_seg p b \<Longrightarrow> \<forall>t\<in>set bs. \<not> in_seg p t" using ok(3) by (force simp: in_seg_def)
    ultimately show ?thesis using Cons 1 ok by auto
  next
    case 2
    let ?j = "l\<lparr>wr_data := take (nat (min (wr_off b - wr_off l) (int (length (wr_data l))))) (wr_data l) @ wr_data b,
               wr_end := wr_end b\<rparr>"
    have j: "seg_ok ?j \<and> (in_seg p ?j \<longleftrightarrow> wr_off l \<le> p \<and> p < wr_end b) \<and>
        (in_seg p ?j \<longrightarrow> seg_byte ?j p = (if p < wr_off b then seg_byte l p else seg_byte b p))"
      by (rule seg_byte_join[OF _ ok(1)]) (use Cons.prems 2 in auto)
    have late: "\<exists>t\<in>set bs. in_seg p t \<Longrightarrow> \<not> in_seg p l \<and> wr_end b < p"
      using ok(3) 2 by (force simp: in_seg_def)
    have "tbl_ok (?j # bs)" using j ok by (simp add: tbl_ok_Cons)
    moreover have "cover (?j # bs) p = (if in_seg p l \<and> \<not> (\<exists>t\<in>set (b # bs). in_seg p t \<and> wr_end l < wr_end t)
        then Some (seg_byte l p) else cover (b # bs) p)"
    proof (cases "\<exists>t\<in>set bs. in_seg p t")
      case True
      with late have "\<not> in_seg p l" "\<not> in_seg p ?j" "\<not> in_seg p b" using j by (auto simp: in_seg_def)
      then show ?thesis by simp
    next
      case False
      then show ?thesis
        using j 2 Cons.prems(3) by (auto simp: in_seg_def cover_None[THEN iffD2])
    qed
    ultimately show ?thesis using 2 Cons.prems(3) by simp
  next
    case 3
    have "\<forall>t\<in>set (b # bs). in_seg p t \<longrightarrow> \<not> in_seg p l"
      using 3 ok(3) seg_ok_le[OF ok(1)] by (auto simp: in_seg_def dest!: bspec)
    moreover have "tbl_ok (l # b # bs)"
      using Cons.prems 3 ok seg_ok_le[OF ok(1)] by (auto simp: tbl_ok_Cons)
    ultimately show ?thesis using 3 Cons.prems(3) by auto
  qed
qed


text \<open>
  The table with a new segment: what stands before it, what it does to the segment that reaches into
  it, and what it absorbs.
\<close>

definition before :: "int \<Rightarrow> writeRange list \<Rightarrow> writeRange list" where
  "before off rs = takeWhile (\<lambda>s. wr_off s \<le> off) rs"

definition behind :: "int \<Rightarrow> writeRange list \<Rightarrow> writeRange list" where
  "behind off rs = dropWhile (\<lambda>s. wr_off s \<le> off) rs"

lemma before_behind: "before off rs @ behind off rs = rs"
  by (simp add: before_def behind_def)

lemma before_off: "s \<in> set (before off rs) \<Longrightarrow> wr_off s \<le> off"
  by (auto simp: before_def dest: set_takeWhileD)

lemma behind_off: "tbl_ok rs \<Longrightarrow> s \<in> set (behind off rs) \<Longrightarrow> off < wr_off s"
proof (induction rs)
  case (Cons r rs)
  then show ?case
    using seg_ok_le[of r] by (auto simp: behind_def tbl_ok_Cons split: if_splits dest!: bspec)
qed (simp add: behind_def)

lemma sort_insert:
  "sorted_wrt (\<lambda>a b. wr_off a < wr_off b) rs \<Longrightarrow>
   sort_key wr_off (rs @ [n]) = before (wr_off n) rs @ n # behind (wr_off n) rs"
proof (induction rs)
  case (Cons r rs)
  have hd: "\<forall>x\<in>set rs. wr_off r < wr_off x" using Cons.prems by simp
  have ih: "sort_key wr_off (rs @ [n]) = before (wr_off n) rs @ n # behind (wr_off n) rs"
    using Cons by simp
  have up: "\<forall>x\<in>set (before (wr_off n) rs). wr_off r \<le> wr_off x"
    using hd by (auto simp: before_def dest!: set_takeWhileD intro: less_imp_le)
  show ?case
  proof (cases "wr_off r \<le> wr_off n")
    case True
    then have "insort_key wr_off r (before (wr_off n) rs @ n # behind (wr_off n) rs) =
        r # before (wr_off n) rs @ n # behind (wr_off n) rs"
      using up by (cases "before (wr_off n) rs") auto
    with True ih show ?thesis by (simp add: before_def behind_def)
  next
    case False
    with hd have b: "before (wr_off n) rs = []" by (cases rs) (auto simp: before_def)
    then have rs: "behind (wr_off n) rs = rs" using before_behind[of "wr_off n" rs] by simp
    have "insort_key wr_off r rs = r # rs" using hd by (cases rs) auto
    with False ih b rs show ?thesis by (simp add: before_def behind_def)
  qed
qed (simp add: before_def behind_def)

definition insert_seg :: "writeRange \<Rightarrow> writeRange list \<Rightarrow> writeRange list" where
  "insert_seg n rs =
     (let A = before (wr_off n) rs; B = behind (wr_off n) rs in
      if A = [] then absorb n B
      else let a = last A in
        if wr_off n \<le> wr_end a then butlast A @ absorb (last (merge_step [a] n)) B
        else A @ absorb n B)"

lemma merge_step_last: "M \<noteq> [] \<Longrightarrow> wr_off s \<le> wr_end (last M) \<Longrightarrow>
    merge_step M s = butlast M @ merge_step [last M] s \<and> (\<exists>x. merge_step [last M] s = [x])"
  by (auto simp: merge_step_def Let_def append_butlast_last_id)

lemma mergeLocked_insert:
  assumes "tbl_ok rs"
  shows "mergeLocked (rs @ [n]) = insert_seg n rs"
proof -
  let ?A = "before (wr_off n) rs" and ?B = "behind (wr_off n) rs"
  have AB: "tbl_ok ?A" "tbl_ok ?B"
    using assms before_behind[of "wr_off n" rs] tbl_ok_append[of ?A ?B] by auto
  have sorted: "sort_key wr_off (rs @ [n]) = ?A @ n # ?B"
    using sort_insert[OF tbl_ok_strict[OF assms]] .
  have f: "foldl merge_step [] (?A @ n # ?B) = insert_seg n rs"
  proof (cases "?A = []")
    case True
    then show ?thesis
      using merge_absorb[OF AB(2), of "[]" n] by (simp add: insert_seg_def merge_step_def)
  next
    case False
    show ?thesis
    proof (cases "wr_off n \<le> wr_end (last ?A)")
      case True
      obtain x where x: "merge_step ?A n = butlast ?A @ [x]" "merge_step [last ?A] n = [x]"
        using merge_step_last[OF False True] by auto
      then show ?thesis
        using False True merge_self[OF AB(1)] merge_absorb[OF AB(2), of "butlast ?A" x]
        by (simp add: insert_seg_def Let_def)
    next
      case nle: False
      then have "merge_step ?A n = ?A @ [n]" using False by (simp add: merge_step_def Let_def)
      then show ?thesis
        using False nle merge_self[OF AB(1)] merge_absorb[OF AB(2), of ?A n]
        by (simp add: insert_seg_def Let_def)
    qed
  qed
  show ?thesis
  proof (cases "rs = []")
    case True
    then show ?thesis
      by (simp add: mergeLocked_def merge_with_def insert_seg_def before_def behind_def)
  next
    case False
    then have "\<not> length (rs @ [n]) < 2" by (cases rs) auto
    then show ?thesis using f sorted by (simp add: mergeLocked_def merge_with_def)
  qed
qed


text \<open>
  Where a write does not take effect: its range lies inside one segment that starts no later, or the
  position belongs to a segment that starts later and reaches beyond the write.
\<close>

definition lost :: "writeRange list \<Rightarrow> writeRange \<Rightarrow> int \<Rightarrow> bool" where
  "lost rs n p \<longleftrightarrow>
     (\<exists>s\<in>set rs. wr_off s \<le> wr_off n \<and> wr_end n \<le> wr_end s) \<or>
     (\<exists>s\<in>set rs. wr_off n < wr_off s \<and> in_seg p s \<and> wr_end n < wr_end s)"

lemma absorb_apart: "tbl_ok (l # bs) \<Longrightarrow> absorb l bs = l # bs"
  by (cases bs) (auto simp: tbl_ok_Cons)

lemma insert_cover:
  assumes "tbl_ok rs" "seg_ok n"
  shows "tbl_ok (insert_seg n rs) \<and> cover (insert_seg n rs) p =
    (if in_seg p n \<and> \<not> lost rs n p then Some (seg_byte n p) else cover rs p)"
proof -
  let ?A = "before (wr_off n) rs" and ?B = "behind (wr_off n) rs"
  have rs: "rs = ?A @ ?B" by (simp add: before_behind)
  have AB: "tbl_ok ?A" "tbl_ok ?B" "\<forall>s\<in>set ?A. \<forall>t\<in>set ?B. wr_end s < wr_off t"
    using assms(1) rs tbl_ok_append[of ?A ?B] by auto
  have Boff: "\<forall>b\<in>set ?B. wr_off n < wr_off b" using behind_off[OF assms(1)] by blast
  have Aoff: "\<forall>a\<in>set ?A. wr_off a \<le> wr_off n" using before_off by blast
  have nB: "tbl_ok (absorb n ?B) \<and> (\<forall>t\<in>set (absorb n ?B). wr_off n \<le> wr_off t) \<and> cover (absorb n ?B) p =
     (if in_seg p n \<and> \<not> (\<exists>b\<in>set ?B. in_seg p b \<and> wr_end n < wr_end b) then Some (seg_byte n p)
      else cover ?B p)"
    by (rule absorb_cover[OF assms(2) AB(2)]) (use Boff in \<open>auto intro: less_imp_le\<close>)
  have lostB: "lost rs n p \<longleftrightarrow> (\<exists>a\<in>set ?A. wr_end n \<le> wr_end a) \<or>
      (\<exists>b\<in>set ?B. in_seg p b \<and> wr_end n < wr_end b)"
    unfolding lost_def by (subst (1 2) rs) (use Aoff Boff in \<open>auto simp: not_le[symmetric]\<close>)
  have covA: "cover rs p = (case cover ?A p of None \<Rightarrow> cover ?B p | Some x \<Rightarrow> Some x)"
    by (metis cover_append rs)
  show ?thesis
  proof (cases "?A = []")
    case True
    then show ?thesis using nB lostB covA by (auto simp: insert_seg_def)
  next
    case A: False
    let ?a = "last ?A" and ?init = "butlast ?A"
    have Ad: "?A = ?init @ [?a]" by (rule append_butlast_last_id[OF A, symmetric])
    have A0: "tbl_ok ?init" "seg_ok ?a" "\<forall>s\<in>set ?init. wr_end s < wr_off ?a"
      using AB(1) Ad tbl_ok_append[of ?init "[?a]"] by (auto simp: tbl_ok_Cons)
    have aoff: "wr_off ?a \<le> wr_off n" using Aoff A last_in_set by blast
    have lostA: "(\<exists>s\<in>set ?A. wr_end n \<le> wr_end s) \<longleftrightarrow> wr_end n \<le> wr_end ?a"
    proof -
      have "\<forall>s\<in>set ?init. wr_end s < wr_end n"
        using A0(3) aoff seg_ok_le[OF assms(2)] by fastforce
      then have "\<forall>s\<in>set ?init. \<not> wr_end n \<le> wr_end s" by auto
      moreover have "set ?A = insert ?a (set ?init)" by (subst Ad) simp
      ultimately show ?thesis by auto
    qed
    show ?thesis
    proof (cases "wr_off n \<le> wr_end ?a")
      case reach: True
      show ?thesis
      proof (cases "wr_end n \<le> wr_end ?a")
        case True
        have "tbl_ok (?a # ?B)" using A0(2) AB A last_in_set by (auto simp: tbl_ok_Cons)
        then have "insert_seg n rs = ?init @ ?a # ?B"
          using A reach True absorb_apart by (simp add: insert_seg_def merge_step_def Let_def)
        also have "\<dots> = rs" using rs Ad by (metis append.assoc append_Cons append_Nil)
        finally show ?thesis using assms(1) lostB lostA True by simp
      next
        case False
        let ?x = "?a\<lparr>wr_data := take (nat (min (wr_off n - wr_off ?a) (int (length (wr_data ?a))))) (wr_data ?a) @
            wr_data n, wr_end := wr_end n\<rparr>"
        have ins: "insert_seg n rs = ?init @ absorb ?x ?B"
          using A reach False by (simp add: insert_seg_def merge_step_def Let_def)
        have x: "seg_ok ?x \<and> (in_seg p ?x \<longleftrightarrow> wr_off ?a \<le> p \<and> p < wr_end n) \<and>
            (in_seg p ?x \<longrightarrow> seg_byte ?x p = (if p < wr_off n then seg_byte ?a p else seg_byte n p))"
          by (rule seg_byte_join[OF A0(2) assms(2) aoff reach]) simp
        have ab: "tbl_ok (absorb ?x ?B) \<and> (\<forall>t\<in>set (absorb ?x ?B). wr_off ?x \<le> wr_off t) \<and> cover (absorb ?x ?B) p =
           (if in_seg p ?x \<and> \<not> (\<exists>b\<in>set ?B. in_seg p b \<and> wr_end ?x < wr_end b) then Some (seg_byte ?x p)
            else cover ?B p)"
          by (rule absorb_cover) (use x AB(2) Boff aoff in \<open>auto\<close>)
        have ok: "tbl_ok (?init @ absorb ?x ?B)" using A0(1,3) ab by (fastforce simp: tbl_ok_append)
        have noB: "p < wr_off n \<Longrightarrow> cover ?B p = None"
          using Boff by (auto simp: cover_None in_seg_def)
        have covA0: "cover ?A p = (case cover ?init p of None \<Rightarrow> if in_seg p ?a then Some (seg_byte ?a p) else None
            | Some y \<Rightarrow> Some y)" by (subst Ad, subst cover_append) (simp split: option.split)
        have A0p: "cover ?init p \<noteq> None \<Longrightarrow> p < wr_off ?a"
          using A0(3) by (auto simp: cover_None in_seg_def dest!: bspec)
        have "cover (?init @ absorb ?x ?B) p = (if in_seg p n \<and> \<not> lost rs n p then Some (seg_byte n p) else cover rs p)"
        proof (cases "cover ?init p")
          case None
          let ?EB = "\<exists>b\<in>set ?B. in_seg p b \<and> wr_end n < wr_end b"
          have L: "cover (?init @ absorb ?x ?B) p =
              (if in_seg p ?x \<and> \<not> ?EB then Some (seg_byte ?x p) else cover ?B p)"
            using None ab by (simp add: cover_append)
          have R: "lost rs n p \<longleftrightarrow> ?EB" using lostB lostA False by simp
          have C: "cover rs p = (if in_seg p ?a then Some (seg_byte ?a p) else cover ?B p)"
            using covA covA0 None by simp
          consider "p < wr_off n" | "in_seg p n" | "wr_end n \<le> p" unfolding in_seg_def by linarith
          then show ?thesis
          proof cases
            case 1
            then have "\<not> ?EB" "\<not> in_seg p n" "in_seg p ?x \<longleftrightarrow> in_seg p ?a"
              using noB x reach seg_ok_le[OF assms(2)] by (auto simp: cover_None in_seg_def)
            with 1 show ?thesis using L R C x by simp
          next
            case 2
            have "in_seg p ?x \<and> seg_byte ?x p = seg_byte n p" using 2 x aoff by (auto simp: in_seg_def)
            moreover have "?EB \<Longrightarrow> \<not> in_seg p ?a"
              using AB(3) last_in_set[OF A] by (force simp: in_seg_def)
            ultimately show ?thesis using 2 L R C by auto
          next
            case 3
            then have "\<not> in_seg p n" "\<not> in_seg p ?x" "\<not> in_seg p ?a"
              using False x by (auto simp: in_seg_def)
            then show ?thesis using L C by simp
          qed
        next
          case (Some y)
          then have "p < wr_off ?a" using A0p by simp
          then have "\<not> in_seg p n" using aoff by (simp add: in_seg_def)
          with Some show ?thesis using covA covA0 by (simp add: cover_append)
        qed
        with ok ins show ?thesis by simp
      qed
    next
      case nreach: False
      then have ins: "insert_seg n rs = ?A @ absorb n ?B" using A by (simp add: insert_seg_def Let_def)
      have le: "\<forall>s\<in>set ?A. wr_end s < wr_off n"
        using nreach A0(3) aoff A0(2) by (subst Ad) (fastforce dest: seg_ok_le)
      have "tbl_ok (?A @ absorb n ?B)" using AB(1) nB le by (fastforce simp: tbl_ok_append)
      moreover have "cover ?A p \<noteq> None \<Longrightarrow> \<not> in_seg p n"
        using le by (auto simp: cover_None in_seg_def dest!: bspec)
      moreover have "\<not> wr_end n \<le> wr_end ?a" using nreach seg_ok_le[OF assms(2)] by simp
      ultimately show ?thesis
        using ins nB covA lostB lostA by (auto simp: cover_append split: option.splits)
    qed
  qed
qed


section \<open>Lemmas: the assembled object\<close>

text \<open>The bytes of a function on positions from, \dots, to - 1.\<close>

definition bytes_of :: "(int \<Rightarrow> byte) \<Rightarrow> int \<Rightarrow> int \<Rightarrow> byte list" where
  "bytes_of g from to = map g [from..to - 1]"

lemma bytes_of_empty [simp]: "to \<le> from \<Longrightarrow> bytes_of g from to = []"
  by (simp add: bytes_of_def)

lemma length_bytes_of [simp]: "length (bytes_of g from to) = nat (to - from)"
  by (simp add: bytes_of_def)

lemma bytes_of_split: "a \<le> b \<Longrightarrow> b \<le> c \<Longrightarrow> bytes_of g a b @ bytes_of g b c = bytes_of g a c"
  by (simp add: bytes_of_def upto_split1[of a b "c - 1"] flip: map_append)
    (metis map_append upto_split1 diff_le_eq int_one_le_iff_zero_less le_add_iff2 less_add_one
      order.strict_implies_order order_less_le zle_diff1_eq upto.simps le_less_trans not_less
      order_refl append_Nil2)

lemma bytes_of_cong: "(\<And>p. from \<le> p \<Longrightarrow> p < to \<Longrightarrow> g p = h p) \<Longrightarrow> bytes_of g from to = bytes_of h from to"
  by (auto simp: bytes_of_def)

lemma nth_bytes_of: "i < nat (to - from) \<Longrightarrow> bytes_of g from to ! i = g (from + int i)"
  by (simp add: bytes_of_def)

lemma bytes_of_eqI:
  "length xs = nat (to - from) \<Longrightarrow> (\<And>i. i < length xs \<Longrightarrow> xs ! i = g (from + int i)) \<Longrightarrow>
   xs = bytes_of g from to"
  by (rule nth_equalityI) (simp_all add: nth_bytes_of)


text \<open>The stored object, and its bytes read as zeros behind its end.\<close>

definition obj_bytes :: "string \<Rightarrow> string \<Rightarrow> world \<Rightarrow> byte list option" where
  "obj_bytes bucket key w = disk w (storageRoot @ [bucket, key])"

definition old_byte :: "byte list option \<Rightarrow> int \<Rightarrow> int \<Rightarrow> byte" where
  "old_byte ob limit p =
     (case ob of None \<Rightarrow> 0
      | Some x \<Rightarrow> if p < limit \<and> p < int (length x) then x ! nat p else 0)"

lemma storageGetRange_eq:
  assumes "plain b" "plain k" "0 \<le> s" "storageGetRange b k s e w = (r, w')"
  shows "disk w' = disk w \<and> (r = Err ErrInternal \<or>
     (case obj_bytes b k w of None \<Rightarrow> r = Err ErrObjectNotFound
      | Some x \<Rightarrow> r = Ok (take (nat (e - s + 1)) (drop (nat s) x))))"
  using assms
  by (auto simp: storageGetRange_def faulty_cases localGetRange_def resolve_plain obj_bytes_def
      split: if_splits option.splits)

lemma zeros_eq: "from \<le> to \<Longrightarrow> (\<And>p. from \<le> p \<Longrightarrow> p < to \<Longrightarrow> g p = 0) \<Longrightarrow> zeros (to - from) = bytes_of g from to"
  by (rule bytes_of_eqI) (simp_all add: zeros_def)

text \<open>
  When copyFromObject appends exactly the gap: the gap ends at the limit or before, or it starts at
  the limit, or it starts before the limit and the object reaches up to the limit.
\<close>

definition copy_exact :: "byte list option \<Rightarrow> int \<Rightarrow> int \<Rightarrow> int \<Rightarrow> bool" where
  "copy_exact ob limit from to \<longleftrightarrow> to \<le> limit \<or> from = limit \<or>
     (from < limit \<and> (case ob of None \<Rightarrow> True | Some x \<Rightarrow> limit \<le> int (length x)))"

lemma got_eq:
  assumes "0 \<le> from" "from < rd" "rd \<le> limit"
  shows "(let got = take (nat (rd - from)) (take (nat (rd - 1 - from + 1)) (drop (nat from) x));
              n = int (length got) in
          if n < rd - from then got @ zeros (rd - from - n) else got) =
         bytes_of (old_byte (Some x) limit) from rd"
proof -
  define got where "got = take (nat (rd - from)) (drop (nat from) x)"
  have len: "length got = min (nat (rd - from)) (length x - nat from)" by (simp add: got_def)
  have nth: "i < length got \<Longrightarrow> got ! i = old_byte (Some x) limit (from + int i)" for i
  proof -
    assume i: "i < length got"
    then have "nat from + i < length x" using len by linarith
    moreover from this i have "got ! i = x ! (nat from + i)" by (simp add: got_def)
    moreover have "from + int i < int (length x)" "from + int i < limit"
      "nat (from + int i) = nat from + i"
      using \<open>nat from + i < length x\<close> i len assms by linarith+
    ultimately show "got ! i = old_byte (Some x) limit (from + int i)"
      by (simp add: old_byte_def)
  qed
  have "(if int (length got) < rd - from then got @ zeros (rd - from - int (length got)) else got) =
    bytes_of (old_byte (Some x) limit) from rd"
  proof (rule bytes_of_eqI)
    show "length (if int (length got) < rd - from then got @ zeros (rd - from - int (length got)) else got) =
      nat (rd - from)"
      using len assms by (simp add: zeros_def del: of_nat_min) linarith
  next
    fix i
    assume i: "i < length (if int (length got) < rd - from
        then got @ zeros (rd - from - int (length got)) else got)"
    show "(if int (length got) < rd - from then got @ zeros (rd - from - int (length got)) else got) ! i =
      old_byte (Some x) limit (from + int i)"
    proof (cases "i < length got")
      case True
      then show ?thesis using nth by (simp add: nth_append)
    next
      case False
      with i have short: "int (length got) < rd - from" by (auto split: if_splits)
      then have "length got = length x - nat from" using len by linarith
      with False have "length x \<le> nat from + i" by linarith
      then have "\<not> from + int i < int (length x)" using assms(1) by linarith
      then show ?thesis
        using False i short by (simp add: old_byte_def nth_append zeros_def)
    qed
  qed
  moreover have "take (nat (rd - from)) (take (nat (rd - 1 - from + 1)) (drop (nat from) x)) = got"
    by (simp add: got_def)
  ultimately show ?thesis by (simp only: Let_def)
qed

lemma bytes_of_old_tail:
  "limit \<le> from \<Longrightarrow> from \<le> to \<Longrightarrow> zeros (to - from) = bytes_of (old_byte ob limit) from to"
  by (rule zeros_eq) (auto simp: old_byte_def split: option.splits)

lemma copyFromObject_OkD:
  assumes pl: "plain b" "plain k" and "0 \<le> from" "from < to"
    and run: "copyFromObject b k from to limit w = (Ok x, w')"
    and ex: "copy_exact (obj_bytes b k w) limit from to"
  shows "disk w' = disk w \<and> x = bytes_of (old_byte (obj_bytes b k w) limit) from to"
proof (cases "min to limit > from")
  case False
  then have x: "x = (if to > min to limit then zeros (to - min to limit) else []) \<and> w' = w"
    using assms(4) run by (auto simp: copyFromObject_def returnM_def Let_def split: if_splits)
  have "limit = from" using False assms(4) ex by (auto simp: copy_exact_def min_def split: if_splits)
  with x assms(4) show ?thesis using bytes_of_old_tail[of limit "from" to] by simp
next
  case True
  let ?rd = "min to limit" and ?ob = "obj_bytes b k w"
  from assms(4) run True obtain r w2 where
    g: "tryM (storageGetRange b k from (?rd - 1)) w = (Ok r, w2)" and
    x: "(case r of Inl e \<Rightarrow> if e = ErrObjectNotFound then returnM (zeros (to - from)) else throwM e
       | Inr rc \<Rightarrow> returnM (copy_got from to ?rd rc)) w2 = (Ok x, w')"
    by (auto simp: copyFromObject_def Let_def elim!: bindM_OkE)
  obtain r0 where g0: "storageGetRange b k from (?rd - 1) w = (r0, w2)"
    and r0: "r0 = (case r of Inl e \<Rightarrow> Err e | Inr y \<Rightarrow> Ok y)"
    using g by (auto simp: tryM_def split: prod.splits outcome.splits)
  note st = storageGetRange_eq[OF pl assms(3) g0]
  show ?thesis
  proof (cases ?ob)
    case None
    then have "r = Inl ErrObjectNotFound"
      using st r0 x by (auto simp: throwM_def split: sum.splits)
    with x st None assms(4) show ?thesis
      by (auto simp: returnM_def old_byte_def intro!: zeros_eq)
  next
    case (Some y)
    let ?rc = "take (nat (?rd - 1 - from + 1)) (drop (nat from) y)"
    obtain G where G: "G = take (nat (?rd - from)) ?rc" by blast
    have r: "r = Inr ?rc"
      using st r0 x Some by (auto simp: throwM_def split: sum.splits)
    then have xx: "x = copy_got from to ?rd ?rc \<and> w' = w2" using x by (simp add: returnM_def)
    have cg: "copy_got from to ?rd ?rc = (if int (length G) < ?rd - from then G @ zeros (?rd - from - int (length G))
        else G @ (if to > ?rd then zeros (to - ?rd) else []))"
      unfolding copy_got_def Let_def G ..
    have ge: "(if int (length G) < ?rd - from then G @ zeros (?rd - from - int (length G)) else G) =
        bytes_of (old_byte (Some y) limit) from ?rd"
      using got_eq[OF assms(3) True, of limit y] unfolding Let_def G by simp
    have dk: "disk w' = disk w" using st xx by simp
    show ?thesis
    proof (cases "to \<le> limit")
      case True
      then have "x = bytes_of (old_byte (Some y) limit) from ?rd" using xx cg ge by (auto split: if_splits)
      with True dk Some show ?thesis by simp
    next
      case False
      then have lim: "limit \<le> int (length y)" "?rd = limit" using ex Some True
        by (auto simp: copy_exact_def)
      have "\<not> int (length G) < ?rd - from" using lim True assms(3) unfolding G by simp
      then have "x = bytes_of (old_byte (Some y) limit) from limit @ zeros (to - limit)"
        using xx cg ge lim(2) False by simp
      then show ?thesis
        using dk Some bytes_of_old_tail[of limit limit to "Some y"] False True
          bytes_of_split[of "from" limit to "old_byte (Some y) limit"] by simp
    qed
  qed
qed


section \<open>Lemmas: the assembled buffer\<close>

text \<open>
  The byte a flush should write at a position: the newest cached one, else the old object's byte,
  which counts only below the truncation limit.
\<close>

definition flush_byte :: "writeRange list \<Rightarrow> byte list option \<Rightarrow> int \<Rightarrow> int \<Rightarrow> byte" where
  "flush_byte segs ob limit p = (case cover segs p of Some b \<Rightarrow> b | None \<Rightarrow> old_byte ob limit p)"

text \<open>
  A cursor position from which every gap is exact: either nothing was truncated, or the object
  reaches up to the limit and no gap starts strictly between the limit and the end of the file.
\<close>

definition gap_ok :: "byte list option \<Rightarrow> int \<Rightarrow> int \<Rightarrow> int \<Rightarrow> bool" where
  "gap_ok ob limit tot c \<longleftrightarrow> limit = tot \<or>
     ((case ob of None \<Rightarrow> True | Some x \<Rightarrow> limit \<le> int (length x)) \<and> (c \<le> limit \<or> tot \<le> c))"

lemma gap_ok_exact: "gap_ok ob limit tot c \<Longrightarrow> limit \<le> tot \<Longrightarrow> c < to \<Longrightarrow> to \<le> tot \<Longrightarrow> copy_exact ob limit c to"
  by (auto simp: gap_ok_def copy_exact_def)

lemma copy_gap:
  assumes "plain b" "plain k" "0 \<le> c" "c \<le> to"
    and run: "(if c < to then bindM (copyFromObject b k c to limit) (\<lambda>x. returnM (h (buf @ x)))
               else returnM (h buf)) w = (Ok y, w')"
    and ex: "c < to \<Longrightarrow> copy_exact (obj_bytes b k w) limit c to"
    and none: "\<forall>p. c \<le> p \<and> p < to \<longrightarrow> cover segs p = None"
    and buf: "buf = bytes_of (flush_byte segs (obj_bytes b k w) limit) 0 c"
  shows "disk w' = disk w \<and> y = h (bytes_of (flush_byte segs (obj_bytes b k w) limit) 0 to)"
proof (cases "c < to")
  case False
  with run buf assms(4) show ?thesis by (auto simp: returnM_def)
next
  case True
  then obtain x w1 where x: "copyFromObject b k c to limit w = (Ok x, w1)" "y = h (buf @ x)" "w' = w1"
    using run by (auto simp: returnM_def elim!: bindM_OkE)
  have "disk w1 = disk w \<and> x = bytes_of (old_byte (obj_bytes b k w) limit) c to"
    by (rule copyFromObject_OkD[OF assms(1-3) True x(1) ex[OF True]])
  moreover have "bytes_of (old_byte (obj_bytes b k w) limit) c to = bytes_of (flush_byte segs (obj_bytes b k w) limit) c to"
    by (rule bytes_of_cong) (use none in \<open>simp add: flush_byte_def\<close>)
  ultimately show ?thesis using x buf True bytes_of_split[of 0 c to] assms(3) by simp
qed

lemma seg_slice_bytes:
  assumes "seg_ok s" "wr_off s \<le> from" "from \<le> to" "to \<le> wr_end s"
  shows "seg_slice s from to = bytes_of (seg_byte s) from to"
proof (rule bytes_of_eqI)
  show "length (seg_slice s from to) = nat (to - from)"
    using assms by (simp add: seg_slice_def seg_ok_def)
next
  fix i assume "i < length (seg_slice s from to)"
  then have "i < nat (to - from)" "nat (from - wr_off s) + i < length (wr_data s)"
    by (auto simp: seg_slice_def)
  moreover have "nat (from + int i - wr_off s) = nat (from - wr_off s) + i" using assms(2) by simp
  ultimately show "seg_slice s from to ! i = seg_byte s (from + int i)"
    by (simp add: seg_slice_def seg_byte_def)
qed

lemma assemble_Ok:
  assumes "plain b" "plain k" "limit \<le> tot"
  shows "assemble b k tot limit c buf segs w = (Ok (c', buf'), w') \<Longrightarrow> tbl_ok segs \<Longrightarrow>
     \<forall>s\<in>set segs. c \<le> wr_off s \<Longrightarrow> 0 \<le> c \<Longrightarrow> c \<le> tot \<Longrightarrow>
     gap_ok (obj_bytes b k w) limit tot c \<Longrightarrow>
     \<forall>s\<in>set segs. gap_ok (obj_bytes b k w) limit tot (wr_end s) \<Longrightarrow>
     \<forall>p\<ge>c. cover all p = cover segs p \<Longrightarrow>
     buf = bytes_of (flush_byte all (obj_bytes b k w) limit) 0 c \<Longrightarrow>
     disk w' = disk w \<and> 0 \<le> c' \<and> c' \<le> tot \<and> gap_ok (obj_bytes b k w) limit tot c' \<and>
     buf' = bytes_of (flush_byte all (obj_bytes b k w) limit) 0 c' \<and>
     (\<forall>p. c' \<le> p \<and> p < tot \<longrightarrow> cover all p = None)"
proof (induction segs arbitrary: c buf w)
  case Nil
  then show ?case by (auto simp: returnM_def)
next
  case (Cons s ss)
  let ?ob = "obj_bytes b k w"
  let ?G = "flush_byte all ?ob limit"
  have ok: "seg_ok s" "tbl_ok ss" "\<forall>t\<in>set ss. wr_end s < wr_off t" and cs: "c \<le> wr_off s"
    using Cons.prems by (simp_all add: tbl_ok_Cons)
  show ?case
  proof (cases "wr_off s \<ge> tot")
    case True
    then have "\<forall>p. c \<le> p \<and> p < tot \<longrightarrow> cover all p = None"
      using Cons.prems(8) ok seg_ok_le[OF ok(1)] by (force simp: cover_None in_seg_def)
    with True Cons.prems show ?thesis by (auto simp: returnM_def)
  next
    case False
    then have mn: "min (wr_off s) tot = wr_off s" by simp
    let ?to = "min (wr_end s) tot"
    have "\<not> wr_off s \<ge> tot" using False by simp
    moreover have "(if c < wr_off s then A else returnM (c, buf)) =
        (if c < wr_off s then A else returnM (wr_off s, buf))" for A :: "(int \<times> byte list) W"
      using cs by auto
    ultimately obtain y w1 where g: "(if c < wr_off s
          then bindM (copyFromObject b k c (wr_off s) limit) (\<lambda>x. returnM (wr_off s, buf @ x))
          else returnM (wr_off s, buf)) w = (Ok y, w1)"
      and r: "(case y of (cursor, buf) \<Rightarrow> if ?to > cursor
        then assemble b k tot limit ?to (buf @ seg_slice s cursor ?to) ss
        else assemble b k tot limit cursor buf ss) w1 = (Ok (c', buf'), w')"
      using Cons.prems(1) unfolding assemble.simps mn Let_def
      by (simp only: if_False) (erule bindM_OkE, blast)
    have none: "\<forall>p. c \<le> p \<and> p < wr_off s \<longrightarrow> cover all p = None"
      using Cons.prems(8) ok(3) seg_ok_le[OF ok(1)] by (force simp: cover_None in_seg_def)
    have st: "disk w1 = disk w" "y = (wr_off s, bytes_of ?G 0 (wr_off s))"
      using copy_gap[where h = "Pair (wr_off s)", OF assms(1,2) _ cs g _ none Cons.prems(9)]
        Cons.prems(4,6) gap_ok_exact[OF _ assms(3), of ?ob c "wr_off s"] False by auto
    then have ob: "obj_bytes b k w1 = ?ob" by (simp add: obj_bytes_def)
    have gap: "gap_ok ?ob limit tot (wr_end s)" using Cons.prems(7) by simp
    show ?thesis
    proof (cases "?to > wr_off s")
      case True
      have sl: "seg_slice s (wr_off s) ?to = bytes_of ?G (wr_off s) ?to"
      proof -
        have "seg_slice s (wr_off s) ?to = bytes_of (seg_byte s) (wr_off s) ?to"
          by (rule seg_slice_bytes[OF ok(1)]) (use True in auto)
        also have "\<dots> = bytes_of ?G (wr_off s) ?to"
          by (rule bytes_of_cong) (use Cons.prems(8) cs in \<open>simp add: flush_byte_def in_seg_def\<close>)
        finally show ?thesis .
      qed
      have run: "assemble b k tot limit ?to (bytes_of ?G 0 ?to) ss w1 = (Ok (c', buf'), w')"
        using r st(2) True sl bytes_of_split[of 0 "wr_off s" ?to ?G] Cons.prems(4) cs by simp
      have g2: "gap_ok ?ob limit tot ?to" using gap by (auto simp: gap_ok_def)
      have "disk w' = disk w1 \<and> 0 \<le> c' \<and> c' \<le> tot \<and> gap_ok (obj_bytes b k w1) limit tot c' \<and>
         buf' = bytes_of (flush_byte all (obj_bytes b k w1) limit) 0 c' \<and>
         (\<forall>p. c' \<le> p \<and> p < tot \<longrightarrow> cover all p = None)"
      proof (cases "wr_end s \<le> tot")
        case le: True
        show ?thesis
          by (rule Cons.IH[OF run ok(2)])
            (use ok(3) Cons.prems(4,7,8) cs True le ob g2 in \<open>auto simp: in_seg_def less_imp_le\<close>)
      next
        case gt: False
        then have to: "?to = tot" by simp
        have "assemble b k tot limit tot (bytes_of ?G 0 tot) ss w1 = (Ok (tot, bytes_of ?G 0 tot), w1)"
          using ok(3) gt by (cases ss) (auto simp: returnM_def)
        with run to have "c' = tot" "buf' = bytes_of ?G 0 tot" "w' = w1" by auto
        then show ?thesis using ob g2 to Cons.prems(4,5) by auto
      qed
      then show ?thesis using st(1) ob by simp
    next
      case no: False
      then have e: "wr_end s = wr_off s" using seg_ok_le[OF ok(1)] False by auto
      have run: "assemble b k tot limit (wr_off s) (bytes_of ?G 0 (wr_off s)) ss w1 = (Ok (c', buf'), w')"
        using r no unfolding st(2) by (simp only: prod.case if_False)
      have "disk w' = disk w1 \<and> 0 \<le> c' \<and> c' \<le> tot \<and> gap_ok (obj_bytes b k w1) limit tot c' \<and>
         buf' = bytes_of (flush_byte all (obj_bytes b k w1) limit) 0 c' \<and>
         (\<forall>p. c' \<le> p \<and> p < tot \<longrightarrow> cover all p = None)"
        by (rule Cons.IH[OF run ok(2)])
          (use ok(3) Cons.prems(4,7,8) cs e ob gap False in \<open>auto simp: in_seg_def less_imp_le\<close>)
      then show ?thesis using st(1) ob by simp
    qed
  qed
qed


lemma storagePut_bytes:
  assumes "plain b" "plain k" "storagePut b k x w = (Ok u, w')"
  shows "obj_bytes b k w' = Some x \<and> wdb w' = wdb w"
  using assms
  by (auto simp: storagePut_def faulty_cases liftDisk_def localPut_def resolve_plain obj_bytes_def
      split: if_splits)

text \<open>
  When a flush writes the file as its cache describes it: nothing was cut off, or the object reaches
  up to the point of truncation and no written segment ends strictly between it and the end of the
  file.
\<close>

definition flush_exact :: "writeSpec \<Rightarrow> byte list option \<Rightarrow> bool" where
  "flush_exact spec ob \<longleftrightarrow> objLimitOf spec = ws_size spec \<or>
     ((case ob of None \<Rightarrow> True | Some x \<Rightarrow> objLimitOf spec \<le> int (length x)) \<and>
      (\<forall>s\<in>set (ws_segments spec). wr_end s \<le> objLimitOf spec \<or> ws_size spec \<le> wr_end s))"

definition flush_content :: "writeSpec \<Rightarrow> byte list option \<Rightarrow> byte list" where
  "flush_content spec ob =
     bytes_of (flush_byte (ws_segments spec) ob (objLimitOf spec)) 0 (ws_size spec)"

lemma objLimitOf_le: "objLimitOf spec \<le> ws_size spec"
  by (simp add: objLimitOf_def)

section \<open>Lemmas: reading\<close>

definition covered :: "writeRange list \<Rightarrow> int \<Rightarrow> int \<Rightarrow> byte list" where
  "covered rs from to = map (\<lambda>p. the (cover rs p)) (filter (\<lambda>p. cover rs p \<noteq> None) [from..to - 1])"

lemma covered_split: "a \<le> b \<Longrightarrow> b \<le> c \<Longrightarrow> covered rs a c = covered rs a b @ covered rs b c"
  by (cases "b = c") (simp_all add: covered_def upto_split1[of a b "c - 1"])

lemma covered_cong: "(\<And>p. a \<le> p \<Longrightarrow> p < b \<Longrightarrow> cover rs p = cover ss p) \<Longrightarrow> covered rs a b = covered ss a b"
  unfolding covered_def by (intro map_cong filter_cong) auto

lemma covered_none: "(\<And>p. a \<le> p \<Longrightarrow> p < b \<Longrightarrow> cover rs p = None) \<Longrightarrow> covered rs a b = []"
  by (auto simp: covered_def filter_empty_conv)

lemma covered_bytes: "(\<And>p. a \<le> p \<Longrightarrow> p < b \<Longrightarrow> cover rs p = Some (g p)) \<Longrightarrow> covered rs a b = bytes_of g a b"
proof -
  assume c: "\<And>p. a \<le> p \<Longrightarrow> p < b \<Longrightarrow> cover rs p = Some (g p)"
  then have "filter (\<lambda>p. cover rs p \<noteq> None) [a..b - 1] = [a..b - 1]" by (auto simp: filter_id_conv)
  with c show ?thesis by (simp add: covered_def bytes_of_def)
qed

lemma read_loop_eq: "tbl_ok ss \<Longrightarrow> cursor \<le> en \<Longrightarrow> read_loop cursor en ss = covered ss cursor en"
proof (induction ss arbitrary: cursor)
  case Nil
  then show ?case by (simp add: covered_def)
next
  case (Cons s ss)
  have ok: "seg_ok s" "tbl_ok ss" "\<forall>t\<in>set ss. wr_end s < wr_off t" using Cons.prems by (simp_all add: tbl_ok_Cons)
  have low: "p \<le> wr_end s \<Longrightarrow> cover ss p = None" for p
    using ok(3) by (force simp: cover_None in_seg_def)
  have skip: "covered (s # ss) cursor en = covered ss cursor en" if "\<And>p. cursor \<le> p \<Longrightarrow> p < en \<Longrightarrow> \<not> in_seg p s"
    by (rule covered_cong) (use that in simp)
  let ?f = "max cursor (wr_off s)" and ?t = "min (wr_end s) en"
  consider "wr_end s \<le> cursor" | "\<not> wr_end s \<le> cursor" "wr_off s \<ge> en"
    | "\<not> wr_end s \<le> cursor" "\<not> wr_off s \<ge> en" "\<not> ?t > ?f"
    | "\<not> wr_end s \<le> cursor" "\<not> wr_off s \<ge> en" "?t > ?f" by blast
  then show ?case
  proof cases
    case 1
    then show ?thesis using Cons ok skip by (simp add: in_seg_def)
  next
    case 2
    then have "covered (s # ss) cursor en = []"
      using seg_ok_le[OF ok(1)] low by (intro covered_none) (auto simp: in_seg_def)
    with 2 show ?thesis by simp
  next
    case 3
    then have "cursor \<le> p \<Longrightarrow> p < en \<Longrightarrow> \<not> in_seg p s" for p by (auto simp: in_seg_def)
    then have "covered (s # ss) cursor en = covered ss cursor en" by (rule skip)
    moreover have "read_loop cursor en (s # ss) = read_loop cursor en ss"
      unfolding read_loop.simps Let_def using 3 by (simp only: if_False)
    ultimately show ?thesis using Cons.IH[OF ok(2) Cons.prems(2)] by simp
  next
    case 4
    have "covered (s # ss) cursor ?f = []"
      by (rule covered_none) (use low 4 in \<open>auto simp: in_seg_def\<close>)
    moreover have "covered (s # ss) ?f ?t = seg_slice s ?f ?t"
      using 4 ok(1) by (subst seg_slice_bytes) (auto intro!: covered_bytes simp: in_seg_def)
    moreover have "covered (s # ss) ?t en = covered ss ?t en"
      by (rule covered_cong) (auto simp: in_seg_def)
    moreover have "read_loop ?t en ss = covered ss ?t en" by (rule Cons.IH[OF ok(2)]) simp
    ultimately show ?thesis
      using 4 Cons.prems(2) covered_split[of cursor ?f en "s # ss"] covered_split[of ?f ?t en "s # ss"]
      by (simp add: Let_def)
  qed
qed

lemma length_filter_full: "length (filter P xs) = length xs \<longleftrightarrow> (\<forall>x\<in>set xs. P x)"
  by (induction xs) (auto simp: dest: order.strict_trans2, metis Suc_n_not_le_n length_filter_le)

section \<open>The sorting of the segments as an interface\<close>

text \<open>
  sort.Slice promises a sorted permutation and no more.  On a table whose offsets all differ that is
  enough: any such sorting merges to the same table.
\<close>

locale segment_sort =
  fixes srt :: "writeRange list \<Rightarrow> writeRange list"
  assumes srt_perm: "mset (srt rs) = mset rs"
    and srt_sorted: "sorted (map wr_off (srt rs))"
begin

lemma srt_unique:
  assumes "distinct (map wr_off rs)"
  shows "srt rs = sort_key wr_off rs"
proof -
  have "distinct (map wr_off (srt rs))"
    using assms srt_perm[of rs] by (metis mset_eq_imp_distinct_iff mset_map)
  moreover have "set (srt rs) = set rs" using srt_perm by (metis set_mset_mset)
  ultimately have "sort_key wr_off rs = srt rs"
    using assms by (intro properties_for_sort_key srt_perm srt_sorted) (simp add: filter_key_one)
  then show ?thesis by simp
qed

lemma merge_any: "distinct (map wr_off rs) \<Longrightarrow> merge_with srt rs = mergeLocked rs"
  by (simp add: merge_with_def mergeLocked_def srt_unique)

end

interpretation stable: segment_sort "sort_key wr_off"
  by unfold_locales simp_all

section \<open>Properties\<close>





definition sample_spec :: writeSpec where
  "sample_spec = \<lparr>ws_size = 5, ws_truncateAt = -1, ws_segments = [seg_of 1 [8, 9]], ws_dirty = True\<rparr>"

definition sample_world :: world where
  "sample_world = calm_world empty_db (\<lambda>p. if p = storageRoot @ [''b'', ''k''] then Some [1, 2, 3, 4] else None)"


text \<open>Outside that condition the assembled object can be wrong: a file cut to nothing, written at
  its start and then extended is stored too long, because the gap behind the point of truncation is
  counted from that point.\<close>

lemma FlushToStorage_overlong:
  "let spec = \<lparr>ws_size = 5, ws_truncateAt = 0, ws_segments = [seg_of 0 [8, 9]], ws_dirty = True\<rparr> in
   obj_bytes ''b'' ''k'' (snd (FlushToStorage ''b'' ''k'' spec NewWriteBackCache sample_world)) =
     Some [8, 9, 0, 0, 0, 0, 0]"
  by code_simp

text \<open>A read is served from the cache exactly when every position of the range is cached, and
  then it returns the cached bytes; otherwise the caller goes to the object.\<close>

lemma ReadRange_spec:
  assumes "tbl_ok (wc_ranges c)" "0 \<le> len"
  shows "ReadRange off len c =
    (if \<forall>p. off \<le> p \<and> p < off + len \<longrightarrow> cover (wc_ranges c) p \<noteq> None
     then Some (bytes_of (\<lambda>p. the (cover (wc_ranges c) p)) off (off + len)) else None)"
proof -
  let ?ps = "[off..off + len - 1]" and ?c = "\<lambda>p. cover (wc_ranges c) p \<noteq> None"
  have r: "read_loop off (off + len) (wc_ranges c) = covered (wc_ranges c) off (off + len)"
    using read_loop_eq assms by simp
  have "int (length (filter ?c ?ps)) = len \<longleftrightarrow> length (filter ?c ?ps) = length ?ps"
    using assms(2) by auto
  also have "\<dots> \<longleftrightarrow> (\<forall>p. off \<le> p \<and> p < off + len \<longrightarrow> ?c p)"
    unfolding length_filter_full by auto
  finally have e: "int (length (covered (wc_ranges c) off (off + len))) = len \<longleftrightarrow> (\<forall>p. off \<le> p \<and> p < off + len \<longrightarrow> ?c p)"
    by (simp add: covered_def)
  show ?thesis
  proof (cases "\<forall>p. off \<le> p \<and> p < off + len \<longrightarrow> ?c p")
    case True
    then have "covered (wc_ranges c) off (off + len) = bytes_of (\<lambda>p. the (cover (wc_ranges c) p)) off (off + len)"
      by (intro covered_bytes) auto
    with True r e show ?thesis by (simp add: ReadRange_def)
  next
    case False
    then have "int (length (covered (wc_ranges c) off (off + len))) \<noteq> len" using e by blast
    with False r show ?thesis by (auto simp: ReadRange_def)
  qed
qed

definition sample_cache :: WriteBackCache where
  "sample_cache = snd (ApplyWrite 2 [7, 8] (snd (ApplyWrite 4 [1] NewWriteBackCache)))"

lemma ReadRange_spec_witness:
  "ReadRange 3 2 sample_cache = Some [8, 1] \<and> ReadRange 3 3 sample_cache = None"
proof -
  have r: "wc_ranges sample_cache = [\<lparr>wr_off = 2, wr_end = 5, wr_data = [7, 8, 1]\<rparr>]"
    unfolding sample_cache_def by code_simp
  have ok: "tbl_ok (wc_ranges sample_cache)" by (simp add: r tbl_ok_Cons seg_ok_def)
  have "ReadRange 3 2 sample_cache = Some (bytes_of (\<lambda>p. the (cover (wc_ranges sample_cache) p)) 3 (3 + 2))"
    using ReadRange_spec[OF ok, of 2 3] by (auto simp: r in_seg_def split: if_splits)
  moreover have "bytes_of (\<lambda>p. the (cover (wc_ranges sample_cache) p)) 3 (3 + 2) = [8, 1]"
    unfolding r by code_simp
  moreover have "ReadRange 3 3 sample_cache = None"
    using ReadRange_spec[OF ok, of 3 3] by (auto simp: r in_seg_def split: if_splits)
  ultimately show ?thesis by simp
qed

end
