(* ===== verification/Invariant.thy ===== *)
theory Invariant
  imports Paths Quota Visibility
begin

text \<open>
  The invariant of the database that every operation of the service keeps, also when database and
  storage calls fail: the directory tree, the keys and sizes of the files, the unique names, and the
  accounting of the quotas.
\<close>

section \<open>The invariant\<close>

text \<open>The bytes of the file rows, live or in the recycle bin, that satisfy a predicate.\<close>

definition fsum :: "(File \<Rightarrow> bool) \<Rightarrow> db \<Rightarrow> int" where
  "fsum P d = sum_list (map fil_FileSize (filter P (rows (files d))))"

definition files_ok :: "db \<Rightarrow> bool" where
  "files_ok d \<longleftrightarrow> 0 < seq (files d) \<and> distinct (map fil_ID (rows (files d))) \<and>
     (\<forall>r\<in>set (rows (files d)). 0 < fil_ID r \<and> fil_ID r < seq (files d) \<and> 0 \<le> fil_FileSize r)"

definition names_ok :: "db \<Rightarrow> bool" where
  "names_ok d \<longleftrightarrow> unique_live live_fil file_key (files d) \<and> unique_live live_fld folder_key (folders d)"

text \<open>
  The use recorded for a live bucket and for a live user is not negative and exceeds the bytes of its file rows by
  at most what is owed: B and U give, per bucket and per user, the bytes that the running operation
  has removed and not yet given back (or, negative, stored and not yet booked).
\<close>

definition acct :: "(nat \<Rightarrow> int) \<Rightarrow> (nat \<Rightarrow> int) \<Rightarrow> db \<Rightarrow> bool" where
  "acct B U d \<longleftrightarrow>
     (\<forall>b\<in>set (rows (buckets d)). live_bkt b \<longrightarrow> 0 \<le> bkt_UsedSpace b \<and>
        bkt_UsedSpace b \<le> fsum (\<lambda>f. fil_BucketID f = bkt_ID b) d + B (bkt_ID b)) \<and>
     (\<forall>u\<in>set (rows (users d)). live_usr u \<longrightarrow> 0 \<le> usr_UsedSpace u \<and>
        usr_UsedSpace u \<le> fsum (\<lambda>f. fil_UploadedBy f = usr_ID u) d + U (usr_ID u))"

definition owing :: "(nat \<Rightarrow> int) \<Rightarrow> (nat \<Rightarrow> int) \<Rightarrow> db \<Rightarrow> bool" where
  "owing B U d \<longleftrightarrow> tree_inv d \<and> files_ok d \<and> names_ok d \<and> acct B U d"

definition db_inv :: "db \<Rightarrow> bool" where
  "db_inv d \<longleftrightarrow> owing (\<lambda>_. 0) (\<lambda>_. 0) d"

lemma db_inv_tree: "db_inv d \<Longrightarrow> tree_inv d"
  by (simp add: db_inv_def owing_def)

lemma db_inv_acyclic: "db_inv d \<Longrightarrow> acyclic (parent_rel d)"
  by (simp add: db_inv_def owing_def tree_inv_def)

section \<open>Tables the invariant does not speak of\<close>

lemma parent_rel_other [simp]:
  "parent_rel (d\<lparr>users := t1\<rparr>) = parent_rel d" "parent_rel (d\<lparr>buckets := t2\<rparr>) = parent_rel d"
  "parent_rel (d\<lparr>files := t3\<rparr>) = parent_rel d" "parent_rel (d\<lparr>groups := t4\<rparr>) = parent_rel d"
  "parent_rel (d\<lparr>members := t5\<rparr>) = parent_rel d" "parent_rel (d\<lparr>shares := t6\<rparr>) = parent_rel d"
  "parent_rel (d\<lparr>deleteTasks := t7\<rparr>) = parent_rel d" "parent_rel (d\<lparr>copyTasks := t8\<rparr>) = parent_rel d"
  "parent_rel (d\<lparr>tokens := t9\<rparr>) = parent_rel d"
  "parent_rel (d\<lparr>downloads := u1\<rparr>) = parent_rel d"
  by (simp_all add: parent_rel_def)

lemma fsum_other [simp]:
  "fsum P (d\<lparr>users := t1\<rparr>) = fsum P d" "fsum P (d\<lparr>buckets := t2\<rparr>) = fsum P d"
  "fsum P (d\<lparr>folders := t3\<rparr>) = fsum P d" "fsum P (d\<lparr>groups := t4\<rparr>) = fsum P d"
  "fsum P (d\<lparr>members := t5\<rparr>) = fsum P d" "fsum P (d\<lparr>shares := t6\<rparr>) = fsum P d"
  "fsum P (d\<lparr>deleteTasks := t7\<rparr>) = fsum P d" "fsum P (d\<lparr>copyTasks := t8\<rparr>) = fsum P d"
  "fsum P (d\<lparr>tokens := t9\<rparr>) = fsum P d"
  "fsum P (d\<lparr>downloads := u1\<rparr>) = fsum P d"
  by (simp_all add: fsum_def)

lemmas inv_defs = db_inv_def owing_def tree_inv_def files_ok_def names_ok_def acct_def

lemma tree_inv_other [simp]:
  "tree_inv (d\<lparr>groups := t0\<rparr>) = tree_inv d"
  "tree_inv (d\<lparr>members := t1\<rparr>) = tree_inv d"
  "tree_inv (d\<lparr>shares := t2\<rparr>) = tree_inv d"
  "tree_inv (d\<lparr>deleteTasks := t3\<rparr>) = tree_inv d"
  "tree_inv (d\<lparr>copyTasks := t4\<rparr>) = tree_inv d"
  "tree_inv (d\<lparr>tokens := t5\<rparr>) = tree_inv d"
  "tree_inv (d\<lparr>downloads := u1\<rparr>) = tree_inv d"
  "tree_inv (d\<lparr>users := t6\<rparr>) = tree_inv d"
  "tree_inv (d\<lparr>buckets := t7\<rparr>) = tree_inv d"
  "tree_inv (d\<lparr>files := t8\<rparr>) = tree_inv d"
  unfolding tree_inv_def by simp_all

lemma files_ok_other [simp]:
  "files_ok (d\<lparr>groups := t0\<rparr>) = files_ok d"
  "files_ok (d\<lparr>members := t1\<rparr>) = files_ok d"
  "files_ok (d\<lparr>shares := t2\<rparr>) = files_ok d"
  "files_ok (d\<lparr>deleteTasks := t3\<rparr>) = files_ok d"
  "files_ok (d\<lparr>copyTasks := t4\<rparr>) = files_ok d"
  "files_ok (d\<lparr>tokens := t5\<rparr>) = files_ok d"
  "files_ok (d\<lparr>downloads := u1\<rparr>) = files_ok d"
  "files_ok (d\<lparr>users := t6\<rparr>) = files_ok d"
  "files_ok (d\<lparr>buckets := t7\<rparr>) = files_ok d"
  "files_ok (d\<lparr>folders := t8\<rparr>) = files_ok d"
  unfolding files_ok_def by simp_all

lemma names_ok_other [simp]:
  "names_ok (d\<lparr>groups := t0\<rparr>) = names_ok d"
  "names_ok (d\<lparr>members := t1\<rparr>) = names_ok d"
  "names_ok (d\<lparr>shares := t2\<rparr>) = names_ok d"
  "names_ok (d\<lparr>deleteTasks := t3\<rparr>) = names_ok d"
  "names_ok (d\<lparr>copyTasks := t4\<rparr>) = names_ok d"
  "names_ok (d\<lparr>tokens := t5\<rparr>) = names_ok d"
  "names_ok (d\<lparr>downloads := u1\<rparr>) = names_ok d"
  "names_ok (d\<lparr>users := t6\<rparr>) = names_ok d"
  "names_ok (d\<lparr>buckets := t7\<rparr>) = names_ok d"
  unfolding names_ok_def by simp_all

lemma acct_other [simp]:
  "acct B U (d\<lparr>groups := t0\<rparr>) = acct B U d"
  "acct B U (d\<lparr>members := t1\<rparr>) = acct B U d"
  "acct B U (d\<lparr>shares := t2\<rparr>) = acct B U d"
  "acct B U (d\<lparr>deleteTasks := t3\<rparr>) = acct B U d"
  "acct B U (d\<lparr>copyTasks := t4\<rparr>) = acct B U d"
  "acct B U (d\<lparr>tokens := t5\<rparr>) = acct B U d"
  "acct B U (d\<lparr>downloads := u1\<rparr>) = acct B U d"
  "acct B U (d\<lparr>folders := t6\<rparr>) = acct B U d"
  unfolding acct_def by simp_all

lemma owing_other [simp]:
  "owing B U (d\<lparr>groups := t0\<rparr>) = owing B U d"
  "owing B U (d\<lparr>members := t1\<rparr>) = owing B U d"
  "owing B U (d\<lparr>shares := t2\<rparr>) = owing B U d"
  "owing B U (d\<lparr>deleteTasks := t3\<rparr>) = owing B U d"
  "owing B U (d\<lparr>copyTasks := t4\<rparr>) = owing B U d"
  "owing B U (d\<lparr>tokens := t5\<rparr>) = owing B U d"
  "owing B U (d\<lparr>downloads := u1\<rparr>) = owing B U d"
  unfolding owing_def by simp_all

lemma db_inv_other [simp]:
  "db_inv (d\<lparr>groups := t0\<rparr>) = db_inv d"
  "db_inv (d\<lparr>members := t1\<rparr>) = db_inv d"
  "db_inv (d\<lparr>shares := t2\<rparr>) = db_inv d"
  "db_inv (d\<lparr>deleteTasks := t3\<rparr>) = db_inv d"
  "db_inv (d\<lparr>copyTasks := t4\<rparr>) = db_inv d"
  "db_inv (d\<lparr>tokens := t5\<rparr>) = db_inv d"
  "db_inv (d\<lparr>downloads := u1\<rparr>) = db_inv d"
  unfolding db_inv_def by simp_all

section \<open>Sums over file rows\<close>

lemma sum_map_filter_split:
  "sum_list (map f (filter P xs)) =
   sum_list (map f (filter (\<lambda>r. P r \<and> Q r) xs)) + sum_list (map f (filter (\<lambda>r. P r \<and> \<not> Q r) xs))"
  for f :: "'a \<Rightarrow> int"
  by (induction xs) auto

lemma fsum_nonneg: "files_ok d \<Longrightarrow> 0 \<le> fsum P d"
  unfolding fsum_def files_ok_def by (intro sum_list_nonneg) auto

lemma fsum_split: "fsum P d = fsum (\<lambda>r. P r \<and> Q r) d + fsum (\<lambda>r. P r \<and> \<not> Q r) d"
  unfolding fsum_def by (rule sum_map_filter_split)

lemma fsum_mono: "files_ok d \<Longrightarrow> (\<And>r. r \<in> set (rows (files d)) \<Longrightarrow> P r \<Longrightarrow> Q r) \<Longrightarrow> fsum P d \<le> fsum Q d"
proof -
  assume d: "files_ok d" and PQ: "\<And>r. r \<in> set (rows (files d)) \<Longrightarrow> P r \<Longrightarrow> Q r"
  have "fsum Q d = fsum (\<lambda>r. Q r \<and> P r) d + fsum (\<lambda>r. Q r \<and> \<not> P r) d" by (rule fsum_split)
  moreover have "fsum (\<lambda>r. Q r \<and> P r) d = fsum P d"
    unfolding fsum_def by (rule arg_cong[where f = "\<lambda>xs. sum_list (map fil_FileSize xs)"], rule filter_cong) (use PQ in auto)
  ultimately show ?thesis using fsum_nonneg[OF d] by simp
qed

lemma fsum_cong: "(\<And>r. r \<in> set (rows (files d)) \<Longrightarrow> P r \<longleftrightarrow> Q r) \<Longrightarrow> fsum P d = fsum Q d"
  unfolding fsum_def by (rule arg_cong[where f = "\<lambda>xs. sum_list (map fil_FileSize xs)"], rule filter_cong) auto

lemma fsum_delete [simp]: "fsum P (d\<lparr>files := tdelete Q (files d)\<rparr>) = fsum (\<lambda>r. P r \<and> \<not> Q r) d"
  unfolding fsum_def by (simp add: tdelete_def, rule arg_cong[where f = "\<lambda>xs. sum_list (map fil_FileSize xs)"])
    (auto intro: filter_cong)

lemma fsum_create: "fsum P (d\<lparr>files := tcreate mk (files d)\<rparr>) =
    fsum P d + (if P (mk (seq (files d))) then fil_FileSize (mk (seq (files d))) else 0)"
  by (simp add: fsum_def tcreate_def)

text \<open>The one row with a key.\<close>

lemma fsum_one:
  assumes "files_ok d" "f \<in> set (rows (files d))"
  shows "fsum (\<lambda>r. P r \<and> fil_ID r = fil_ID f) d = (if P f then fil_FileSize f else 0)"
proof -
  have d: "distinct (map fil_ID (rows (files d)))" using assms(1) by (simp add: files_ok_def)
  have "filter (\<lambda>r. fil_ID f = fil_ID r) (rows (files d)) = [f]" by (rule filter_key_one[OF d assms(2)])
  moreover have "filter (\<lambda>r. P r \<and> fil_ID r = fil_ID f) (rows (files d)) =
      filter P (filter (\<lambda>r. fil_ID f = fil_ID r) (rows (files d)))"
    by (auto intro: filter_cong)
  ultimately have "filter (\<lambda>r. P r \<and> fil_ID r = fil_ID f) (rows (files d)) = filter P [f]" by simp
  then show ?thesis by (simp add: fsum_def)
qed

section \<open>Accounting\<close>

lemma acct_mono: "acct B U d \<Longrightarrow> (\<And>i. B i \<le> B' i) \<Longrightarrow> (\<And>i. U i \<le> U' i) \<Longrightarrow> acct B' U' d"
  unfolding acct_def by (meson add_left_mono order_trans)

lemma owing_mono: "owing B U d \<Longrightarrow> (\<And>i. B i \<le> B' i) \<Longrightarrow> (\<And>i. U i \<le> U' i) \<Longrightarrow> owing B' U' d"
  unfolding owing_def using acct_mono by blast

lemma owing_db_inv: "owing B U d \<Longrightarrow> (\<And>i. B i \<le> 0) \<Longrightarrow> (\<And>i. U i \<le> 0) \<Longrightarrow> db_inv d"
  unfolding db_inv_def by (rule owing_mono)

text \<open>One bucket or user among all.\<close>

definition only :: "nat \<Rightarrow> int \<Rightarrow> nat \<Rightarrow> int" where
  "only i n = (\<lambda>j. if j = i then n else 0)"

lemma only_self [simp]: "only i n i = n"
  by (simp add: only_def)

lemma only_zero [simp]: "only i 0 = (\<lambda>_. 0)"
  by (simp add: only_def)

subsection \<open>New file rows\<close>

lemma files_ok_create:
  "files_ok d \<Longrightarrow> fil_ID (mk (seq (files d))) = seq (files d) \<Longrightarrow> 0 \<le> fil_FileSize (mk (seq (files d))) \<Longrightarrow>
   files_ok (d\<lparr>files := tcreate mk (files d)\<rparr>)"
  by (auto simp: files_ok_def tcreate_def less_Suc_eq)

text \<open>A file row whose bytes are not yet booked.\<close>

definition pending :: "File \<Rightarrow> db \<Rightarrow> bool" where
  "pending f d \<longleftrightarrow> owing (only (fil_BucketID f) (- fil_FileSize f)) (only (fil_UploadedBy f) (- fil_FileSize f)) d \<and>
     f \<in> set (rows (files d))"

lemma create_pending:
  assumes "db_inv d" "fil_ID (mk (seq (files d))) = seq (files d)" "0 \<le> fil_FileSize (mk (seq (files d)))"
    and "unique_live live_fil file_key (tcreate mk (files d))"
  shows "pending (mk (seq (files d))) (d\<lparr>files := tcreate mk (files d)\<rparr>)"
  using assms files_ok_create[of d mk]
  by (auto simp: pending_def db_inv_def owing_def names_ok_def acct_def fsum_create only_def rows_tables)

lemma pending_nonneg: "pending f d \<Longrightarrow> 0 \<le> fil_FileSize f"
  by (auto simp: pending_def owing_def files_ok_def)

lemma pending_inv: "pending f d \<Longrightarrow> db_inv d"
  using pending_nonneg[of f d] unfolding pending_def by (auto intro: owing_db_inv simp: only_def)

subsection \<open>Booking and giving back\<close>

lemma owing_add_bucket_used:
  assumes "owing B U d" "0 \<le> n"
  shows "owing (\<lambda>j. B j + only b n j) U (add_bucket_used b n d)"
  using assms unfolding owing_def acct_def add_bucket_used_def
  by (auto simp: rows_tables only_def)

lemma owing_add_user_used:
  assumes "owing B U d" "0 \<le> n"
  shows "owing B (\<lambda>j. U j + only u n j) (add_user_used u n d)"
  using assms unfolding owing_def acct_def add_user_used_def
  by (auto simp: rows_tables only_def)


lemma live_used [simp]: "live_bkt (b\<lparr>bkt_UsedSpace := n\<rparr>) = live_bkt b" "live_usr (u\<lparr>usr_UsedSpace := n\<rparr>) = live_usr u"
  by (simp_all add: live_defs)

lemma less_used: "n \<le> x + y \<Longrightarrow> 0 \<le> x \<Longrightarrow> m \<le> y \<Longrightarrow> 0 \<le> less_used n m \<and> less_used n m \<le> x + (y - m)"
  by (auto simp: less_used_def)

lemma owing_set_bucket_used:
  assumes "owing B U d" "the_bucket b d = Some r" "m \<le> B b"
  shows "owing (\<lambda>j. B j - only b m j) U (set_bucket_used b (less_used (bkt_UsedSpace r) m) d)"
proof -
  have r: "r \<in> set (rows (buckets d))" "live_bkt r" "bkt_ID r = b"
    using assms(2) by (auto simp: the_bucket_def dest: tfirst_Some)
  have "0 \<le> less_used (bkt_UsedSpace r) m \<and>
      less_used (bkt_UsedSpace r) m \<le> fsum (\<lambda>f. fil_BucketID f = b) d + (B b - m)"
    using assms r fsum_nonneg[of d] by (intro less_used) (auto simp: owing_def acct_def)
  then show ?thesis
    using assms(1) unfolding owing_def acct_def set_bucket_used_def by (auto simp: rows_tables only_def)
qed

lemma owing_return_user_used:
  assumes "owing B U d" "m \<le> U u"
  shows "owing B (\<lambda>j. U j - only u m j) (return_user_used u m d)"
proof -
  have eq: "return_user_used u m d = d\<lparr>users := tupdate (\<lambda>r. live_usr r \<and> usr_ID r = u)
     (\<lambda>r. r\<lparr>usr_UsedSpace := less_used (usr_UsedSpace r) m\<rparr>) (users d)\<rparr>"
    by (simp add: return_user_used_def less_used_def)
  have "0 \<le> less_used (usr_UsedSpace r) m \<and>
      less_used (usr_UsedSpace r) m \<le> fsum (\<lambda>f. fil_UploadedBy f = u) d + (U u - m)"
    if "r \<in> set (rows (users d))" "live_usr r" "usr_ID r = u" for r
    using assms that fsum_nonneg[of d] by (intro less_used) (auto simp: owing_def acct_def)
  then show ?thesis
    using assms(1) unfolding owing_def acct_def eq by (auto simp: rows_tables only_def)
qed

text \<open>Without a live row there is nothing to give back.\<close>

lemma owing_no_bucket: "owing B U d \<Longrightarrow> the_bucket b d = None \<Longrightarrow> owing (\<lambda>j. B j - only b m j) U d"
  unfolding owing_def acct_def the_bucket_def tfirst_None by (auto simp: only_def)

subsection \<open>Removed file rows\<close>

lemma files_ok_delete: "files_ok d \<Longrightarrow> files_ok (d\<lparr>files := tdelete Q (files d)\<rparr>)"
  by (auto simp: files_ok_def tdelete_def distinct_map_filter)

lemma unique_live_delete: "unique_live live key t \<Longrightarrow> unique_live live key (tdelete Q t)"
proof -
  have "filter live (filter (\<lambda>r. \<not> Q r) (rows t)) = filter (\<lambda>r. \<not> Q r) (filter live (rows t))"
    by (auto intro: filter_cong)
  then show "unique_live live key t \<Longrightarrow> unique_live live key (tdelete Q t)"
    unfolding unique_live_def rows_tables by (simp only: distinct_map_filter)
qed

lemma fsum_rest: "fsum (\<lambda>r. P r \<and> \<not> Q r) d = fsum P d - fsum (\<lambda>r. P r \<and> Q r) d"
  using fsum_split[of P d Q] by simp

lemma owing_delete_files:
  assumes "owing B U d"
  shows "owing (\<lambda>i. B i + fsum (\<lambda>f. fil_BucketID f = i \<and> Q f) d)
     (\<lambda>i. U i + fsum (\<lambda>f. fil_UploadedBy f = i \<and> Q f) d) (d\<lparr>files := tdelete Q (files d)\<rparr>)"
  using assms unfolding owing_def acct_def fsum_delete fsum_rest
  by (auto simp: files_ok_delete names_ok_def unique_live_delete)

text \<open>One file row, known or gone.\<close>

definition row_or_gone :: "File \<Rightarrow> db \<Rightarrow> bool" where
  "row_or_gone f d \<longleftrightarrow> 0 \<le> fil_FileSize f \<and> (\<forall>r\<in>set (rows (files d)). fil_ID r = fil_ID f \<longrightarrow>
     fil_FileSize r = fil_FileSize f \<and> fil_BucketID r = fil_BucketID f \<and> fil_UploadedBy r = fil_UploadedBy f)"

lemma fsum_key_le:
  assumes "files_ok d" "row_or_gone f d"
  shows "fsum (\<lambda>r. P r \<and> fil_ID r = fil_ID f) d \<le> (if \<exists>r\<in>set (rows (files d)). P r \<and> fil_ID r = fil_ID f then fil_FileSize f else 0)"
proof (cases "\<exists>r\<in>set (rows (files d)). P r \<and> fil_ID r = fil_ID f")
  case True
  then obtain r where r: "r \<in> set (rows (files d))" "P r" "fil_ID r = fil_ID f" by blast
  show ?thesis using fsum_one[OF assms(1) r(1), of P] r assms(2) by (auto simp: row_or_gone_def)
next
  case False
  then have "fsum (\<lambda>r. P r \<and> fil_ID r = fil_ID f) d = fsum (\<lambda>_. False) d" by (intro fsum_cong) auto
  then show ?thesis by (simp add: fsum_def if_not_P[OF False])
qed

lemma owing_delete_file:
  assumes "owing B U d" "row_or_gone f d"
  shows "owing (\<lambda>i. B i + only (fil_BucketID f) (fil_FileSize f) i) (\<lambda>i. U i + only (fil_UploadedBy f) (fil_FileSize f) i)
     (d\<lparr>files := tdelete (\<lambda>r. fil_ID r = fil_ID f) (files d)\<rparr>)"
proof (rule owing_mono[OF owing_delete_files[OF assms(1)]])
  have ok: "files_ok d" using assms(1) by (simp add: owing_def)
  have nn: "0 \<le> fil_FileSize f" using assms(2) by (simp add: row_or_gone_def)
  fix i
  show "B i + fsum (\<lambda>r. fil_BucketID r = i \<and> fil_ID r = fil_ID f) d \<le> B i + only (fil_BucketID f) (fil_FileSize f) i"
    using fsum_key_le[OF ok assms(2), of "\<lambda>r. fil_BucketID r = i"] assms(2) nn
    by (auto simp: only_def row_or_gone_def split: if_splits)
  show "U i + fsum (\<lambda>r. fil_UploadedBy r = i \<and> fil_ID r = fil_ID f) d \<le> U i + only (fil_UploadedBy f) (fil_FileSize f) i"
    using fsum_key_le[OF ok assms(2), of "\<lambda>r. fil_UploadedBy r = i"] assms(2) nn
    by (auto simp: only_def row_or_gone_def split: if_splits)
qed

lemma files_ok_key: "files_ok d \<Longrightarrow> f \<in> set (rows (files d)) \<Longrightarrow> r \<in> set (rows (files d)) \<Longrightarrow> fil_ID r = fil_ID f \<Longrightarrow> r = f"
  by (auto simp: files_ok_def distinct_map dest: inj_onD)

lemma known_row: "owing B U d \<Longrightarrow> f \<in> set (rows (files d)) \<Longrightarrow> row_or_gone f d"
  unfolding owing_def row_or_gone_def using files_ok_key[of d f] by (auto simp: files_ok_def)

lemma pending_row: "pending f d \<Longrightarrow> row_or_gone f d"
  using known_row by (auto simp: pending_def)

text \<open>The compensation for a pending row.\<close>

lemma pending_delete:
  assumes "pending f d"
  shows "db_inv (d\<lparr>files := tdelete (\<lambda>r. fil_ID r = fil_ID f) (files d)\<rparr>)"
  by (rule owing_db_inv, rule owing_delete_file[OF _ pending_row[OF assms]])
    (use assms in \<open>auto simp: pending_def only_def\<close>)

text \<open>The booking of a pending row.\<close>

lemma pending_book:
  assumes "pending f d"
  shows "db_inv (add_user_used (fil_UploadedBy f) (fil_FileSize f) (add_bucket_used (fil_BucketID f) (fil_FileSize f) d))"
  by (rule owing_db_inv, rule owing_add_user_used, rule owing_add_bucket_used)
    (use assms pending_nonneg[OF assms] in \<open>auto simp: pending_def only_def\<close>)


section \<open>Updates in place\<close>

lemma sum_map_update:
  "(\<And>r. r \<in> set xs \<Longrightarrow> Q r \<Longrightarrow> P (g r) = P r \<and> f (g r) = f r) \<Longrightarrow>
   sum_list (map f (filter P (map (\<lambda>r. if Q r then g r else r) xs))) = sum_list (map f (filter P xs))"
  for f :: "'a \<Rightarrow> int"
  by (induction xs) auto

lemma fsum_update:
  "(\<And>r. r \<in> set (rows (files d)) \<Longrightarrow> Q r \<Longrightarrow> P (g r) = P r \<and> fil_FileSize (g r) = fil_FileSize r) \<Longrightarrow>
   fsum P (d\<lparr>files := tupdate Q g (files d)\<rparr>) = fsum P d"
  unfolding fsum_def by (simp add: rows_tables sum_map_update)

lemma map_update_same:
  "(\<And>r. r \<in> set (rows t) \<Longrightarrow> Q r \<Longrightarrow> f (g r) = f r) \<Longrightarrow> map f (rows (tupdate Q g t)) = map f (rows t)"
  by (simp add: rows_tables)

lemma ball_update:
  "\<forall>r\<in>set (rows t). X r \<Longrightarrow> (\<And>r. r \<in> set (rows t) \<Longrightarrow> Q r \<Longrightarrow> X r \<Longrightarrow> X (g r)) \<Longrightarrow>
   \<forall>r\<in>set (rows (tupdate Q g t)). X r"
  by (auto simp: rows_tables)

lemma owing_update_files:
  assumes "owing B U d" "unique_live live_fil file_key (tupdate Q g (files d))"
    and keep: "\<And>r. r \<in> set (rows (files d)) \<Longrightarrow> Q r \<Longrightarrow> fil_ID (g r) = fil_ID r \<and> fil_FileSize (g r) = fil_FileSize r \<and>
      fil_BucketID (g r) = fil_BucketID r \<and> fil_UploadedBy (g r) = fil_UploadedBy r"
  shows "owing B U (d\<lparr>files := tupdate Q g (files d)\<rparr>)"
proof -
  let ?d = "d\<lparr>files := tupdate Q g (files d)\<rparr>"
  have "map fil_ID (rows (tupdate Q g (files d))) = map fil_ID (rows (files d))"
    using keep by (intro map_update_same) auto
  moreover have "files_ok d" using assms(1) by (simp add: owing_def)
  ultimately have "files_ok ?d" using keep unfolding files_ok_def
    by (simp add: rows_tables(4), intro ball_update) auto
  moreover have "fsum (\<lambda>f. fil_BucketID f = i) ?d = fsum (\<lambda>f. fil_BucketID f = i) d" for i
    using keep by (intro fsum_update) auto
  moreover have "fsum (\<lambda>f. fil_UploadedBy f = i) ?d = fsum (\<lambda>f. fil_UploadedBy f = i) d" for i
    using keep by (intro fsum_update) auto
  ultimately show ?thesis using assms(1,2) by (simp add: owing_def names_ok_def acct_def)
qed

lemma distinct_filter_update:
  "distinct (map k (filter l xs)) \<Longrightarrow> (\<And>r. r \<in> set xs \<Longrightarrow> Q r \<Longrightarrow> k (g r) = k r \<and> (l (g r) \<longrightarrow> l r)) \<Longrightarrow>
   distinct (map k (filter l (map (\<lambda>r. if Q r then g r else r) xs)))"
proof (induction xs)
  case (Cons a xs)
  let ?h = "\<lambda>r. if Q r then g r else r"
  have h: "k (?h r) = k r \<and> (l (?h r) \<longrightarrow> l r)" if "r \<in> set (a # xs)" for r using Cons.prems(2) that by auto
  have "k ` set (filter l (map ?h xs)) \<subseteq> k ` set (filter l xs)" using h by fastforce
  moreover have "distinct (map k (filter l (map ?h xs)))" using Cons by (intro Cons.IH) (auto split: if_splits)
  ultimately show ?case using Cons.prems(1) h[of a] by (auto split: if_splits)
qed simp

lemma unique_live_update:
  "unique_live live key t \<Longrightarrow> (\<And>r. r \<in> set (rows t) \<Longrightarrow> Q r \<Longrightarrow> key (g r) = key r \<and> (live (g r) \<longrightarrow> live r)) \<Longrightarrow>
   unique_live live key (tupdate Q g t)"
  unfolding unique_live_def rows_tables by (rule distinct_filter_update)

lemma names_okD: "owing B U d \<Longrightarrow> unique_live live_fil file_key (files d) \<and> unique_live live_fld folder_key (folders d)"
  by (simp add: owing_def names_ok_def)

subsection \<open>Folders\<close>

lemma acct_folders [simp]: "acct B U (d\<lparr>folders := t\<rparr>) = acct B U d"
  by (simp add: acct_def)

lemma names_ok_folders: "names_ok d \<Longrightarrow> unique_live live_fld folder_key t \<Longrightarrow> names_ok (d\<lparr>folders := t\<rparr>)"
  by (simp add: names_ok_def)

lemma owing_folders: "owing B U d \<Longrightarrow> tree_inv (d\<lparr>folders := t\<rparr>) \<Longrightarrow> unique_live live_fld folder_key t \<Longrightarrow>
    owing B U (d\<lparr>folders := t\<rparr>)"
  by (simp add: owing_def names_ok_folders)

lemma parent_rel_update_same:
  assumes "\<And>r. r \<in> set (rows (folders d)) \<Longrightarrow> Q r \<Longrightarrow> fld_ID (g r) = fld_ID r \<and> fld_ParentID (g r) = fld_ParentID r"
  shows "parent_rel (d\<lparr>folders := tupdate Q g (folders d)\<rparr>) = parent_rel d"
proof -
  have "parent_rel e = set (map (\<lambda>r. (fld_ID r, fld_ParentID r)) (rows (folders e)))" for e
    by (simp add: parent_rel_def)
  moreover have "map (\<lambda>r. (fld_ID r, fld_ParentID r)) (rows (tupdate Q g (folders d))) =
      map (\<lambda>r. (fld_ID r, fld_ParentID r)) (rows (folders d))"
    using assms by (intro map_update_same) simp
  moreover have "folders (d\<lparr>folders := tupdate Q g (folders d)\<rparr>) = tupdate Q g (folders d)" by simp
  ultimately show ?thesis by (simp only:)
qed

lemma owing_update_folders:
  assumes "owing B U d" "unique_live live_fld folder_key (tupdate Q g (folders d))"
    and keep: "\<And>r. r \<in> set (rows (folders d)) \<Longrightarrow> Q r \<Longrightarrow> fld_ID (g r) = fld_ID r \<and> fld_ParentID (g r) = fld_ParentID r"
  shows "owing B U (d\<lparr>folders := tupdate Q g (folders d)\<rparr>)"
proof (rule owing_folders[OF assms(1) _ assms(2)])
  have "map fld_ID (rows (tupdate Q g (folders d))) = map fld_ID (rows (folders d))"
    using keep by (intro map_update_same) auto
  moreover have "tree_inv d" using assms(1) by (simp add: owing_def)
  moreover have "parent_rel (d\<lparr>folders := tupdate Q g (folders d)\<rparr>) = parent_rel d"
    using keep by (rule parent_rel_update_same)
  ultimately show "tree_inv (d\<lparr>folders := tupdate Q g (folders d)\<rparr>)"
    using keep unfolding tree_inv_def by (simp add: rows_tables(4), intro ball_update) auto
qed

lemma parent_rel_delete: "parent_rel (d\<lparr>folders := tdelete Q (folders d)\<rparr>) \<subseteq> parent_rel d"
  by (auto simp: parent_rel_def rows_tables)

lemma owing_delete_folders:
  assumes "owing B U d"
  shows "owing B U (d\<lparr>folders := tdelete Q (folders d)\<rparr>)"
proof (rule owing_folders[OF assms])
  have "tree_inv d" using assms by (simp add: owing_def)
  then show "tree_inv (d\<lparr>folders := tdelete Q (folders d)\<rparr>)"
    using acyclic_subset[OF _ parent_rel_delete] unfolding tree_inv_def by (auto simp: rows_tables distinct_map_filter)
qed (use names_okD[OF assms] unique_live_delete in blast)

text \<open>A folder moves below p when p does not lie below it.\<close>

lemma owing_move_folder:
  assumes "owing B U d" "unique_live live_fld folder_key (tupdate (\<lambda>r. live_fld r \<and> fld_ID r = i) g (folders d))"
    and p: "p < seq (folders d)" "(p, i) \<notin> (parent_rel d)\<^sup>*"
    and g: "\<And>r. fld_ID (g r) = fld_ID r \<and> fld_ParentID (g r) = p"
  shows "owing B U (d\<lparr>folders := tupdate (\<lambda>r. live_fld r \<and> fld_ID r = i) g (folders d)\<rparr>)"
proof (rule owing_folders[OF assms(1) _ assms(2)])
  let ?Q = "\<lambda>r. live_fld r \<and> fld_ID r = i"
  have t: "tree_inv d" using assms(1) by (simp add: owing_def)
  have "parent_rel (d\<lparr>folders := tupdate ?Q g (folders d)\<rparr>) \<subseteq> insert (i, p) (parent_rel d)"
    using g by (auto simp: parent_rel_def rows_tables)
  moreover have "acyclic (insert (i, p) (parent_rel d))" using t p(2) by (simp add: acyclic_insert tree_inv_def)
  ultimately have "acyclic (parent_rel (d\<lparr>folders := tupdate ?Q g (folders d)\<rparr>))" by (rule acyclic_subset[rotated])
  moreover have "map fld_ID (rows (tupdate ?Q g (folders d))) = map fld_ID (rows (folders d))"
    using g by (intro map_update_same) auto
  ultimately show "tree_inv (d\<lparr>folders := tupdate ?Q g (folders d)\<rparr>)"
    using t p(1) g unfolding tree_inv_def by (simp add: rows_tables(4), intro ball_update) auto
qed

subsection \<open>Buckets and users\<close>

lemma owing_buckets:
  assumes "owing B U d"
    and "\<And>b'. b' \<in> set (rows t) \<Longrightarrow> live_bkt b' \<Longrightarrow> (\<exists>b\<in>set (rows (buckets d)). live_bkt b \<and> bkt_ID b = bkt_ID b' \<and>
      bkt_UsedSpace b = bkt_UsedSpace b') \<or> bkt_UsedSpace b' = 0 \<and> 0 \<le> B (bkt_ID b')"
  shows "owing B U (d\<lparr>buckets := t\<rparr>)"
proof -
  have "0 \<le> bkt_UsedSpace b' \<and> bkt_UsedSpace b' \<le> fsum (\<lambda>f. fil_BucketID f = bkt_ID b') d + B (bkt_ID b')"
    if b': "b' \<in> set (rows t)" "live_bkt b'" for b'
    using assms(2)[OF b']
  proof (elim disjE bexE conjE)
    fix b assume "b \<in> set (rows (buckets d))" "live_bkt b" "bkt_ID b = bkt_ID b'" "bkt_UsedSpace b = bkt_UsedSpace b'"
    then show ?thesis using assms(1) by (auto simp: owing_def acct_def)
  next
    assume "bkt_UsedSpace b' = 0" "0 \<le> B (bkt_ID b')"
    then show ?thesis using assms(1) fsum_nonneg[of d] by (simp add: owing_def)
  qed
  then show ?thesis using assms(1) by (simp add: owing_def acct_def)
qed

lemma owing_users:
  assumes "owing B U d"
    and "\<And>u'. u' \<in> set (rows t) \<Longrightarrow> live_usr u' \<Longrightarrow> (\<exists>u\<in>set (rows (users d)). live_usr u \<and> usr_ID u = usr_ID u' \<and>
      usr_UsedSpace u = usr_UsedSpace u') \<or> usr_UsedSpace u' = 0 \<and> 0 \<le> U (usr_ID u')"
  shows "owing B U (d\<lparr>users := t\<rparr>)"
proof -
  have "0 \<le> usr_UsedSpace u' \<and> usr_UsedSpace u' \<le> fsum (\<lambda>f. fil_UploadedBy f = usr_ID u') d + U (usr_ID u')"
    if u': "u' \<in> set (rows t)" "live_usr u'" for u'
    using assms(2)[OF u']
  proof (elim disjE bexE conjE)
    fix u assume "u \<in> set (rows (users d))" "live_usr u" "usr_ID u = usr_ID u'" "usr_UsedSpace u = usr_UsedSpace u'"
    then show ?thesis using assms(1) by (auto simp: owing_def acct_def)
  next
    assume "usr_UsedSpace u' = 0" "0 \<le> U (usr_ID u')"
    then show ?thesis using assms(1) fsum_nonneg[of d] by (simp add: owing_def)
  qed
  then show ?thesis using assms(1) by (simp add: owing_def acct_def)
qed

section \<open>Growing the folder table\<close>

text \<open>The contract of the path resolution, on the invariant together with a fact K of the files.\<close>

interpretation inv: folder_growth "\<lambda>d. db_inv d \<and> K (files d)" for K
proof
  fix d f
  assume d: "db_inv d \<and> K (files d)"
  then have t: "tree_inv d" by (simp add: db_inv_tree)
  show "f \<in> set (rows (folders d)) \<Longrightarrow> fld_ID f < seq (folders d)" using t by (rule tree_inv_folder)
  show "0 < seq (folders d)" using t by (simp add: tree_inv_def)
  fix p mk
  assume "p < seq (folders d)" "fresh_folder mk p" "unique_live live_fld folder_key (tcreate mk (folders d))"
  then show "db_inv (d\<lparr>folders := tcreate mk (folders d)\<rparr>) \<and> K (files (d\<lparr>folders := tcreate mk (folders d)\<rparr>))"
    using d t unfolding db_inv_def
    by (auto intro!: owing_folders tree_inv_create simp: fresh_folder_def)
qed

lemma sample_inv: "db_inv sample_db"
  by (simp add: db_inv_def owing_def tree_inv_def sample_acyclic, simp add: files_ok_def names_ok_def unique_live_def
      acct_def fsum_def sample_rows folder_key_def file_key_def ToLower_def lower_char_def)

section \<open>Reads and walks leave the disk alone\<close>

lemma disk_reads [pres]:
  "preserves (onDisk D) (GetBucket i)" "preserves (onDisk D) (GetUser i)" "preserves (onDisk D) (UserGroupIDs i)"
  "preserves (onDisk D) (CheckBucketUsable i)" "preserves (onDisk D) (loadFile b i)" "preserves (onDisk D) (loadFolder b i)"
  "preserves (onDisk D) (nameExists b f n)" "preserves (onDisk D) (CheckBucketQuota b z)" "preserves (onDisk D) (CheckUserQuota u)"
  unfolding GetBucket_def GetUser_def UserGroupIDs_def CheckBucketUsable_def loadFile_def loadFolder_def nameExists_def
    CheckBucketQuota_def CheckUserQuota_def orRecordNotFound_def orNotFound_def Let_def
  by (intro pres)+

lemma disk_uniqueName [pres]: "preserves (onDisk D) (uniqueName b f n)"
proof -
  have "preserves (onDisk D) (uniqueName_loop k m b f n)" for k m
    by (induction k arbitrary: m) (auto intro!: pres)
  then show ?thesis unfolding uniqueName_def by (intro pres)
qed

lemma disk_walks [pres]:
  "preserves (onDisk D) (checkAncestorsUsable b f)" "preserves (onDisk D) (checkAncestorsAccessTree u b f)"
  "preserves (onDisk D) (CheckAncestorsWritable b f)"
proof -
  have 1: "preserves (onDisk D) (checkAncestorsUsable_loop n b c)" for n c
  proof (induction n arbitrary: c)
    case 0
    show ?case by (subst checkAncestorsUsable_loop.simps) (simp add: pres)
  next
    case (Suc n)
    then show ?case by (subst checkAncestorsUsable_loop.simps) (auto intro!: pres)
  qed
  have 2: "preserves (onDisk D) (accessTree_loop n u b c seen us g)" for n c seen us g
  proof (induction n arbitrary: c seen us g)
    case 0
    show ?case by (subst accessTree_loop.simps) (simp add: pres)
  next
    case (Suc n)
    then show ?case by (subst accessTree_loop.simps) (auto intro!: pres simp: checkItemAccessTree_def)
  qed
  have 3: "preserves (onDisk D) (writable_loop n b c seen)" for n c seen
  proof (induction n arbitrary: c seen)
    case 0
    show ?case by (subst writable_loop.simps) (simp add: pres)
  next
    case (Suc n)
    then show ?case by (subst writable_loop.simps) (auto intro!: pres)
  qed
  show "preserves (onDisk D) (checkAncestorsUsable b f)" "preserves (onDisk D) (checkAncestorsAccessTree u b f)"
    "preserves (onDisk D) (CheckAncestorsWritable b f)"
    unfolding checkAncestorsUsable_def checkAncestorsAccessTree_def CheckAncestorsWritable_def folderCount_def
    by (intro pres 1 2 3)+
qed

lemma disk_ResolveDirPath [pres]: "preserves (onDisk D) (ResolveDirPath u b p)"
proof -
  have "preserves (onDisk D) (resolve_segs u b q ss)" for q ss
    by (induction ss arbitrary: q) (auto intro!: pres)
  then show ?thesis unfolding ResolveDirPath_def Let_def by (intro pres)
qed

text \<open>Setting the groups an item is visible to keeps the invariant.\<close>

lemma db_inv_set_vis: "db_inv d \<Longrightarrow> db_inv (set_file_vis b i js d)" "db_inv d \<Longrightarrow> db_inv (set_folder_vis b i js d)"
  unfolding db_inv_def set_file_vis_def set_folder_vis_def
  by ((rule owing_update_files owing_update_folders, assumption, rule unique_live_update);
      auto dest: names_okD simp: file_key_def folder_key_def live_fil_def live_fld_def)+

lemma pres_SetVisibility [pres]:
  "preserves (onDB db_inv) (SetFileVisibility u b f gs)" "preserves (onDB db_inv) (SetFolderVisibility u b f gs)"
  unfolding SetFileVisibility_def SetFolderVisibility_def setItemVisibility_def normalizeAndCheckGroups_def
    check_own_groups_def Let_def
  by (intro pres pres_exec db_inv_set_vis; assumption)+

end
