(* ===== verification/Upload.thy ===== *)
theory Upload
  imports Invariant BucketCoder
begin

text \<open>
  Writing into a bucket: upload of a file and creation of a directory (server/file_upload.go), and the
  removal of a file to the recycle bin (server/file_delete.go).  The sample MD5 of the content and the
  MIME table of the platform are parameters.
\<close>

section \<open>Operations\<close>

record UploadFileArg =
  upl_UserID :: nat
  upl_BucketID :: nat
  upl_DirPath :: string
  upl_Filename :: string
  upl_FileType :: string
  upl_Reader :: "byte list"

text \<open>Buffering of the stream in a temporary file, which may fail.\<close>

definition bufferStream :: "byte list \<Rightarrow> int W" where
  "bufferStream data = faulty (returnM (int (length data)))"

definition new_file :: "nat \<Rightarrow> nat \<Rightarrow> string \<Rightarrow> int \<Rightarrow> string \<Rightarrow> string \<Rightarrow> nat \<Rightarrow> string \<Rightarrow> time \<Rightarrow> nat \<Rightarrow> File" where
  "new_file bucketID folderID name sz ftype md5 userID vis now i =
     \<lparr>fil_ID = i, fil_CreatedAt = now, fil_DeletedAt = None, fil_BucketID = bucketID, fil_FolderID = folderID,
      fil_Name = name, fil_NameLower = ToLower name, fil_FileSize = sz, fil_FileType = ftype, fil_MD5 = md5,
      fil_UploadedBy = userID, fil_VisibleToGroups = vis\<rparr>"

text \<open>
  The insert of a row whose name was free a moment ago: when the unique index refuses it, once more
  under a new name; mk gives the row for a name, again the one for a new name.
\<close>

definition createRenaming ::
  "(string \<Rightarrow> nat \<Rightarrow> File) \<Rightarrow> (string \<Rightarrow> nat \<Rightarrow> File) \<Rightarrow> nat \<Rightarrow> nat \<Rightarrow> string \<Rightarrow> File W" where
  "createRenaming mk again bucketID folderID name =
     bindM (createFile (mk name)) (\<lambda>r.
     case r of
       Some f \<Rightarrow> returnM f
     | None \<Rightarrow>
         bindM (tryM (uniqueName bucketID folderID name)) (\<lambda>u.
         case u of
           Inl _ \<Rightarrow> throwM ErrConflict
         | Inr name' \<Rightarrow>
             if name' \<noteq> name then
               bindM (createFile (again name')) (\<lambda>r2.
               case r2 of Some f \<Rightarrow> returnM f | None \<Rightarrow> throwM ErrInternal)
             else throwM ErrConflict))"

definition dropFileRow :: "nat \<Rightarrow> unit W" where
  "dropFileRow i = ignoreM (execDB (\<lambda>d. d\<lparr>files := tdelete (\<lambda>r. fil_ID r = i) (files d)\<rparr>))"

text \<open>The use of the bucket and of the user grows in one transaction.\<close>

definition bookUsage :: "nat \<Rightarrow> nat \<Rightarrow> int \<Rightarrow> unit W" where
  "bookUsage bucketID userID sz =
     transaction (thenM (execDB (add_bucket_used bucketID sz)) (addUserUsedSpace userID sz))"

text \<open>Object, then accounting; what was done is undone when a step fails.\<close>

definition putAndBook :: "nat \<Rightarrow> nat \<Rightarrow> byte list \<Rightarrow> int \<Rightarrow> File \<Rightarrow> File W" where
  "putAndBook bucketID userID data sz f =
     bindM (tryM (storagePut (BucketEncoder bucketID) (objectKeyForFile (fil_ID f)) data)) (\<lambda>p.
     case p of
       Inl e \<Rightarrow> thenM (dropFileRow (fil_ID f)) (throwM e)
     | Inr _ \<Rightarrow>
         bindM (tryM (bookUsage bucketID userID sz)) (\<lambda>b.
         case b of
           Inl _ \<Rightarrow>
             thenM (ignoreM (storageDelete (BucketEncoder bucketID) (objectKeyForFile (fil_ID f))))
            (thenM (dropFileRow (fil_ID f)) (throwM ErrInternal))
         | Inr _ \<Rightarrow> returnM f))"

definition createUploaded ::
  "(byte list \<Rightarrow> string) \<Rightarrow> (string \<Rightarrow> string) \<Rightarrow> UploadFileArg \<Rightarrow> nat \<Rightarrow> string \<Rightarrow> int \<Rightarrow> File W" where
  "createUploaded md5 mimeOf a folderID name sz =
     bindM (getsM clock) (\<lambda>now.
     let row = (\<lambda>nm ft. new_file (upl_BucketID a) folderID nm sz ft (md5 (upl_Reader a)) (upl_UserID a) [] now) in
     bindM (createRenaming (\<lambda>nm. row nm (upl_FileType a)) (\<lambda>nm. row nm (mimeOf (Ext nm)))
       (upl_BucketID a) folderID name) (\<lambda>f.
     putAndBook (upl_BucketID a) (upl_UserID a) (upl_Reader a) sz f))"

definition UploadFile :: "(byte list \<Rightarrow> string) \<Rightarrow> (string \<Rightarrow> string) \<Rightarrow> UploadFileArg \<Rightarrow> File W" where
  "UploadFile md5 mimeOf a =
     bindM (liftM (NormalizeDirPath (upl_DirPath a))) (\<lambda>dir.
     let name = TrimSpace (upl_Filename a) in
     bindM (liftM (ValidateItemName name)) (\<lambda>_.
     bindM (CheckBucketUsable (upl_BucketID a)) (\<lambda>_.
     bindM (ResolveDirPath (upl_UserID a) (upl_BucketID a) dir) (\<lambda>folderID.
     bindM (checkAncestorsAccessTree (upl_UserID a) (upl_BucketID a) folderID) (\<lambda>_.
     bindM (CheckAncestorsWritable (upl_BucketID a) folderID) (\<lambda>_.
     bindM (uniqueName (upl_BucketID a) folderID name) (\<lambda>name.
     bindM (bufferStream (upl_Reader a)) (\<lambda>sz.
     bindM (CheckBucketQuota (upl_BucketID a) sz) (\<lambda>_.
     bindM (CheckUserQuota (upl_UserID a)) (\<lambda>_.
     createUploaded md5 mimeOf a folderID name sz))))))))))"

text \<open>
  CreateDir: the parent chain is created, the last segment is returned when it exists already.
\<close>

definition CreateDir :: "nat \<Rightarrow> nat \<Rightarrow> string \<Rightarrow> Folder W" where
  "CreateDir userID bucketID dirPath =
     bindM (liftM (NormalizeDirPath dirPath)) (\<lambda>dir.
     if dir = ''/'' then throwM ErrInvalidInput
     else
       bindM (CheckBucketUsable bucketID) (\<lambda>_.
       let segs = split_on (CHR ''/'') dir;
           parentDir = (if length segs > 1 then join_with (CHR ''/'') (butlast segs) else []) in
       bindM (ResolveDirPath userID bucketID parentDir) (\<lambda>parentID.
       bindM (checkAncestorsAccessTree userID bucketID parentID) (\<lambda>_.
       bindM (CheckAncestorsWritable bucketID parentID) (\<lambda>_.
       let name = last segs in
       bindM (liftM (ValidateItemName name)) (\<lambda>_.
       bindM (queryDB (child_named bucketID parentID name)) (\<lambda>exist.
       case exist of
         Some f \<Rightarrow>
           if fld_Isable f = FolderUnusable then throwM ErrNotFound
           else if fld_Isable f = FolderDeleting then throwM ErrForbidden
           else returnM f
       | None \<Rightarrow>
           bindM (nameExists bucketID parentID name) (\<lambda>ex.
           if ex then throwM ErrConflict
           else
             bindM (getsM clock) (\<lambda>now.
             bindM (createFolder (new_folder userID bucketID parentID name now)) (\<lambda>r.
             case r of None \<Rightarrow> throwM ErrConflict | Some f \<Rightarrow> returnM f))))))))))"

text \<open>gorm's soft delete of a live file, and the removal of the share links of an item.\<close>

definition soft_delete_files :: "nat set \<Rightarrow> time \<Rightarrow> db \<Rightarrow> db" where
  "soft_delete_files ids now d = d\<lparr>files := tupdate (\<lambda>r. live_fil r \<and> fil_ID r \<in> ids)
     (\<lambda>r. r\<lparr>fil_DeletedAt := Some now\<rparr>) (files d)\<rparr>"

definition drop_shares :: "nat set \<Rightarrow> string \<Rightarrow> db \<Rightarrow> db" where
  "drop_shares ids kind d = d\<lparr>shares := tdelete (\<lambda>r. shr_BucketItemID r \<in> ids \<and> shr_ItemType r = kind) (shares d)\<rparr>"

definition DeleteFile :: "nat \<Rightarrow> nat \<Rightarrow> nat \<Rightarrow> unit W" where
  "DeleteFile userID bucketID fileID =
     bindM (CheckBucketUsable bucketID) (\<lambda>_.
     bindM (loadFile bucketID fileID) (\<lambda>file.
     bindM (checkAncestorsUsable bucketID (fil_FolderID file)) (\<lambda>_.
     bindM (getsM clock) (\<lambda>now.
     transaction
       (thenM (execDB (soft_delete_files {fileID} now))
              (execDB (drop_shares {fileID} ItemKindFile)))))))"

section \<open>Lemmas: the invariant\<close>

lemma pres_ResolveDirPath_inv [pres]: "preserves (onDB db_inv) (ResolveDirPath u b p)"
  using inv.pres_ResolveDirPath[where K = "\<lambda>_. True"] by simp

lemma pres_bufferStream [pres]: "preserves (onDB J) (bufferStream x)"
  unfolding bufferStream_def by (rule valid_faulty) (auto intro: pres)

text \<open>A row that keys itself by the number it is given, of a size that is not negative.\<close>

definition fresh_file :: "(nat \<Rightarrow> File) \<Rightarrow> nat \<Rightarrow> nat \<Rightarrow> int \<Rightarrow> bool" where
  "fresh_file mk b u n \<longleftrightarrow> 0 \<le> n \<and> (\<forall>i. fil_ID (mk i) = i \<and> fil_FileSize (mk i) = n \<and> fil_BucketID (mk i) = b \<and>
     fil_UploadedBy (mk i) = u)"

lemma fresh_new_file [simp]: "fresh_file (new_file b p nm n ft m u vis now) b u n \<longleftrightarrow> 0 \<le> n"
  by (simp add: fresh_file_def new_file_def)

definition booked_for :: "nat \<Rightarrow> nat \<Rightarrow> int \<Rightarrow> File \<Rightarrow> db \<Rightarrow> bool" where
  "booked_for b u n f d \<longleftrightarrow> pending f d \<and> fil_FileSize f = n \<and> fil_BucketID f = b \<and> fil_UploadedBy f = u"

lemma valid_createFile:
  assumes "fresh_file mk b u n"
  shows "valid (onDB db_inv) (createFile mk)
     (\<lambda>r. onDB (\<lambda>d. case r of None \<Rightarrow> db_inv d | Some f \<Rightarrow> booked_for b u n f d)) (\<lambda>_. onDB db_inv)"
  unfolding createFile_def
  by (rule valid_tryExec)
    (use assms in \<open>auto simp: Let_def fresh_file_def booked_for_def intro!: create_pending split: if_splits\<close>)

lemma valid_createRenaming:
  assumes "\<And>nm. fresh_file (mk nm) b u n" "\<And>nm. fresh_file (again nm) b u n"
  shows "valid (onDB db_inv) (createRenaming mk again b' p nm) (\<lambda>f. onDB (booked_for b u n f)) (\<lambda>_. onDB db_inv)"
proof -
  have 2: "valid (onDB db_inv) (bindM (createFile (again nm'))
      (\<lambda>r2. case r2 of Some f \<Rightarrow> returnM f | None \<Rightarrow> throwM ErrInternal))
      (\<lambda>f. onDB (booked_for b u n f)) (\<lambda>_. onDB db_inv)" for nm'
    by (rule db_call[OF valid_createFile[OF assms(2)]], intro dbrules) auto
  have "valid (onDB db_inv) (bindM (tryM (uniqueName b' p nm)) (\<lambda>u'. case u' of
      Inl _ \<Rightarrow> throwM ErrConflict
    | Inr name' \<Rightarrow> if name' \<noteq> nm then bindM (createFile (again name'))
        (\<lambda>r2. case r2 of Some f \<Rightarrow> returnM f | None \<Rightarrow> throwM ErrInternal) else throwM ErrConflict))
      (\<lambda>f. onDB (booked_for b u n f)) (\<lambda>_. onDB db_inv)"
    by (rule db_keep_try[OF pres_uniqueName]) (intro dbrules valid_onDB_pre[OF 2]; simp)
  then show ?thesis
    unfolding createRenaming_def
    by (intro db_call[OF valid_createFile[OF assms(1)]] dbrules) (auto elim: valid_onDB_pre)
qed

lemma valid_dropFileRow:
  "valid (onDB (pending f)) (thenM (dropFileRow (fil_ID f)) (throwM e)) Q (\<lambda>_. onDB db_inv)"
  unfolding dropFileRow_def
  by (rule db_ignore_exec[where K = db_inv]) (auto intro: pending_inv pending_delete dbrules)

lemma valid_bookUsage:
  "valid (onDB (pending f)) (bookUsage (fil_BucketID f) (fil_UploadedBy f) (fil_FileSize f))
     (\<lambda>_. onDB db_inv) (\<lambda>_. onDB (pending f))"
  unfolding bookUsage_def addUserUsedSpace_def
proof (rule db_transaction_last, rule db_exec, rule db_if)
  let ?b = "add_bucket_used (fil_BucketID f) (fil_FileSize f)"
  assume "fil_FileSize f \<le> 0"
  then show "valid (onDB (\<lambda>d'. \<exists>d. pending f d \<and> d' = ?b d)) (returnM ()) (\<lambda>_. onDB db_inv) (\<lambda>_. onDB (\<lambda>_. True))"
    by (intro dbrules) (use pending_book pending_nonneg in
      \<open>fastforce intro: owing_db_inv owing_add_bucket_used simp: pending_def only_def\<close>)
next
  show "valid (onDB (\<lambda>d'. \<exists>d. pending f d \<and> d' = add_bucket_used (fil_BucketID f) (fil_FileSize f) d))
     (execDB (add_user_used (fil_UploadedBy f) (fil_FileSize f))) (\<lambda>_. onDB db_inv) (\<lambda>_. onDB (\<lambda>_. True))"
    by (intro db_exec_last) (auto intro: pending_book)
qed auto

lemma valid_putAndBook:
  "valid (onDB (booked_for b u n f)) (putAndBook b u x n f) (\<lambda>_. onDB db_inv) (\<lambda>_. onDB db_inv)"
proof (cases "fil_BucketID f = b \<and> fil_UploadedBy f = u \<and> fil_FileSize f = n")
  case True
  then have eq: "b = fil_BucketID f" "u = fil_UploadedBy f" "n = fil_FileSize f" by auto
  have 1: "valid (onDB (pending f)) (thenM (ignoreM (storageDelete k1 k2)) (thenM (dropFileRow (fil_ID f)) (throwM ErrInternal)))
     (\<lambda>_. onDB db_inv) (\<lambda>_. onDB db_inv)" for k1 k2
    by (rule db_keep_ignore[OF pres_storage(4) valid_dropFileRow])
  have 2: "valid (onDB (pending f)) (bindM (tryM (bookUsage (fil_BucketID f) (fil_UploadedBy f) (fil_FileSize f))) (\<lambda>b.
       case b of Inl _ \<Rightarrow> thenM (ignoreM (storageDelete k1 k2)) (thenM (dropFileRow (fil_ID f)) (throwM ErrInternal))
       | Inr _ \<Rightarrow> returnM f)) (\<lambda>_. onDB db_inv) (\<lambda>_. onDB db_inv)" for k1 k2
    by (rule db_try[OF valid_bookUsage]) (auto intro: 1 dbrules)
  show ?thesis
    unfolding putAndBook_def eq
    by (rule valid_onDB_pre[where J = "pending f"], rule db_keep_try[OF pres_storage(1)])
      (auto simp: booked_for_def intro!: dbrules valid_dropFileRow 2)
next
  case False
  then show ?thesis by (auto simp: valid_def onDB_def booked_for_def)
qed

lemma pres_createUploaded:
  "0 \<le> n \<Longrightarrow> preserves (onDB db_inv) (createUploaded md5 mimeOf a p nm n)"
  unfolding createUploaded_def Let_def
  by (intro pres_bind pres_gets db_call[OF valid_createRenaming valid_putAndBook]) auto

lemma bufferStream_nonneg:
  "(\<And>n. 0 \<le> n \<Longrightarrow> preserves I (k n)) \<Longrightarrow> preserves (onDB J) (bufferStream x) \<Longrightarrow> I = onDB J \<Longrightarrow>
   preserves I (bindM (bufferStream x) k)"
  by (auto simp: valid_def bindM_def bufferStream_def faulty_cases returnM_def onDB_def)

lemma pres_UploadFile [pres]: "preserves (onDB db_inv) (UploadFile md5 mimeOf a)"
  unfolding UploadFile_def Let_def
  by (intro bufferStream_nonneg[OF _ pres_bufferStream refl] pres_createUploaded pres)


lemma valid_ResolveDirPath_inv:
  "valid (onDB db_inv) (ResolveDirPath u b p) (\<lambda>i. onDB (\<lambda>d. db_inv d \<and> i < seq (folders d))) (\<lambda>_. onDB db_inv)"
  using inv.valid_ResolveDirPath[where K = "\<lambda>_. True"] by simp

lemma pres_createFolder_below:
  assumes "fresh_folder mk p"
  shows "valid (onDB (\<lambda>d. db_inv d \<and> p < seq (folders d))) (createFolder mk)
     (\<lambda>_. onDB (\<lambda>d. db_inv d \<and> p < seq (folders d))) (\<lambda>_. onDB (\<lambda>d. db_inv d \<and> p < seq (folders d)))"
  by (rule valid_onDB[OF inv.valid_createFolder[where K = "\<lambda>_. True", OF assms]]) auto

lemma valid_below:
  "preserves (onDB (\<lambda>d. db_inv d \<and> p < seq (folders d))) m \<Longrightarrow>
   valid (onDB (\<lambda>d. db_inv d \<and> p < seq (folders d))) m (\<lambda>_. onDB db_inv) (\<lambda>_. onDB db_inv)"
  by (rule valid_onDB[where J = "\<lambda>d. db_inv d \<and> p < seq (folders d)" and Q = "\<lambda>_ d. db_inv d \<and> p < seq (folders d)"
      and E = "\<lambda>_ d. db_inv d \<and> p < seq (folders d)"]) auto

lemma pres_CreateDir [pres]: "preserves (onDB db_inv) (CreateDir u b p)"
  unfolding CreateDir_def Let_def
  by (intro pres db_call[OF valid_ResolveDirPath_inv] valid_below pres_createFolder_below fresh_new_folder)

lemma owing_soft_delete:
  "owing B U d \<Longrightarrow> owing B U (soft_delete_files ids now d)"
  unfolding soft_delete_files_def
  by (rule owing_update_files)
    (auto intro!: unique_live_update dest: names_okD simp: file_key_def live_fil_def)

lemma owing_drop_shares [simp]: "owing B U (drop_shares ids k d) = owing B U d"
  by (simp add: drop_shares_def)

lemma pres_DeleteFile [pres]: "preserves (onDB db_inv) (DeleteFile u b f)"
  unfolding DeleteFile_def
  by (intro pres pres_exec) (auto simp: db_inv_def owing_soft_delete)

section \<open>Lemmas: termination\<close>

lemma total_store [ends_rules]:
  "total (bufferStream x)" "total (createRenaming mk again b p nm)" "total (dropFileRow i)" "total (bookUsage b u n)"
  "total (putAndBook b u x n f)" "total (createUploaded md5 mimeOf a p nm n)"
proof -
  show 1: "total (bufferStream x)" unfolding bufferStream_def by (rule ends_faulty) (simp add: returnM_def)
  show 2: "total (createRenaming mk again b p nm)" for mk again b p nm unfolding createRenaming_def by (intro ends_rules)
  show 3: "total (dropFileRow i)" for i unfolding dropFileRow_def by (intro ends_rules)
  show 4: "total (bookUsage b u n)" for b u n unfolding bookUsage_def by (intro ends_rules)
  show 5: "total (putAndBook b u x n f)" for b u x n f unfolding putAndBook_def by (intro ends_rules 3 4)
  show "total (createUploaded md5 mimeOf a p nm n)" unfolding createUploaded_def Let_def by (intro ends_rules 2 5)
qed

lemma total_UploadFile [ends_rules]: "total (UploadFile md5 mimeOf a)"
  unfolding UploadFile_def Let_def by (intro ends_rules)

lemma total_CreateDir [ends_rules]: "total (CreateDir u b p)"
  unfolding CreateDir_def Let_def by (intro ends_rules)


section \<open>What an upload does\<close>

text \<open>A directory a user may write into: its ancestors are there, usable, not being deleted, and visible.\<close>

definition dir_open :: "nat \<Rightarrow> nat \<Rightarrow> nat \<Rightarrow> db \<Rightarrow> bool" where
  "dir_open i b p d \<longleftrightarrow>
     (\<exists>fs. ancestors d b p = Some fs \<and> (\<forall>f\<in>set fs. fld_Isable f \<noteq> FolderUnusable \<and> walk_visible i d (fld_VisibleToGroups f))) \<and>
     (\<exists>fs. ancestors d b p = Some fs \<and> (\<forall>f\<in>set fs. fld_Isable f \<noteq> FolderUnusable \<and> fld_Isable f \<noteq> FolderDeleting))"

lemma liftDisk_OkD: "liftDisk g w = (Ok x, w') \<Longrightarrow> g (disk w) = Inr (disk w') \<and> wdb w' = wdb w"
  by (auto simp: liftDisk_def split: sum.splits)

lemma storagePut_OkD:
  "storagePut b k x w = (Ok y, w') \<Longrightarrow> wdb w' = wdb w \<and> localPut storageRoot b k x (disk w) = Inr (disk w')"
  by (auto simp: storagePut_def faulty_cases split: if_splits dest: liftDisk_OkD)

lemma localPut_Get: "localPut r b k x d = Inr d' \<Longrightarrow> localGet r b k d' = Inr x"
  by (auto simp: localPut_def localGet_def split: sum.splits)

lemma bookUsage_OkD:
  assumes "bookUsage b u n w = (Ok x, w')" "0 \<le> n"
  shows "wdb w' = add_user_used u n (add_bucket_used b n (wdb w)) \<and> disk w' = disk w"
proof -
  obtain v v' where v: "wdb v = wdb w" "disk v = disk w" "wdb w' = wdb v'" "disk w' = disk v'"
    and m: "thenM (execDB (add_bucket_used b n)) (addUserUsedSpace u n) v = (Ok x, v')"
    using transaction_OkD[OF assms(1)[unfolded bookUsage_def]] by blast
  from m show ?thesis
  proof (rule thenM_OkE)
    fix y v2 assume "execDB (add_bucket_used b n) v = (Ok y, v2)" "addUserUsedSpace u n v2 = (Ok x, v')"
    then show ?thesis
      using v assms(2) by (auto simp: addUserUsedSpace_def returnM_def split: if_splits dest!: execDB_OkD)
  qed
qed

lemma putAndBook_OkD:
  assumes "putAndBook b u x n f w = (Ok g, w')" "0 \<le> n"
  shows "g = f \<and> wdb w' = add_user_used u n (add_bucket_used b n (wdb w)) \<and>
    localPut storageRoot (BucketEncoder b) (objectKeyForFile (fil_ID f)) x (disk w) = Inr (disk w')"
proof -
  have nO: "thenM m (throwM e) v = (Ok y, v') \<Longrightarrow> False" for m e v y v'
    by (auto elim!: thenM_OkE simp: throwM_def)
  from assms(1)[unfolded putAndBook_def] obtain r v where
    r: "tryM (storagePut (BucketEncoder b) (objectKeyForFile (fil_ID f)) x) w = (Ok r, v)" and
    k: "(case r of Inl e \<Rightarrow> thenM (dropFileRow (fil_ID f)) (throwM e)
     | Inr _ \<Rightarrow> bindM (tryM (bookUsage b u n)) (\<lambda>c. case c of
           Inl _ \<Rightarrow> thenM (ignoreM (storageDelete (BucketEncoder b) (objectKeyForFile (fil_ID f))))
            (thenM (dropFileRow (fil_ID f)) (throwM ErrInternal))
         | Inr _ \<Rightarrow> returnM f)) v = (Ok g, w')"
    by (rule bindM_OkE)
  from k obtain y where y: "r = Inr y" by (cases r) (auto dest: nO)
  with k obtain c v2 where c: "tryM (bookUsage b u n) v = (Ok c, v2)" and
    k2: "(case c of Inl _ \<Rightarrow> thenM (ignoreM (storageDelete (BucketEncoder b) (objectKeyForFile (fil_ID f))))
            (thenM (dropFileRow (fil_ID f)) (throwM ErrInternal)) | Inr _ \<Rightarrow> returnM f) v2 = (Ok g, w')"
    by (auto elim: bindM_OkE)
  from k2 obtain z where z: "c = Inr z" and g: "g = f" "w' = v2"
    by (cases c) (auto simp: returnM_def elim!: thenM_OkE[of _ "thenM _ _"] dest: nO)
  show ?thesis
    using storagePut_OkD[OF tryM_InrD[OF r[unfolded y]]] bookUsage_OkD[OF tryM_InrD[OF c[unfolded z]] assms(2)] g
    by simp
qed

text \<open>A free name makes the first insert succeed.\<close>

lemma unique_live_create:
  assumes "unique_live live key t" "\<And>r. r \<in> set (rows t) \<Longrightarrow> live r \<Longrightarrow> key r \<noteq> key (mk (seq t))"
  shows "unique_live live key (tcreate mk t)"
  using assms by (fastforce simp: unique_live_def rows_tables)

lemma createFile_free:
  assumes "createFile mk w = (Ok r, w')" "unique_live live_fil file_key (files (wdb w))"
    and "file_key (mk (seq (files (wdb w)))) = (b, p, ToLower nm)" "\<not> name_taken b p nm (wdb w)"
  shows "r = Some (mk (seq (files (wdb w)))) \<and> wdb w' = (wdb w)\<lparr>files := tcreate mk (files (wdb w))\<rparr> \<and> disk w' = disk w"
proof -
  have "unique_live live_fil file_key (tcreate mk (files (wdb w)))"
    using assms(2-4) by (intro unique_live_create) (auto simp: name_taken_def file_named_def file_key_def)
  then show ?thesis
    using tryExecDB_OkD[OF assms(1)[unfolded createFile_def]] by (simp add: Let_def)
qed

lemma createRenaming_OkD:
  assumes "createRenaming mk again b p nm w = (Ok f, w')" "names_ok (wdb w)" "\<not> name_taken b p nm (wdb w)"
    and "\<And>i. file_key (mk nm i) = (b, p, ToLower nm)"
  shows "f = mk nm (seq (files (wdb w))) \<and> wdb w' = (wdb w)\<lparr>files := tcreate (mk nm) (files (wdb w))\<rparr> \<and> disk w' = disk w"
proof -
  from assms(1)[unfolded createRenaming_def] obtain r v where r: "createFile (mk nm) w = (Ok r, v)"
    and k: "(case r of Some f \<Rightarrow> returnM f | None \<Rightarrow> bindM (tryM (uniqueName b p nm)) (\<lambda>u. case u of
           Inl _ \<Rightarrow> throwM ErrConflict
         | Inr name' \<Rightarrow> if name' \<noteq> nm then bindM (createFile (again name')) (\<lambda>r2.
               case r2 of Some f \<Rightarrow> returnM f | None \<Rightarrow> throwM ErrInternal) else throwM ErrConflict)) v = (Ok f, w')"
    by (rule bindM_OkE)
  have "r = Some (mk nm (seq (files (wdb w)))) \<and> wdb v = (wdb w)\<lparr>files := tcreate (mk nm) (files (wdb w))\<rparr> \<and> disk v = disk w"
    by (rule createFile_free[OF r _ assms(4) assms(3)]) (use assms(2) in \<open>simp add: names_ok_def\<close>)
  with k show ?thesis by (auto simp: returnM_def)
qed


section \<open>Lemmas: what a successful upload does\<close>

lemma UploadFile_Ok:
  assumes "UploadFile md5 mimeOf a w = (Ok f, w')" "db_inv (wdb w)"
  shows "\<exists>d dir p nm now. NormalizeDirPath (upl_DirPath a) = Inr dir \<and> folders_ext (wdb w) d \<and>
    denotes d (upl_BucketID a) 0 (path_segs dir) p \<and> dir_open (upl_UserID a) (upl_BucketID a) p d \<and>
    bucket_admits (upl_BucketID a) (int (length (upl_Reader a))) d \<and> user_admits (upl_UserID a) d \<and>
    candidate (TrimSpace (upl_Filename a)) nm \<and> \<not> name_taken (upl_BucketID a) p nm d \<and>
    f = new_file (upl_BucketID a) p nm (int (length (upl_Reader a))) (upl_FileType a) (md5 (upl_Reader a))
          (upl_UserID a) [] now (seq (files (wdb w))) \<and>
    wdb w' = add_user_used (upl_UserID a) (fil_FileSize f) (add_bucket_used (upl_BucketID a) (fil_FileSize f)
          (d\<lparr>files := tcreate (\<lambda>_. f) (files d)\<rparr>)) \<and>
    localGet storageRoot (BucketEncoder (upl_BucketID a)) (objectKeyForFile (fil_ID f)) (disk w') = Inr (upl_Reader a)"
proof -
  let ?b = "upl_BucketID a" and ?u = "upl_UserID a" and ?n = "int (length (upl_Reader a))"
  from assms(1)[unfolded UploadFile_def Let_def]
  obtain dir w1 w2 bkt w3 p w4 w5 w6 nm w7 sz w8 w9 w10 t1 t2 t3 t4 t5 where
      1: "liftM (NormalizeDirPath (upl_DirPath a)) w = (Ok dir, w1)"
    and 2: "liftM (ValidateItemName (TrimSpace (upl_Filename a))) w1 = (Ok t1, w2)"
    and 3: "CheckBucketUsable ?b w2 = (Ok bkt, w3)"
    and 4: "ResolveDirPath ?u ?b dir w3 = (Ok p, w4)"
    and 5: "checkAncestorsAccessTree ?u ?b p w4 = (Ok t2, w5)"
    and 6: "CheckAncestorsWritable ?b p w5 = (Ok t3, w6)"
    and 7: "uniqueName ?b p (TrimSpace (upl_Filename a)) w6 = (Ok nm, w7)"
    and 8: "bufferStream (upl_Reader a) w7 = (Ok sz, w8)"
    and 9: "CheckBucketQuota ?b sz w8 = (Ok t4, w9)"
    and 10: "CheckUserQuota ?u w9 = (Ok t5, w10)"
    and 11: "createUploaded md5 mimeOf a p nm sz w10 = (Ok f, w')"
    by (elim bindM_OkE) blast
  have n: "NormalizeDirPath (upl_DirPath a) = Inr dir" "wdb w2 = wdb w"
    using liftM_OkD[OF 1] liftM_OkD[OF 2] by simp_all
  have d3: "wdb w3 = wdb w" using keep_OkD[OF pres_CheckBucketUsable 3] n by simp
  have inv4: "db_inv (wdb w4)"
    using valid_OkD[OF pres_ResolveDirPath_inv _ 4] assms(2) d3 by (simp add: onDB_def)
  have p: "denotes (wdb w4) ?b 0 (path_segs dir) p" "folders_ext (wdb w) (wdb w4)"
    using ResolveDirPath_Ok[OF 4] d3 by simp_all
  have acyc: "acyclic (parent_rel (wdb w4))" using inv4 by (rule db_inv_acyclic)
  have d5: "wdb w5 = wdb w4" using checkAncestorsAccessTree_Ok[OF 5 acyc] by simp
  have d6: "wdb w6 = wdb w4" using CheckAncestorsWritable_Ok[OF 6] acyc d5 by simp
  have opn: "dir_open ?u ?b p (wdb w4)"
    using checkAncestorsAccessTree_Ok[OF 5 acyc] CheckAncestorsWritable_Ok[OF 6] acyc d5 by (simp add: dir_open_def)
  have nm: "\<not> name_taken ?b p nm (wdb w4)" "candidate (TrimSpace (upl_Filename a)) nm" "wdb w7 = wdb w4"
    using valid_db_OkD[OF valid_uniqueName[where J = "\<lambda>d. d = wdb w6"] 7] d6 by auto
  have sz: "sz = ?n" "wdb w8 = wdb w4"
    using 8 nm(3) by (auto simp: bufferStream_def faulty_cases returnM_def split: if_splits)
  have q: "bucket_admits ?b ?n (wdb w4)" "wdb w9 = wdb w4"
    using valid_db_OkD[OF valid_CheckBucketQuota[where J = "\<lambda>d. d = wdb w8"] 9] sz by auto
  have q2: "user_admits ?u (wdb w4)" "wdb w10 = wdb w4"
    using valid_db_OkD[OF valid_CheckUserQuota[where J = "\<lambda>d. d = wdb w9"] 10] q(2) by auto
  let ?row = "\<lambda>nm ft. new_file ?b p nm ?n ft (md5 (upl_Reader a)) ?u [] (clock w10)"
  from 11[unfolded createUploaded_def Let_def sz(1)] obtain g v where
      c: "createRenaming (\<lambda>nm. ?row nm (upl_FileType a)) (\<lambda>nm. ?row nm (mimeOf (Ext nm))) ?b p nm w10 = (Ok g, v)"
    and s: "putAndBook ?b ?u (upl_Reader a) ?n g v = (Ok f, w')"
    by (auto elim!: bindM_OkE dest!: gets_OkD)
  have g: "g = ?row nm (upl_FileType a) (seq (files (wdb w4))) \<and>
      wdb v = (wdb w4)\<lparr>files := tcreate (?row nm (upl_FileType a)) (files (wdb w4))\<rparr> \<and> disk v = disk w10"
    using createRenaming_OkD[OF c] inv4 nm(1) q2(2)
    by (simp add: db_inv_def owing_def file_key_def new_file_def)
  have f: "f = g" "wdb w' = add_user_used ?u ?n (add_bucket_used ?b ?n (wdb v))"
    "localPut storageRoot (BucketEncoder ?b) (objectKeyForFile (fil_ID g)) (upl_Reader a) (disk v) = Inr (disk w')"
    using putAndBook_OkD[OF s] by auto
  have sf: "seq (files (wdb w4)) = seq (files (wdb w))" using p(2) by (cases "wdb w"; cases "wdb w4") (simp add: folders_ext_def)
  have tc: "tcreate (?row nm (upl_FileType a)) (files (wdb w4)) = tcreate (\<lambda>_. f) (files (wdb w4))"
    using f g by (simp add: tcreate_def)
  have obj: "localGet storageRoot (BucketEncoder ?b) (objectKeyForFile (fil_ID f)) (disk w') = Inr (upl_Reader a)"
    using localPut_Get[OF f(3)] f(1) by simp
  have "fil_FileSize f = ?n" using f(1) g by (simp add: new_file_def)
  then show ?thesis
    using n p opn q(1) q2(1) nm f g tc sf obj
    by (intro exI[of _ "wdb w4"] exI[of _ dir] exI[of _ p] exI[of _ nm] exI[of _ "clock w10"]) simp
qed

section \<open>Properties\<close>

text \<open>C7: a successful upload does exactly this: it appends the missing folders of the target path; the target
  directory is open to the user and both quotas admit the bytes; one file row with a fresh key and a name
  nobody in the directory has is added, the use of the bucket and of the user grows by the bytes, and the
  object of the row holds the content.\<close>

theorem UploadFile_effect:
  assumes "UploadFile md5 mimeOf a w = (Ok f, w')" "db_inv (wdb w)"
  shows "\<exists>d dir p nm now. NormalizeDirPath (upl_DirPath a) = Inr dir \<and> folders_ext (wdb w) d \<and>
    denotes d (upl_BucketID a) 0 (path_segs dir) p \<and> dir_open (upl_UserID a) (upl_BucketID a) p d \<and>
    bucket_admits (upl_BucketID a) (int (length (upl_Reader a))) d \<and> user_admits (upl_UserID a) d \<and>
    candidate (TrimSpace (upl_Filename a)) nm \<and> \<not> name_taken (upl_BucketID a) p nm d \<and>
    f = new_file (upl_BucketID a) p nm (int (length (upl_Reader a))) (upl_FileType a) (md5 (upl_Reader a))
          (upl_UserID a) [] now (seq (files (wdb w))) \<and>
    wdb w' = add_user_used (upl_UserID a) (fil_FileSize f) (add_bucket_used (upl_BucketID a) (fil_FileSize f)
          (d\<lparr>files := tcreate (\<lambda>_. f) (files d)\<rparr>)) \<and>
    localGet storageRoot (BucketEncoder (upl_BucketID a)) (objectKeyForFile (fil_ID f)) (disk w') = Inr (upl_Reader a)"
  using UploadFile_Ok[OF assms] .

definition sample_upload :: UploadFileArg where
  "sample_upload = \<lparr>upl_UserID = 2, upl_BucketID = 1, upl_DirPath = ''docs/in'', upl_Filename = ''A.txt'',
     upl_FileType = ''text/plain'', upl_Reader = [7, 8, 9]\<rparr>"

theorem UploadFile_effect_witness:
  "\<exists>w'. UploadFile (\<lambda>_. ''m'') (\<lambda>_. []) sample_upload sample =
     (Ok (new_file 1 2 ''A (1).txt'' 3 ''text/plain'' ''m'' 2 [] 0 2), w') \<and>
   localGet storageRoot (BucketEncoder 1) ''2'' (disk w') = Inr [7, 8, 9]"
proof -
  have "fst (UploadFile (\<lambda>_. ''m'') (\<lambda>_. []) sample_upload sample) =
      Ok (new_file 1 2 ''A (1).txt'' 3 ''text/plain'' ''m'' 2 [] 0 2)"
    by code_simp
  then obtain w' where r: "UploadFile (\<lambda>_. ''m'') (\<lambda>_. []) sample_upload sample =
      (Ok (new_file 1 2 ''A (1).txt'' 3 ''text/plain'' ''m'' 2 [] 0 2), w')" by (metis prod.collapse)
  have "objectKeyForFile 2 = ''2''" by code_simp
  with UploadFile_effect[OF r] r show ?thesis
    by (auto simp: sample_inv sample_upload_def new_file_def)
qed

end
