(* ===== verification/Tasks.thy ===== *)
theory Tasks
  imports Upload
begin

text \<open>
  The database locks of the background tasks (server/bucket_task.go, server/copy_task.go): a task row
  carries the server process that works on it and when its lease ends.  The statements are conditional
  updates whose RowsAffected the code reads; the lock is the same for delete tasks and copy tasks, so
  its laws are proved once, in a locale over the selectors of the row.
\<close>

section \<open>Operations\<close>

text \<open>Five minutes.\<close>

definition lease_time :: time where
  "lease_time = 300"

definition lease_free ::
  "('r \<Rightarrow> bool) \<Rightarrow> ('r \<Rightarrow> string) \<Rightarrow> ('r \<Rightarrow> time option) \<Rightarrow> time \<Rightarrow> 'r \<Rightarrow> bool" where
  "lease_free isrow owner expires now r \<longleftrightarrow>
     isrow r \<and> (owner r = [] \<or> (case expires r of None \<Rightarrow> False | Some e \<Rightarrow> e < now))"

definition counted_update :: "('r \<Rightarrow> bool) \<Rightarrow> ('r \<Rightarrow> 'r) \<Rightarrow> 'r tbl \<Rightarrow> nat \<times> 'r tbl" where
  "counted_update P f t = (tcount P t, tupdate P f t)"

text \<open>Delete tasks.\<close>

definition is_dtask :: "nat \<Rightarrow> DeleteTask \<Rightarrow> bool" where
  "is_dtask i r \<longleftrightarrow> live_dtk r \<and> dtk_ID r = i"

definition lock_dtask :: "string \<Rightarrow> time option \<Rightarrow> DeleteTask \<Rightarrow> DeleteTask" where
  "lock_dtask me e r = r\<lparr>dtk_LockOwner := me, dtk_LockExpiresAt := e\<rparr>"

definition acquire_dtask :: "nat \<Rightarrow> time \<Rightarrow> string \<Rightarrow> db \<Rightarrow> nat \<times> db" where
  "acquire_dtask i now me d =
     (let (n, t) = counted_update (lease_free (is_dtask i) dtk_LockOwner dtk_LockExpiresAt now)
            (\<lambda>r. lock_dtask me (Some (now + lease_time)) (r\<lparr>dtk_Status := 1\<rparr>)) (deleteTasks d)
      in (n, d\<lparr>deleteTasks := t\<rparr>))"

definition renew_dtask :: "nat \<Rightarrow> time \<Rightarrow> string \<Rightarrow> db \<Rightarrow> nat \<times> db" where
  "renew_dtask i now me d =
     (let (n, t) = counted_update (\<lambda>r. is_dtask i r \<and> dtk_LockOwner r = me)
            (\<lambda>r. r\<lparr>dtk_LockExpiresAt := Some (now + lease_time)\<rparr>) (deleteTasks d)
      in (n, d\<lparr>deleteTasks := t\<rparr>))"

definition release_dtask :: "nat \<Rightarrow> string \<Rightarrow> db \<Rightarrow> db" where
  "release_dtask i me d = d\<lparr>deleteTasks := tupdate (\<lambda>r. is_dtask i r \<and> dtk_LockOwner r = me)
     (lock_dtask [] None) (deleteTasks d)\<rparr>"

text \<open>A paused task goes back to status 0.\<close>

definition pause_dtask :: "nat \<Rightarrow> string \<Rightarrow> db \<Rightarrow> db" where
  "pause_dtask i me d = d\<lparr>deleteTasks := tupdate (\<lambda>r. is_dtask i r \<and> dtk_LockOwner r = me)
     (\<lambda>r. r\<lparr>dtk_Status := 0\<rparr>) (deleteTasks d)\<rparr>"

definition drop_dtask :: "nat \<Rightarrow> db \<Rightarrow> db" where
  "drop_dtask i d = d\<lparr>deleteTasks := tdelete (\<lambda>r. dtk_ID r = i) (deleteTasks d)\<rparr>"

definition the_dtask :: "nat \<Rightarrow> db \<Rightarrow> DeleteTask option" where
  "the_dtask i d = tfirst (is_dtask i) (deleteTasks d)"

text \<open>Copy tasks.\<close>

definition is_ctask :: "nat \<Rightarrow> CopyTask \<Rightarrow> bool" where
  "is_ctask i r \<longleftrightarrow> live_ctk r \<and> ctk_ID r = i"

definition lock_ctask :: "string \<Rightarrow> time option \<Rightarrow> CopyTask \<Rightarrow> CopyTask" where
  "lock_ctask me e r = r\<lparr>ctk_LockOwner := me, ctk_LockExpiresAt := e\<rparr>"

definition acquire_ctask :: "nat \<Rightarrow> time \<Rightarrow> string \<Rightarrow> db \<Rightarrow> nat \<times> db" where
  "acquire_ctask i now me d =
     (let (n, t) = counted_update (lease_free (is_ctask i) ctk_LockOwner ctk_LockExpiresAt now)
            (\<lambda>r. lock_ctask me (Some (now + lease_time)) (r\<lparr>ctk_Status := 1\<rparr>)) (copyTasks d)
      in (n, d\<lparr>copyTasks := t\<rparr>))"

definition renew_ctask :: "nat \<Rightarrow> time \<Rightarrow> string \<Rightarrow> db \<Rightarrow> nat \<times> db" where
  "renew_ctask i now me d =
     (let (n, t) = counted_update (\<lambda>r. is_ctask i r \<and> ctk_LockOwner r = me)
            (\<lambda>r. r\<lparr>ctk_LockExpiresAt := Some (now + lease_time)\<rparr>) (copyTasks d)
      in (n, d\<lparr>copyTasks := t\<rparr>))"

definition release_ctask :: "nat \<Rightarrow> string \<Rightarrow> db \<Rightarrow> db" where
  "release_ctask i me d = d\<lparr>copyTasks := tupdate (\<lambda>r. is_ctask i r \<and> ctk_LockOwner r = me)
     (lock_ctask [] None) (copyTasks d)\<rparr>"

definition drop_ctask :: "nat \<Rightarrow> db \<Rightarrow> db" where
  "drop_ctask i d = d\<lparr>copyTasks := tdelete (\<lambda>r. ctk_ID r = i) (copyTasks d)\<rparr>"

definition the_ctask :: "nat \<Rightarrow> db \<Rightarrow> CopyTask option" where
  "the_ctask i d = tfirst (is_ctask i) (copyTasks d)"

text \<open>The statements with the clock and the name of this process.\<close>

definition withLock :: "(time \<Rightarrow> string \<Rightarrow> db \<Rightarrow> nat \<times> db) \<Rightarrow> nat W" where
  "withLock f = bindM (getsM clock) (\<lambda>now. bindM (getsM inst) (\<lambda>me. execRet (f now me)))"

definition asMe :: "(string \<Rightarrow> db \<Rightarrow> db) \<Rightarrow> unit W" where
  "asMe f = bindM (getsM inst) (\<lambda>me. execDB (f me))"

section \<open>The lease\<close>

text \<open>
  A row with a lock: held me e t says that the task has one row in t, locked by me until e.
\<close>

locale lease =
  fixes isrow :: "'r \<Rightarrow> bool" and owner :: "'r \<Rightarrow> string" and expires :: "'r \<Rightarrow> time option"
    and lock :: "string \<Rightarrow> time option \<Rightarrow> 'r \<Rightarrow> 'r"
  assumes isrow_lock: "isrow (lock me e r) = isrow r"
    and owner_lock: "owner (lock me e r) = me"
    and expires_lock: "expires (lock me e r) = e"
begin

definition held :: "string \<Rightarrow> time \<Rightarrow> 'r tbl \<Rightarrow> bool" where
  "held me e t \<longleftrightarrow> (\<exists>r. filter isrow (rows t) = [r] \<and> owner r = me \<and> expires r = Some e)"

lemma filter_update:
  "(\<And>r. isrow (g r) = isrow r) \<Longrightarrow>
   filter isrow (rows (tupdate P g t)) = map (\<lambda>r. if P r then g r else r) (filter isrow (rows t))"
proof -
  assume g: "\<And>r. isrow (g r) = isrow r"
  have h: "isrow (if P r then g r else r) = isrow r" for r using g by simp
  have "filter isrow (map (\<lambda>r. if P r then g r else r) xs) = map (\<lambda>r. if P r then g r else r) (filter isrow xs)" for xs
    by (induction xs) (simp_all add: h del: if_image_distrib)
  then show ?thesis by (simp add: rows_tables)
qed

lemma count_filter: "(\<And>r. P r \<Longrightarrow> isrow r) \<Longrightarrow> tcount P t = length (filter P (filter isrow (rows t)))"
proof -
  assume "\<And>r. P r \<Longrightarrow> isrow r"
  then have "(\<lambda>r. isrow r \<and> P r) = P" by (intro ext) auto
  then show ?thesis by (simp only: tcount_def filter_filter)
qed

lemma acquired:
  assumes "tcount (lease_free isrow owner expires now) t = 1" "length (filter isrow (rows t)) = 1"
    and s: "\<And>r. isrow (s r) = isrow r"
  shows "held me (now + lease_time)
     (tupdate (lease_free isrow owner expires now) (\<lambda>r. lock me (Some (now + lease_time)) (s r)) t)"
proof -
  obtain r where r: "filter isrow (rows t) = [r]" using assms(2) by (auto simp: length_Suc_conv)
  have "tcount (lease_free isrow owner expires now) t = length (filter (lease_free isrow owner expires now) [r])"
  proof -
    have i: "lease_free isrow owner expires now q \<Longrightarrow> isrow q" for q unfolding lease_free_def by (erule conjunct1)
    from count_filter[of "lease_free isrow owner expires now" t, OF i] show ?thesis by (simp only: r)
  qed
  then have "length (filter (lease_free isrow owner expires now) [r]) = 1" using assms(1) by (simp only:)
  then have f: "lease_free isrow owner expires now r" by (rule contrapos_pp) simp
  let ?g = "\<lambda>r. lock me (Some (now + lease_time)) (s r)"
  have "isrow (?g r) = isrow r" for r by (simp only: isrow_lock s)
  from filter_update[of ?g, OF this] have
    "filter isrow (rows (tupdate (lease_free isrow owner expires now) ?g t)) = [?g r]"
    by (simp only: r list.map if_P[OF f])
  then show ?thesis unfolding held_def by (intro exI[of _ "?g r"]) (simp only: owner_lock expires_lock simp_thms)
qed

lemma held_row: "held me e t \<Longrightarrow> r \<in> set (rows t) \<Longrightarrow> isrow r \<Longrightarrow> owner r = me \<and> expires r = Some e"
proof -
  assume h: "held me e t" and r: "r \<in> set (rows t)" "isrow r"
  from h obtain q where q: "filter isrow (rows t) = [q]" "owner q = me" "expires q = Some e" by (auto simp: held_def)
  from r have "r \<in> set (filter isrow (rows t))" by simp
  with q show ?thesis by simp
qed

lemma tupdate_none: "(\<And>r. r \<in> set (rows t) \<Longrightarrow> \<not> P r) \<Longrightarrow> tupdate P g t = t"
proof -
  assume n: "\<And>r. r \<in> set (rows t) \<Longrightarrow> \<not> P r"
  have "map (\<lambda>r. if P r then g r else r) (rows t) = map (\<lambda>r. r) (rows t)" using n by (intro map_cong) auto
  then show ?thesis by (simp add: tupdate_def)
qed

text \<open>While the lease lasts nobody else gets the lock.\<close>

lemma excluded:
  assumes "held me e t" "me \<noteq> []" "now \<le> e"
  shows "counted_update (lease_free isrow owner expires now) g t = (0, t)"
proof -
  have n: "r \<in> set (rows t) \<Longrightarrow> \<not> lease_free isrow owner expires now r" for r
    using held_row[OF assms(1)] assms(2,3) by (auto simp: lease_free_def)
  then show ?thesis by (simp add: counted_update_def tcount_0 tupdate_none)
qed

text \<open>Another process can neither renew, pause nor release it.\<close>

lemma foreign:
  assumes "held me e t" "you \<noteq> me"
  shows "counted_update (\<lambda>r. isrow r \<and> owner r = you) g t = (0, t)"
proof -
  have n: "r \<in> set (rows t) \<Longrightarrow> \<not> (isrow r \<and> owner r = you)" for r
    using held_row[OF assms(1)] assms(2) by auto
  then show ?thesis by (simp add: counted_update_def tcount_0 tupdate_none)
qed

end

interpretation dlease: lease "is_dtask i" dtk_LockOwner dtk_LockExpiresAt lock_dtask for i
  by unfold_locales (auto simp: is_dtask_def lock_dtask_def live_dtk_def)

interpretation clease: lease "is_ctask i" ctk_LockOwner ctk_LockExpiresAt lock_ctask for i
  by unfold_locales (auto simp: is_ctask_def lock_ctask_def live_ctk_def)

section \<open>Lemmas: the invariant\<close>

lemma task_inv [simp]:
  "owing B U (snd (acquire_dtask i now me d)) = owing B U d" "owing B U (snd (renew_dtask i now me d)) = owing B U d"
  "owing B U (release_dtask i me d) = owing B U d" "owing B U (pause_dtask i me d) = owing B U d"
  "owing B U (drop_dtask i d) = owing B U d"
  "owing B U (snd (acquire_ctask i now me d)) = owing B U d" "owing B U (snd (renew_ctask i now me d)) = owing B U d"
  "owing B U (release_ctask i me d) = owing B U d" "owing B U (drop_ctask i d) = owing B U d"
  by (simp_all add: acquire_dtask_def renew_dtask_def release_dtask_def pause_dtask_def drop_dtask_def
      acquire_ctask_def renew_ctask_def release_ctask_def drop_ctask_def counted_update_def)

lemma pres_withLock: "(\<And>now me d. J d \<Longrightarrow> J (snd (f now me d))) \<Longrightarrow> preserves (onDB J) (withLock f)"
  unfolding withLock_def by (intro pres pres_execRet) auto

lemma pres_asMe: "(\<And>me d. J d \<Longrightarrow> J (f me d)) \<Longrightarrow> preserves (onDB J) (asMe f)"
  unfolding asMe_def by (intro pres pres_exec) auto

lemma pres_task_locks [pres]:
  "preserves (onDB db_inv) (withLock (acquire_dtask i))" "preserves (onDB db_inv) (withLock (renew_dtask i))"
  "preserves (onDB db_inv) (asMe (release_dtask i))" "preserves (onDB db_inv) (asMe (pause_dtask i))"
  "preserves (onDB db_inv) (execDB (drop_dtask i))"
  "preserves (onDB db_inv) (withLock (acquire_ctask i))" "preserves (onDB db_inv) (withLock (renew_ctask i))"
  "preserves (onDB db_inv) (asMe (release_ctask i))" "preserves (onDB db_inv) (execDB (drop_ctask i))"
  by (intro pres_withLock pres_asMe pres_exec; simp add: db_inv_def)+

lemma total_locks [ends_rules]: "total (withLock f)" "total (asMe g)"
  unfolding withLock_def asMe_def by (intro ends_rules)+

section \<open>Properties\<close>

text \<open>C13: the lease excludes: after a process has taken the lock of a delete task, no other process takes it
  within five minutes, and none renews it or releases it.\<close>

theorem delete_lock_exclusive:
  assumes "acquire_dtask i now me d = (1, d')" "me \<noteq> []" "you \<noteq> me"
    and "length (filter (is_dtask i) (rows (deleteTasks d))) = 1"
  shows "(\<forall>t\<le>now + lease_time. acquire_dtask i t you d' = (0, d')) \<and>
    (\<forall>t. renew_dtask i t you d' = (0, d')) \<and> release_dtask i you d' = d'"
proof -
  have d': "d' = d\<lparr>deleteTasks := tupdate (lease_free (is_dtask i) dtk_LockOwner dtk_LockExpiresAt now)
      (\<lambda>r. lock_dtask me (Some (now + lease_time)) (r\<lparr>dtk_Status := 1\<rparr>)) (deleteTasks d)\<rparr>"
    and c: "tcount (lease_free (is_dtask i) dtk_LockOwner dtk_LockExpiresAt now) (deleteTasks d) = 1"
    using assms(1) by (auto simp: acquire_dtask_def counted_update_def)
  have h: "dlease.held i me (now + lease_time) (deleteTasks d')"
    using dlease.acquired[OF c assms(4), of "\<lambda>r. r\<lparr>dtk_Status := 1\<rparr>" me] d'
    by (simp add: is_dtask_def live_dtk_def)
  have "d'\<lparr>deleteTasks := deleteTasks d'\<rparr> = d'" by simp
  moreover have "release_dtask i you d' = d'"
    using dlease.foreign[OF h assms(3), of "lock_dtask [] None"] by (simp add: release_dtask_def counted_update_def)
  ultimately show ?thesis
    using dlease.excluded[OF h assms(2)] dlease.foreign[OF h assms(3)]
    by (simp add: acquire_dtask_def renew_dtask_def)
qed

definition sample_dtask :: DeleteTask where
  "sample_dtask = \<lparr>dtk_ID = 1, dtk_DeletedAt = None, dtk_BucketID = 1, dtk_DirID = 1, dtk_Status = 0,
     dtk_OperatorID = 2, dtk_OperatorLevel = 3, dtk_LockOwner = [], dtk_LockExpiresAt = None\<rparr>"

theorem delete_lock_exclusive_witness:
  "\<exists>d'. acquire_dtask 1 10 ''a'' (sample_db\<lparr>deleteTasks := \<lparr>rows = [sample_dtask], seq = 2\<rparr>\<rparr>) = (1, d') \<and>
     acquire_dtask 1 310 ''b'' d' = (0, d')"
proof -
  let ?d = "sample_db\<lparr>deleteTasks := \<lparr>rows = [sample_dtask], seq = 2\<rparr>\<rparr>"
  obtain d' where r: "acquire_dtask 1 10 ''a'' ?d = (1, d')"
    by (simp add: acquire_dtask_def counted_update_def lease_free_def is_dtask_def sample_dtask_def live_dtk_def tbl_defs)
  have one: "length (filter (is_dtask 1) (rows (deleteTasks ?d))) = 1"
    by (simp add: is_dtask_def sample_dtask_def live_dtk_def)
  show ?thesis using delete_lock_exclusive[OF r _ _ one, of "''b''"] r by (auto simp: lease_time_def)
qed

end
