(* ===== verification/DeleteTasks.thy ===== *)
theory DeleteTasks
  imports Tasks
begin

text \<open>
  Deletion of buckets and directories (server/bucket_task.go, DeleteDir of server/file_delete.go): the
  request leaves a delete task, which is processed under its lock: a bucket is purged with everything
  in it, a directory is emptied depth first into the recycle bin, sparing what the operator cannot see.

  The loops over batches and frames are cut off by a bound computed from the tables; beyond it the
  outcome is Hang.  byUser, a Go map, is an association list in order of first occurrence.
\<close>

section \<open>Deleting a bucket\<close>

definition loadFolderByID :: "nat \<Rightarrow> Folder W" where
  "loadFolderByID folderID =
     bindM (queryDB (\<lambda>d. tfirst (\<lambda>r. live_fld r \<and> fld_ID r = folderID) (folders d))) orNotFound"

definition checkDeleteOperator :: "DeleteTask \<Rightarrow> unit W" where
  "checkDeleteOperator task =
     (if dtk_OperatorID task = 0 then returnM ()
      else
        bindM (tryM (GetUser (dtk_OperatorID task))) (\<lambda>r.
        case r of
          Inl _ \<Rightarrow> throwM ErrInternal
        | Inr u \<Rightarrow> if usr_Status u \<noteq> 1 then throwM ErrInternal else returnM ()))"

definition usageByUser :: "File list \<Rightarrow> (nat \<times> int) list" where
  "usageByUser fs = map (\<lambda>u. (u, sum_list (map fil_FileSize (filter (\<lambda>f. fil_UploadedBy f = u) fs))))
     (remdups (map fil_UploadedBy fs))"

definition returnUsage :: "(nat \<times> int) list \<Rightarrow> unit W" where
  "returnUsage us = forM us (\<lambda>(uid, sz). returnUserUsedSpace uid sz)"

text \<open>The condition on the share links depends on which lists are empty.\<close>

definition bucket_share :: "nat list \<Rightarrow> nat list \<Rightarrow> ShareLink \<Rightarrow> bool" where
  "bucket_share fileIDs folderIDs r =
     (let byFile = shr_BucketItemID r \<in> set fileIDs \<and> shr_ItemType r = ItemKindFile;
          byFolder = shr_BucketItemID r \<in> set folderIDs \<and> shr_ItemType r = ItemKindFolder in
      if folderIDs \<noteq> [] then (if fileIDs \<noteq> [] then byFile \<or> byFolder else byFolder) else byFile)"

definition purgeBucket :: "nat \<Rightarrow> nat \<Rightarrow> unit W" where
  "purgeBucket taskID bucketID =
     bindM (queryDB (\<lambda>d. tfind (\<lambda>r. fil_BucketID r = bucketID) (files d))) (\<lambda>fs.
     bindM (queryDB (\<lambda>d. map fld_ID (tfind (\<lambda>r. fld_BucketID r = bucketID) (folders d)))) (\<lambda>folderIDs.
     thenM (execDB (\<lambda>d. d\<lparr>shares := tdelete (bucket_share (map fil_ID fs) folderIDs) (shares d)\<rparr>))
    (thenM (execDB (\<lambda>d. d\<lparr>files := tdelete (\<lambda>r. fil_BucketID r = bucketID) (files d)\<rparr>))
    (thenM (execDB (\<lambda>d. d\<lparr>folders := tdelete (\<lambda>r. fld_BucketID r = bucketID) (folders d)\<rparr>))
    (thenM (execDB (\<lambda>d. d\<lparr>buckets := tdelete (\<lambda>r. bkt_ID r = bucketID) (buckets d)\<rparr>))
    (thenM (execDB (drop_dtask taskID))
           (returnUsage (usageByUser fs))))))))"

definition deleteBucketTask :: "nat \<Rightarrow> DeleteTask \<Rightarrow> unit W" where
  "deleteBucketTask taskID task =
     bindM (tryM (checkDeleteOperator task)) (\<lambda>c.
     case c of
       Inl e \<Rightarrow> thenM (ignoreM (asMe (pause_dtask taskID))) (throwM e)
     | Inr _ \<Rightarrow>
         bindM (tryM (GetBucket (dtk_BucketID task))) (\<lambda>b.
         case b of
           Inl e \<Rightarrow> if e = ErrNotFound then ignoreM (execDB (drop_dtask taskID)) else throwM e
         | Inr bucket \<Rightarrow>
             thenM (storageDeleteBucket (BucketEncoder (bkt_ID bucket)))
            (bindM (withLock (renew_dtask taskID)) (\<lambda>n.
             if n = 0 then returnM () else transaction (purgeBucket taskID (dtk_BucketID task))))))"

definition processDeleteTask :: "nat \<Rightarrow> unit W" where
  "processDeleteTask taskID =
     bindM (queryDB (the_dtask taskID)) (\<lambda>t.
     case t of
       None \<Rightarrow> returnM ()
     | Some task \<Rightarrow>
         bindM (withLock (acquire_dtask taskID)) (\<lambda>n.
         if n = 0 then returnM ()
         else finallyM (deleteBucketTask taskID task) (asMe (release_dtask taskID))))"

section \<open>Deleting a directory\<close>

definition deleteBatchSize :: nat where
  "deleteBatchSize = 100"

record dirDeleteFrame =
  frm_id :: nat
  frm_parent :: "nat option"
  frm_pendingChildren :: int
  frm_residue :: bool
  frm_fileCursor :: nat
  frm_subCursor :: nat

definition loadFilesBatch :: "nat \<Rightarrow> nat \<Rightarrow> nat \<Rightarrow> nat \<Rightarrow> File list W" where
  "loadFilesBatch bucketID folderID cursor limit =
     queryDB (\<lambda>d. take limit (sort_key fil_ID (tfind
       (\<lambda>r. live_fil r \<and> fil_BucketID r = bucketID \<and> fil_FolderID r = folderID \<and> (cursor > 0 \<longrightarrow> fil_ID r > cursor))
       (files d))))"

definition loadSubfoldersBatch :: "nat \<Rightarrow> nat \<Rightarrow> nat \<Rightarrow> nat \<Rightarrow> Folder list W" where
  "loadSubfoldersBatch bucketID folderID cursor limit =
     queryDB (\<lambda>d. take limit (sort_key fld_ID (tfind
       (\<lambda>r. live_fld r \<and> fld_BucketID r = bucketID \<and> fld_ParentID r = folderID \<and> (cursor > 0 \<longrightarrow> fld_ID r > cursor))
       (folders d))))"

definition softDeleteFilesForTask :: "nat list \<Rightarrow> unit W" where
  "softDeleteFilesForTask ids =
     (if ids = [] then returnM ()
      else
        bindM (getsM clock) (\<lambda>now.
        transaction
          (thenM (execDB (soft_delete_files (set ids) now))
                 (execDB (drop_shares (set ids) ItemKindFile)))))"

definition set_isable :: "(Folder \<Rightarrow> bool) \<Rightarrow> int \<Rightarrow> db \<Rightarrow> db" where
  "set_isable P v d = d\<lparr>folders := tupdate (\<lambda>r. live_fld r \<and> P r) (\<lambda>r. r\<lparr>fld_Isable := v\<rparr>) (folders d)\<rparr>"

definition soft_delete_folder :: "nat \<Rightarrow> time \<Rightarrow> db \<Rightarrow> db" where
  "soft_delete_folder fid now d = d\<lparr>folders := tupdate (\<lambda>r. live_fld r \<and> fld_ID r = fid)
     (\<lambda>r. r\<lparr>fld_DeletedAt := Some now\<rparr>) (folders d)\<rparr>"

definition recycleFolderForTask :: "nat \<Rightarrow> unit W" where
  "recycleFolderForTask fid =
     bindM (getsM clock) (\<lambda>now.
     transaction
       (thenM (execDB (set_isable (\<lambda>r. fld_ID r = fid) FolderUnusable))
       (thenM (execDB (soft_delete_folder fid now))
              (execDB (drop_shares {fid} ItemKindFolder)))))"

text \<open>What the operator of a task may see: the snapshot the task loads for every frame.\<close>

type_synonym operator = "User option \<times> nat list"

definition loadOperator :: "DeleteTask \<Rightarrow> operator W" where
  "loadOperator task =
     (if dtk_OperatorID task > 0 then
        bindM (GetUser (dtk_OperatorID task)) (\<lambda>u.
        bindM (UserGroupIDs (dtk_OperatorID task)) (\<lambda>gs. returnM (Some u, gs)))
      else returnM (None, []))"

definition op_sees :: "operator \<Rightarrow> string \<Rightarrow> bool" where
  "op_sees opr vis \<longleftrightarrow> ItemVisibleRule vis (fst opr) (snd opr) = Inr ()"

fun fileBatches :: "nat \<Rightarrow> nat \<Rightarrow> operator \<Rightarrow> nat \<Rightarrow> nat \<Rightarrow> bool \<Rightarrow> (nat \<times> bool) W" where
  "fileBatches 0 bucketID opr fid cursor residue = hangM"
| "fileBatches (Suc n) bucketID opr fid cursor residue =
     bindM (loadFilesBatch bucketID fid cursor deleteBatchSize) (\<lambda>fs.
     if fs = [] then returnM (cursor, residue)
     else
       let seen = filter (\<lambda>f. op_sees opr (fil_VisibleToGroups f)) fs in
       thenM (if seen \<noteq> [] then softDeleteFilesForTask (map fil_ID seen) else returnM ())
             (fileBatches n bucketID opr fid (fil_ID (last fs))
                (residue \<or> list_ex (\<lambda>f. \<not> op_sees opr (fil_VisibleToGroups f)) fs)))"

text \<open>The visible subfolders in the order they are pushed, the cursor and the residue mark.\<close>

fun folderBatches :: "nat \<Rightarrow> nat \<Rightarrow> operator \<Rightarrow> nat \<Rightarrow> nat \<Rightarrow> bool \<Rightarrow> nat list \<Rightarrow> (nat list \<times> nat \<times> bool) W" where
  "folderBatches 0 bucketID opr fid cursor residue acc = hangM"
| "folderBatches (Suc n) bucketID opr fid cursor residue acc =
     bindM (loadSubfoldersBatch bucketID fid cursor deleteBatchSize) (\<lambda>fs.
     if fs = [] then returnM (acc, cursor, residue)
     else
       folderBatches n bucketID opr fid (fld_ID (last fs))
         (residue \<or> list_ex (\<lambda>f. \<not> op_sees opr (fld_VisibleToGroups f)) fs)
         (acc @ map fld_ID (filter (\<lambda>f. op_sees opr (fld_VisibleToGroups f)) fs)))"

definition fileCount :: "nat W" where
  "fileCount = getsM (\<lambda>w. length (rows (files (wdb w))))"

text \<open>
  One round of the loop over the frames: the batches of the frame at idx, then down into its last
  subfolder, or the frame is done and its parent is next.  None means that the lock is lost.
\<close>

definition finishFrame :: "dirDeleteFrame list \<Rightarrow> dirDeleteFrame \<Rightarrow> (dirDeleteFrame list \<times> nat option) W" where
  "finishFrame stack fr =
     thenM (if frm_residue fr then
              whenM (frm_parent fr = None)
                (execDB (set_isable (\<lambda>r. fld_ID r = frm_id fr \<and> fld_Isable r = FolderDeleting) FolderUsable))
            else recycleFolderForTask (frm_id fr))
       (returnM (case frm_parent fr of
           None \<Rightarrow> (butlast stack, None)
         | Some p \<Rightarrow>
             (butlast (stack[p := (stack ! p)\<lparr>frm_pendingChildren := frm_pendingChildren (stack ! p) - 1,
                frm_residue := frm_residue (stack ! p) \<or> frm_residue fr\<rparr>]), Some p)))"

definition dirRound :: "nat \<Rightarrow> DeleteTask \<Rightarrow> dirDeleteFrame list \<Rightarrow> nat \<Rightarrow> (dirDeleteFrame list \<times> nat option) option W" where
  "dirRound taskID task stack idx =
     bindM (withLock (renew_dtask taskID)) (\<lambda>n.
     if n = 0 then returnM None
     else
       bindM (tryM (checkDeleteOperator task)) (\<lambda>c.
       case c of
         Inl e \<Rightarrow> thenM (ignoreM (asMe (pause_dtask taskID))) (throwM e)
       | Inr _ \<Rightarrow>
           bindM (loadOperator task) (\<lambda>opr.
           let fr = stack ! idx in
           bindM fileCount (\<lambda>nf.
           bindM (fileBatches (Suc nf) (dtk_BucketID task) opr (frm_id fr) (frm_fileCursor fr) (frm_residue fr))
             (\<lambda>(cursor, residue).
           bindM folderCount (\<lambda>nd.
           bindM (folderBatches (Suc nd) (dtk_BucketID task) opr (frm_id fr) (frm_subCursor fr) residue [])
             (\<lambda>(children, subCursor, residue).
           let fr' = fr\<lparr>frm_fileCursor := cursor, frm_subCursor := subCursor, frm_residue := residue,
                 frm_pendingChildren := frm_pendingChildren fr + int (length children)\<rparr>;
               stack' = stack[idx := fr'] @ map (\<lambda>c. \<lparr>frm_id = c, frm_parent = Some idx, frm_pendingChildren = 0,
                 frm_residue = False, frm_fileCursor = 0, frm_subCursor = 0\<rparr>) children in
           if frm_pendingChildren fr' > 0 then returnM (Some (stack', Some (length stack' - 1)))
           else bindM (finishFrame stack' fr') (\<lambda>r. returnM (Some r)))))))))"

fun dirRounds :: "nat \<Rightarrow> nat \<Rightarrow> DeleteTask \<Rightarrow> dirDeleteFrame list \<Rightarrow> nat option \<Rightarrow> bool W" where
  "dirRounds fuel taskID task stack None = returnM True"
| "dirRounds 0 taskID task stack (Some idx) = hangM"
| "dirRounds (Suc fuel) taskID task stack (Some idx) =
     bindM (dirRound taskID task stack idx) (\<lambda>r.
     case r of
       None \<Rightarrow> returnM False
     | Some (stack', idx') \<Rightarrow> dirRounds fuel taskID task stack' idx')"

definition deleteDirTask :: "nat \<Rightarrow> DeleteTask \<Rightarrow> unit W" where
  "deleteDirTask taskID task =
     bindM (tryM (loadFolderByID (dtk_DirID task))) (\<lambda>r.
     case r of
       Inl e \<Rightarrow> if e = ErrNotFound then ignoreM (execDB (drop_dtask taskID)) else throwM e
     | Inr _ \<Rightarrow>
         bindM folderCount (\<lambda>n.
         bindM (dirRounds (3 * n + 3) taskID task
           [\<lparr>frm_id = dtk_DirID task, frm_parent = None, frm_pendingChildren = 0, frm_residue = False,
             frm_fileCursor = 0, frm_subCursor = 0\<rparr>] (Some 0)) (\<lambda>done.
         if done then execDB (drop_dtask taskID) else returnM ())))"

definition processDeleteDirTask :: "nat \<Rightarrow> unit W" where
  "processDeleteDirTask taskID =
     bindM (queryDB (the_dtask taskID)) (\<lambda>t.
     case t of
       None \<Rightarrow> returnM ()
     | Some task \<Rightarrow>
         if dtk_DirID task = 0 then processDeleteTask taskID
         else
           bindM (withLock (acquire_dtask taskID)) (\<lambda>n.
           if n = 0 then returnM ()
           else finallyM (deleteDirTask taskID task) (asMe (release_dtask taskID))))"

definition ProcessDeleteTask :: "nat \<Rightarrow> unit W" where
  "ProcessDeleteTask taskID =
     bindM (queryDB (the_dtask taskID)) (\<lambda>t.
     case t of
       None \<Rightarrow> returnM ()
     | Some task \<Rightarrow>
         if dtk_DirID task > 0 then processDeleteDirTask taskID else processDeleteTask taskID)"

definition new_dtask :: "nat \<Rightarrow> nat \<Rightarrow> nat \<Rightarrow> int \<Rightarrow> nat \<Rightarrow> DeleteTask" where
  "new_dtask bucketID dirID operatorID level i =
     \<lparr>dtk_ID = i, dtk_DeletedAt = None, dtk_BucketID = bucketID, dtk_DirID = dirID, dtk_Status = 0,
      dtk_OperatorID = operatorID, dtk_OperatorLevel = level, dtk_LockOwner = [], dtk_LockExpiresAt = None\<rparr>"

definition createDeleteTask :: "(nat \<Rightarrow> DeleteTask) \<Rightarrow> nat W" where
  "createDeleteTask mk = execRet (\<lambda>d. (seq (deleteTasks d), d\<lparr>deleteTasks := tcreate mk (deleteTasks d)\<rparr>))"

definition DeleteDir :: "nat \<Rightarrow> nat \<Rightarrow> nat \<Rightarrow> nat W" where
  "DeleteDir userID bucketID dirID =
     bindM (CheckBucketUsable bucketID) (\<lambda>_.
     bindM (loadFolder bucketID dirID) (\<lambda>folder.
     if fld_Isable folder = FolderDeleting then throwM ErrForbidden
     else
       bindM (operatorLevelOf userID) (\<lambda>level.
       bindM (createDeleteTask (new_dtask bucketID dirID userID level)) (\<lambda>taskID.
       thenM (execDB (set_isable (\<lambda>r. fld_ID r = dirID) FolderDeleting))
      (thenM (ignoreM (ProcessDeleteTask taskID))
             (returnM taskID))))))"

definition DeleteBucket :: "nat \<Rightarrow> nat \<Rightarrow> unit W" where
  "DeleteBucket operatorID bucketID =
     bindM (GetBucket bucketID) (\<lambda>bucket.
     bindM (operatorLevelOf operatorID) (\<lambda>level.
     bindM (createDeleteTask (new_dtask bucketID 0 operatorID level)) (\<lambda>taskID.
     thenM (execDB (\<lambda>d. d\<lparr>buckets := tupdate (\<lambda>r. live_bkt r \<and> bkt_ID r = bucketID)
              (\<lambda>r. r\<lparr>bkt_Status := 0\<rparr>) (buckets d)\<rparr>))
           (ignoreM (ProcessDeleteTask taskID)))))"

section \<open>Lemmas: the invariant\<close>

lemma pres_loadFolderByID [pres]: "preserves (onDB J) (loadFolderByID i)"
  unfolding loadFolderByID_def by (intro pres)

lemma pres_checkDeleteOperator [pres]: "preserves (onDB J) (checkDeleteOperator t)"
  unfolding checkDeleteOperator_def by (intro pres)

lemma pres_loadOperator [pres]: "preserves (onDB J) (loadOperator t)"
  unfolding loadOperator_def by (intro pres)

lemma pres_counts [pres]: "preserves (onDB J) fileCount"
  unfolding fileCount_def by (intro pres)

lemma pres_batches [pres]: "preserves (onDB J) (loadFilesBatch b f c l)" "preserves (onDB J) (loadSubfoldersBatch b f c l)"
  unfolding loadFilesBatch_def loadSubfoldersBatch_def by (intro pres)+

lemma owing_set_isable: "owing B U d \<Longrightarrow> owing B U (set_isable P v d)"
  unfolding set_isable_def
  by (rule owing_update_folders)
    (auto intro!: unique_live_update dest: names_okD simp: folder_key_def live_fld_def)

lemma owing_soft_delete_folder: "owing B U d \<Longrightarrow> owing B U (soft_delete_folder i now d)"
  unfolding soft_delete_folder_def
  by (rule owing_update_folders)
    (auto intro!: unique_live_update dest: names_okD simp: folder_key_def live_fld_def)

lemma pres_isable [pres]: "preserves (onDB db_inv) (execDB (set_isable P v))"
  by (rule pres_exec) (simp add: db_inv_def owing_set_isable)

lemma pres_softDelete [pres]: "preserves (onDB db_inv) (softDeleteFilesForTask ids)" "preserves (onDB db_inv) (recycleFolderForTask i)"
  unfolding softDeleteFilesForTask_def recycleFolderForTask_def
  by (intro pres pres_exec; simp add: db_inv_def owing_soft_delete owing_soft_delete_folder)+

lemma pres_fileBatches: "preserves (onDB db_inv) (fileBatches n b opr f c r)"
  by (induction n arbitrary: c r) (auto intro!: pres simp: Let_def)

lemma pres_folderBatches: "preserves (onDB J) (folderBatches n b opr f c r acc)"
  by (induction n arbitrary: c r acc) (auto intro!: pres)

lemma pres_dirRound [pres]: "preserves (onDB db_inv) (dirRound i t st idx)"
  unfolding dirRound_def Let_def finishFrame_def
  by (intro pres pres_fileBatches pres_folderBatches)

lemma pres_dirRounds [pres]: "preserves (onDB db_inv) (dirRounds n i t st idx)"
proof (induction n arbitrary: st idx)
  case 0
  show ?case by (cases idx) (simp_all add: pres)
next
  case (Suc n)
  then show ?case by (cases idx) (auto intro!: pres)
qed


subsection \<open>Giving back the use of many files\<close>

definition owed :: "(nat \<times> int) list \<Rightarrow> nat \<Rightarrow> int" where
  "owed us i = sum_list (map snd (filter (\<lambda>p. fst p = i) us))"

lemma owed_nonneg: "\<forall>p\<in>set us. 0 \<le> snd p \<Longrightarrow> 0 \<le> owed us i"
  unfolding owed_def by (intro sum_list_nonneg) auto

lemma owed_Cons: "owed ((u, n) # us) i = only u n i + owed us i"
  by (simp add: owed_def only_def)

lemma owed_usage:
  "owed (usageByUser fs) i = sum_list (map fil_FileSize (filter (\<lambda>f. fil_UploadedBy f = i) fs))"
proof -
  let ?s = "\<lambda>u. sum_list (map fil_FileSize (filter (\<lambda>f. fil_UploadedBy f = u) fs))"
  have d: "distinct us \<Longrightarrow> sum_list (map snd (filter (\<lambda>p. fst p = i) (map (\<lambda>u. (u, ?s u)) us))) =
      (if i \<in> set us then ?s i else 0)" for us
    by (induction us) auto
  have "i \<notin> set (map fil_UploadedBy fs) \<Longrightarrow> filter (\<lambda>f. fil_UploadedBy f = i) fs = []"
    by (auto simp: filter_empty_conv)
  then show ?thesis using d[of "remdups (map fil_UploadedBy fs)"] by (auto simp: owed_def usageByUser_def)
qed

lemma usage_nonneg: "\<forall>f\<in>set fs. 0 \<le> fil_FileSize f \<Longrightarrow> \<forall>p\<in>set (usageByUser fs). 0 \<le> snd p"
  by (auto simp: usageByUser_def intro!: sum_list_nonneg)

lemma valid_returnUsage:
  assumes "\<forall>p\<in>set us. 0 \<le> snd p"
  shows "valid (onDB (owing B (owed us))) (returnUsage us) (\<lambda>_. onDB (owing B (\<lambda>_. 0))) (\<lambda>_. onDB (\<lambda>_. True))"
  using assms unfolding returnUsage_def
proof (induction us)
  case Nil
  have "owed [] = (\<lambda>_. 0)" by (simp add: owed_def fun_eq_iff)
  then show ?case by (simp, intro dbrules) simp
next
  case (Cons p us)
  obtain u n where p: "p = (u, n)" by (cases p)
  have rest: "0 \<le> n" "0 \<le> owed us i" for i using Cons.prems p owed_nonneg[of us i] by auto
  have step: "owing B (owed us) (return_user_used u n d)" if "owing B (owed (p # us)) d" for d
    using owing_return_user_used[OF that, of n u] rest(2)[of u] by (simp add: p owed_Cons)
  have skip: "owing B (owed us) d" if "n \<le> 0" "owing B (owed (p # us)) d" for d
    by (rule owing_mono[OF that(2)]) (use rest(1) that(1) in \<open>auto simp: p owed_Cons only_def\<close>)
  have "valid (onDB (owing B (owed (p # us)))) (returnUserUsedSpace u n) (\<lambda>_. onDB (owing B (owed us))) (\<lambda>_. onDB (\<lambda>_. True))"
    unfolding returnUserUsedSpace_def by (intro dbrules db_exec_last) (auto intro: step skip)
  then show ?case unfolding forM.simps p prod.case by (rule valid_then[rotated]) (use Cons in simp)
qed

lemma fsum_found: "sum_list (map fil_FileSize (filter P (tfind Q (files d)))) = fsum (\<lambda>f. P f \<and> Q f) d"
  by (simp add: fsum_def tfind_def) (rule arg_cong[where f = "\<lambda>xs. sum_list (map fil_FileSize xs)"], auto intro: filter_cong)

lemma owed_found: "owed (usageByUser (tfind Q (files d))) i = fsum (\<lambda>f. fil_UploadedBy f = i \<and> Q f) d"
  by (simp add: owed_usage fsum_found)

lemma found_nonneg: "files_ok d \<Longrightarrow> \<forall>f\<in>set (tfind Q (files d)). 0 \<le> fil_FileSize f"
  by (auto simp: files_ok_def tfind_def)

lemma owing_drop_bucket:
  assumes "owing B U d"
  shows "owing (\<lambda>i. if i = b then 0 else B i) U (d\<lparr>buckets := tdelete (\<lambda>r. bkt_ID r = b) (buckets d)\<rparr>)"
  using assms unfolding owing_def acct_def by (auto simp: rows_tables)

subsection \<open>Purging a bucket\<close>

text \<open>The state between the statements: the files of the bucket are gone, the users not yet paid back.\<close>

lemma purge_files:
  assumes "db_inv d" "fs = tfind (\<lambda>r. fil_BucketID r = b) (files d)"
  shows "owing (\<lambda>i. if i = b then fsum (\<lambda>f. fil_BucketID f = b) d else 0) (owed (usageByUser fs))
     (d\<lparr>files := tdelete (\<lambda>r. fil_BucketID r = b) (files d)\<rparr>)"
proof (rule owing_mono[OF owing_delete_files[OF assms(1)[unfolded db_inv_def]]])
  fix i
  have "fsum (\<lambda>f. fil_BucketID f = i \<and> fil_BucketID f = b) d = (if i = b then fsum (\<lambda>f. fil_BucketID f = b) d else 0)"
    by (auto simp: fsum_def)
  then show "0 + fsum (\<lambda>f. fil_BucketID f = i \<and> fil_BucketID f = b) d \<le> (if i = b then fsum (\<lambda>f. fil_BucketID f = b) d else 0)"
    by simp
  show "0 + fsum (\<lambda>f. fil_UploadedBy f = i \<and> fil_BucketID f = b) d \<le> owed (usageByUser fs) i"
    by (simp add: assms(2) owed_found)
qed

lemma valid_purgeBucket:
  "valid (onDB db_inv) (purgeBucket i b) (\<lambda>_. onDB db_inv) (\<lambda>_. onDB (\<lambda>_. True))"
  unfolding purgeBucket_def
proof (intro db_query)
  fix fs ids
  let ?J = "\<lambda>d. (db_inv d \<and> tfind (\<lambda>r. fil_BucketID r = b) (files d) = fs) \<and>
     map fld_ID (tfind (\<lambda>r. fld_BucketID r = b) (folders d)) = ids"
  let ?U = "owed (usageByUser fs)"
  let ?K1 = "\<lambda>d. db_inv d \<and> tfind (\<lambda>r. fil_BucketID r = b) (files d) = fs"
  let ?K2 = "\<lambda>d. (\<exists>B. owing (\<lambda>j. if j = b then B else 0) ?U d) \<and> (\<forall>p\<in>set (usageByUser fs). 0 \<le> snd p)"
  let ?K3 = "\<lambda>d. owing (\<lambda>_. 0) ?U d \<and> (\<forall>p\<in>set (usageByUser fs). 0 \<le> snd p)"
  have last: "valid (onDB ?K3) (returnUsage (usageByUser fs)) (\<lambda>_. onDB db_inv) (\<lambda>_. onDB (\<lambda>_. True))"
  proof (cases "\<forall>p\<in>set (usageByUser fs). 0 \<le> snd p")
    case True
    from valid_returnUsage[OF this, where B = "\<lambda>_. 0"] show ?thesis
      unfolding db_inv_def[abs_def] by (rule valid_onDB_pre) simp
  qed (auto simp: valid_def onDB_def)
  have 1: "valid (onDB ?J) (execDB (\<lambda>d. d\<lparr>shares := tdelete Q (shares d)\<rparr>)) (\<lambda>_. onDB ?K1) (\<lambda>_. onDB (\<lambda>_. True))" for Q
    by (rule db_exec_last) auto
  have 2: "valid (onDB ?K1) (execDB (\<lambda>d. d\<lparr>files := tdelete (\<lambda>r. fil_BucketID r = b) (files d)\<rparr>)) (\<lambda>_. onDB ?K2) (\<lambda>_. onDB (\<lambda>_. True))"
  proof (rule db_exec_last)
    fix d assume d: "?K1 d"
    then have "\<forall>p\<in>set (usageByUser fs). 0 \<le> snd p"
      using usage_nonneg found_nonneg[of d] by (auto simp: db_inv_def owing_def)
    then show "?K2 (d\<lparr>files := tdelete (\<lambda>r. fil_BucketID r = b) (files d)\<rparr>)"
      using d purge_files[of d fs b] by blast
  qed auto
  have 3: "valid (onDB ?K2) (execDB (\<lambda>d. d\<lparr>folders := tdelete (\<lambda>r. fld_BucketID r = b) (folders d)\<rparr>)) (\<lambda>_. onDB ?K2) (\<lambda>_. onDB (\<lambda>_. True))"
    by (rule db_exec_last) (auto intro: owing_delete_folders)
  have 4: "valid (onDB ?K2) (execDB (\<lambda>d. d\<lparr>buckets := tdelete (\<lambda>r. bkt_ID r = b) (buckets d)\<rparr>)) (\<lambda>_. onDB ?K3) (\<lambda>_. onDB (\<lambda>_. True))"
    by (rule db_exec_last) (auto dest: owing_drop_bucket[where b = b] intro: owing_mono)
  have 5: "valid (onDB ?K3) (execDB (drop_dtask i)) (\<lambda>_. onDB ?K3) (\<lambda>_. onDB (\<lambda>_. True))"
    by (rule db_exec_last) auto
  show "valid (onDB ?J)
     (thenM (execDB (\<lambda>d. d\<lparr>shares := tdelete (bucket_share (map fil_ID fs) ids) (shares d)\<rparr>))
     (thenM (execDB (\<lambda>d. d\<lparr>files := tdelete (\<lambda>r. fil_BucketID r = b) (files d)\<rparr>))
     (thenM (execDB (\<lambda>d. d\<lparr>folders := tdelete (\<lambda>r. fld_BucketID r = b) (folders d)\<rparr>))
     (thenM (execDB (\<lambda>d. d\<lparr>buckets := tdelete (\<lambda>r. bkt_ID r = b) (buckets d)\<rparr>))
     (thenM (execDB (drop_dtask i))
            (returnUsage (usageByUser fs))))))) (\<lambda>_. onDB db_inv) (\<lambda>_. onDB (\<lambda>_. True))"
    by (rule valid_then[OF _ 1] valid_then[OF _ 2] valid_then[OF _ 3] valid_then[OF _ 4] valid_then[OF _ 5] last)+
qed auto

lemma pres_deleteBucketTask [pres]: "preserves (onDB db_inv) (deleteBucketTask i t)"
  unfolding deleteBucketTask_def
  by (intro pres db_transaction_last valid_purgeBucket)


lemma pres_processDeleteTask [pres]: "preserves (onDB db_inv) (processDeleteTask i)"
  unfolding processDeleteTask_def by (intro pres)

lemma pres_processDeleteDirTask [pres]: "preserves (onDB db_inv) (processDeleteDirTask i)"
  unfolding processDeleteDirTask_def deleteDirTask_def by (intro pres)

lemma pres_ProcessDeleteTask [pres]: "preserves (onDB db_inv) (ProcessDeleteTask i)"
  unfolding ProcessDeleteTask_def by (intro pres)

lemma pres_createDeleteTask [pres]: "preserves (onDB db_inv) (createDeleteTask mk)"
  unfolding createDeleteTask_def by (rule pres_execRet) simp

lemma pres_DeleteDir [pres]: "preserves (onDB db_inv) (DeleteDir u b i)"
  unfolding DeleteDir_def by (intro pres)

lemma owing_update_buckets:
  assumes "owing B U d" "\<And>r. bkt_ID (g r) = bkt_ID r \<and> bkt_UsedSpace (g r) = bkt_UsedSpace r \<and> live_bkt (g r) = live_bkt r"
  shows "owing B U (d\<lparr>buckets := tupdate P g (buckets d)\<rparr>)"
  by (rule owing_buckets[OF assms(1)]) (use assms(2) in \<open>force simp: rows_tables split: if_splits\<close>)

lemma pres_DeleteBucket [pres]: "preserves (onDB db_inv) (DeleteBucket u b)"
  unfolding DeleteBucket_def
  by (intro pres pres_exec) (auto simp: db_inv_def live_bkt_def intro: owing_update_buckets)

section \<open>Lemmas: the batches end\<close>

lemma total_frame_parts [ends_rules]:
  "total (loadFolderByID i)" "total (checkDeleteOperator t)" "total (loadOperator t)" "total fileCount"
  "total (softDeleteFilesForTask ids)" "total (recycleFolderForTask j)" "total (finishFrame st fr)"
  "total (returnUsage us)" "total (purgeBucket i b)" "total (createDeleteTask mk)"
  unfolding loadFolderByID_def checkDeleteOperator_def loadOperator_def fileCount_def softDeleteFilesForTask_def
    recycleFolderForTask_def finishFrame_def returnUsage_def purgeBucket_def createDeleteTask_def
  by (intro ends_rules)+

lemma total_processDeleteTask [ends_rules]: "total (processDeleteTask i)"
  unfolding processDeleteTask_def deleteBucketTask_def by (intro ends_rules)

text \<open>A batch that is not empty moves the cursor past at least one of the keys above it.\<close>

lemma batch_progress:
  fixes f :: "'r \<Rightarrow> nat"
  assumes "xs = take limit (sort_key f (filter (\<lambda>r. P r \<and> (0 < c \<longrightarrow> c < f r)) rs))" "xs \<noteq> []"
  shows "c < f (last xs) \<or> c = 0 \<and> f (last xs) = 0" "last xs \<in> set rs"
proof -
  have "set xs \<subseteq> set (filter (\<lambda>r. P r \<and> (0 < c \<longrightarrow> c < f r)) rs)"
    unfolding assms(1) by (metis set_sort set_take_subset)
  then have "last xs \<in> set (filter (\<lambda>r. P r \<and> (0 < c \<longrightarrow> c < f r)) rs)" using assms(2) last_in_set by blast
  then show "c < f (last xs) \<or> c = 0 \<and> f (last xs) = 0" "last xs \<in> set rs" by auto
qed

section \<open>What a purged bucket leaves\<close>

definition bucket_gone :: "nat \<Rightarrow> db \<Rightarrow> bool" where
  "bucket_gone b d \<longleftrightarrow> (\<forall>r\<in>set (rows (files d)). fil_BucketID r \<noteq> b) \<and> (\<forall>r\<in>set (rows (folders d)). fld_BucketID r \<noteq> b) \<and>
     (\<forall>r\<in>set (rows (buckets d)). bkt_ID r \<noteq> b)"

lemma bucket_gone_return [simp]: "bucket_gone b (return_user_used u n d) = bucket_gone b d"
  by (simp add: bucket_gone_def return_user_used_def)

lemma pres_returnUsage_gone: "preserves (onDB (bucket_gone b)) (returnUsage us)"
  unfolding returnUsage_def returnUserUsedSpace_def by (intro pres pres_exec) simp

text \<open>Nothing outside the bucket is touched except the recorded use of the users and the task.\<close>

definition outside_kept :: "nat \<Rightarrow> db \<Rightarrow> db \<Rightarrow> bool" where
  "outside_kept b d e \<longleftrightarrow>
     filter (\<lambda>r. fil_BucketID r \<noteq> b) (rows (files e)) = filter (\<lambda>r. fil_BucketID r \<noteq> b) (rows (files d)) \<and>
     filter (\<lambda>r. fld_BucketID r \<noteq> b) (rows (folders e)) = filter (\<lambda>r. fld_BucketID r \<noteq> b) (rows (folders d)) \<and>
     filter (\<lambda>r. bkt_ID r \<noteq> b) (rows (buckets e)) = filter (\<lambda>r. bkt_ID r \<noteq> b) (rows (buckets d)) \<and>
     groups e = groups d \<and> members e = members d \<and> copyTasks e = copyTasks d \<and> tokens e = tokens d"

lemma outside_kept_steps [simp]:
  "outside_kept b d (return_user_used u n e) = outside_kept b d e"
  "outside_kept b d (drop_dtask i e) = outside_kept b d e"
  "outside_kept b d (e\<lparr>shares := t\<rparr>) = outside_kept b d e"
  "outside_kept b d (e\<lparr>files := tdelete (\<lambda>r. fil_BucketID r = b) (files e)\<rparr>) = outside_kept b d e"
  "outside_kept b d (e\<lparr>folders := tdelete (\<lambda>r. fld_BucketID r = b) (folders e)\<rparr>) = outside_kept b d e"
  "outside_kept b d (e\<lparr>buckets := tdelete (\<lambda>r. bkt_ID r = b) (buckets e)\<rparr>) = outside_kept b d e"
  by (simp_all add: outside_kept_def return_user_used_def drop_dtask_def rows_tables)

lemma valid_purgeBucket_effect:
  "valid (onDB (outside_kept b d0)) (purgeBucket i b) (\<lambda>_. onDB (\<lambda>d. outside_kept b d0 d \<and> bucket_gone b d)) (\<lambda>_. onDB (\<lambda>_. True))"
proof -
  have r: "preserves (onDB (\<lambda>d. outside_kept b d0 d \<and> bucket_gone b d)) (returnUsage us)" for us
    unfolding returnUsage_def returnUserUsedSpace_def by (intro pres pres_exec) simp
  have r': "valid (onDB (\<lambda>d. outside_kept b d0 d \<and> bucket_gone b d)) (returnUsage us)
      (\<lambda>_. onDB (\<lambda>d. outside_kept b d0 d \<and> bucket_gone b d)) (\<lambda>_. onDB (\<lambda>_. True))" for us
    by (rule valid_weaken[OF r]) (auto simp: onDB_def)
  show ?thesis
    unfolding purgeBucket_def
    by (intro db_query db_exec valid_onDB_pre[OF r'])
      (auto simp: bucket_gone_def outside_kept_def drop_dtask_def rows_tables)
qed

section \<open>What a directory task spares\<close>

definition operator_of :: "DeleteTask \<Rightarrow> db \<Rightarrow> operator" where
  "operator_of task d =
     (if dtk_OperatorID task > 0 then
        (map_option (\<lambda>u. u\<lparr>usr_Password := [], usr_NtHash := []\<rparr>) (the_user (dtk_OperatorID task) d),
         member_groups (dtk_OperatorID task) d)
      else (None, []))"

text \<open>From d to e the users and memberships stay, and so does every file the operator does not see.\<close>

definition spares :: "operator \<Rightarrow> db \<Rightarrow> db \<Rightarrow> bool" where
  "spares opr d e \<longleftrightarrow> users e = users d \<and> members e = members d \<and> distinct (map fil_ID (rows (files e))) \<and>
     (\<forall>r\<in>set (rows (files d)). \<not> op_sees opr (fil_VisibleToGroups r) \<longrightarrow> r \<in> set (rows (files e)))"

lemma spares_operator: "spares opr d e \<Longrightarrow> operator_of t e = operator_of t d"
  by (simp add: spares_def operator_of_def the_user_def member_groups_def)

lemma spares_steps [simp]:
  "spares opr d (set_isable P v e) = spares opr d e" "spares opr d (soft_delete_folder i now e) = spares opr d e"
  "spares opr d (drop_shares ids k e) = spares opr d e"
  "spares opr d (snd (acquire_dtask i now me e)) = spares opr d e" "spares opr d (snd (renew_dtask i now me e)) = spares opr d e"
  "spares opr d (release_dtask i me e) = spares opr d e" "spares opr d (pause_dtask i me e) = spares opr d e"
  "spares opr d (drop_dtask i e) = spares opr d e"
  by (simp_all add: spares_def set_isable_def soft_delete_folder_def drop_shares_def acquire_dtask_def renew_dtask_def
      release_dtask_def pause_dtask_def drop_dtask_def counted_update_def)

lemma pres_spares_locks [pres]:
  "preserves (onDB (spares opr d)) (withLock (acquire_dtask i))" "preserves (onDB (spares opr d)) (withLock (renew_dtask i))"
  "preserves (onDB (spares opr d)) (asMe (release_dtask i))" "preserves (onDB (spares opr d)) (asMe (pause_dtask i))"
  "preserves (onDB (spares opr d)) (execDB (drop_dtask i))" "preserves (onDB (spares opr d)) (execDB (set_isable P v))"
  "preserves (onDB (spares opr d)) (execDB (drop_shares ids k))" "preserves (onDB (spares opr d)) (execDB (soft_delete_folder j now))"
  by (intro pres_withLock pres_asMe pres_exec; simp)+

lemma spares_soft_delete:
  assumes "spares opr d e" "\<forall>f\<in>set fs. f \<in> set (rows (files e)) \<and> op_sees opr (fil_VisibleToGroups f)"
  shows "spares opr d (soft_delete_files (fil_ID ` set fs) now e)"
proof -
  let ?P = "\<lambda>r. live_fil r \<and> fil_ID r \<in> fil_ID ` set fs" and ?g = "\<lambda>r. r\<lparr>fil_DeletedAt := Some now\<rparr>"
  have dist: "distinct (map fil_ID (rows (files e)))" using assms(1) by (simp add: spares_def)
  have "r \<in> set (rows (tupdate ?P ?g (files e)))"
    if r: "r \<in> set (rows (files d))" "\<not> op_sees opr (fil_VisibleToGroups r)" for r
  proof -
    have re: "r \<in> set (rows (files e))" using assms(1) r by (simp add: spares_def)
    have "fil_ID r \<notin> fil_ID ` set fs"
      using assms(2) r(2) re dist by (auto simp: distinct_map dest: inj_onD)
    then have "\<not> ?P r" by simp
    with re show ?thesis by (force simp: rows_tables)
  qed
  moreover have "map fil_ID (rows (tupdate ?P ?g (files e))) = map fil_ID (rows (files e))"
    by (rule map_update_same) simp
  ultimately show ?thesis using assms(1) dist by (simp add: spares_def soft_delete_files_def)
qed

lemma valid_softDelete_spares:
  "valid (onDB (\<lambda>e. spares opr d e \<and> (\<forall>f\<in>set fs. f \<in> set (rows (files e)) \<and> op_sees opr (fil_VisibleToGroups f))))
     (softDeleteFilesForTask (map fil_ID fs)) (\<lambda>_. onDB (spares opr d)) (\<lambda>_. onDB (spares opr d))"
  unfolding softDeleteFilesForTask_def
  by (intro dbrules db_keep[OF pres_gets] db_transaction_last db_exec db_exec_last) (auto intro: spares_soft_delete)

lemma pres_recycle_spares [pres]: "preserves (onDB (spares opr d)) (recycleFolderForTask i)"
  unfolding recycleFolderForTask_def by (intro pres)

lemma pres_fileBatches_spares: "preserves (onDB (spares opr d)) (fileBatches n b opr f c r)"
proof (induction n arbitrary: c r)
  case (Suc n)
  have sub: "set (filter Q (take l (sort_key fil_ID (tfind P (files e))))) \<subseteq> set (rows (files e))" for Q l P e
    by (auto simp: tfind_def dest: in_set_takeD)
  let ?fs = "\<lambda>e. take deleteBatchSize (sort_key fil_ID (tfind
       (\<lambda>r. live_fil r \<and> fil_BucketID r = b \<and> fil_FolderID r = f \<and> (c > 0 \<longrightarrow> fil_ID r > c)) (files e)))"
  have del: "valid (onDB (\<lambda>e. spares opr d e \<and> ?fs e = fs))
      (thenM (if filter (\<lambda>f. op_sees opr (fil_VisibleToGroups f)) fs \<noteq> []
              then softDeleteFilesForTask (map fil_ID (filter (\<lambda>f. op_sees opr (fil_VisibleToGroups f)) fs)) else returnM ())
         (fileBatches n b opr f c' r')) (\<lambda>_. onDB (spares opr d)) (\<lambda>_. onDB (spares opr d))" for fs c' r'
    by (rule valid_then[OF Suc.IH], intro dbrules valid_onDB_pre[OF valid_softDelete_spares])
      (use sub in fastforce)+
  show ?case
    unfolding fileBatches.simps loadFilesBatch_def Let_def
    by (intro db_query dbrules del) auto
qed (simp add: pres)

lemma valid_loadOperator:
  "valid (onDB J) (loadOperator t) (\<lambda>opr. onDB (\<lambda>d. J d \<and> opr = operator_of t d)) (\<lambda>_. onDB J)"
proof (rule validI)
  fix s x t' assume J: "onDB J s" and r: "loadOperator t s = (Ok x, t')"
  have "wdb t' = wdb s" using keep_OkD[OF pres_loadOperator r] .
  moreover from r have "x = operator_of t (wdb s)"
    by (auto simp: loadOperator_def operator_of_def the_user_def split: if_splits elim!: bindM_OkE
        dest!: GetUser_OkD UserGroupIDs_OkD return_OkD)
  ultimately show "onDB (\<lambda>d. J d \<and> x = operator_of t d) t'" using J by (simp add: onDB_def)
next
  fix s e t' assume "onDB J s" "loadOperator t s = (Err e, t')"
  then show "onDB J t'" by (rule valid_ErrD[OF pres_loadOperator])
qed

lemma pres_dirRound_spares:
  assumes "opr = operator_of t d"
  shows "preserves (onDB (spares opr d)) (dirRound i t st idx)"
proof -
  have load: "preserves (onDB (spares opr d)) (bindM (loadOperator t) k)"
    if k: "preserves (onDB (spares opr d)) (k opr)" for k :: "operator \<Rightarrow> 'x W"
  proof (rule db_call[OF valid_loadOperator])
    fix x
    show "valid (onDB (\<lambda>e. spares opr d e \<and> x = operator_of t e)) (k x) (\<lambda>_. onDB (spares opr d)) (\<lambda>_. onDB (spares opr d))"
    proof (cases "x = opr")
      case True
      with k show ?thesis by (auto elim: valid_onDB_pre)
    next
      case False
      then show ?thesis using spares_operator[of opr d _ t] assms by (auto simp: valid_def onDB_def)
    qed
  qed
  show ?thesis
    unfolding dirRound_def Let_def finishFrame_def
    by (intro load pres_bind[of _ "withLock _"] pres pres_fileBatches_spares pres_folderBatches)
qed

lemma pres_dirRounds_spares: "opr = operator_of t d \<Longrightarrow> preserves (onDB (spares opr d)) (dirRounds n i t st idx)"
proof (induction n arbitrary: st idx)
  case 0
  show ?case by (cases idx) (simp_all add: pres)
next
  case (Suc n)
  then show ?case by (cases idx) (auto intro!: pres pres_dirRound_spares)
qed

lemma pres_deleteDirTask_spares: "opr = operator_of t d \<Longrightarrow> preserves (onDB (spares opr d)) (deleteDirTask i t)"
  unfolding deleteDirTask_def by (intro pres pres_dirRounds_spares)

lemma valid_processDeleteDirTask_spares:
  assumes "the_dtask i d = Some t" "dtk_DirID t > 0" "distinct (map fil_ID (rows (files d)))"
  shows "valid (onDB (\<lambda>e. e = d)) (processDeleteDirTask i)
     (\<lambda>_. onDB (spares (operator_of t d) d)) (\<lambda>_. onDB (spares (operator_of t d) d))"
proof -
  let ?S = "spares (operator_of t d) d"
  have S: "?S d" using assms(3) by (simp add: spares_def)
  have run: "preserves (onDB ?S) (bindM (withLock (acquire_dtask i)) (\<lambda>n.
      if n = 0 then returnM () else finallyM (deleteDirTask i t) (asMe (release_dtask i))))"
    by (intro pres pres_deleteDirTask_spares) simp
  show ?thesis
    unfolding processDeleteDirTask_def
  proof (rule db_query)
    fix x
    show "valid (onDB (\<lambda>e. e = d \<and> the_dtask i e = x)) (case x of None \<Rightarrow> returnM ()
       | Some task \<Rightarrow> if dtk_DirID task = 0 then processDeleteTask i
           else bindM (withLock (acquire_dtask i)) (\<lambda>n.
             if n = 0 then returnM () else finallyM (deleteDirTask i task) (asMe (release_dtask i))))
       (\<lambda>_. onDB ?S) (\<lambda>_. onDB ?S)"
    proof (cases "x = Some t")
      case True
      then show ?thesis using assms(2) S by (auto intro: valid_onDB_pre[OF run])
    next
      case False
      then have "\<not> onDB (\<lambda>e. e = d \<and> the_dtask i e = x) s" for s using assms(1) by (auto simp: onDB_def)
      then show ?thesis by (simp add: valid_def)
    qed
  qed (use S in auto)
qed

section \<open>Properties\<close>

text \<open>C9: when a bucket task runs to its end, no file row, folder row or bucket row of the bucket is left (rows
  in the recycle bin included), and the rows of all other buckets are as before.\<close>

theorem purgeBucket_effect:
  assumes "transaction (purgeBucket i b) w = (Ok x, w')"
  shows "bucket_gone b (wdb w') \<and> outside_kept b (wdb w) (wdb w')"
  using valid_OkD[OF db_transaction_last[OF valid_purgeBucket_effect[of b "wdb w" i], where E = "\<lambda>_ _. True"] _ assms]
  by (auto simp: onDB_def outside_kept_def)

theorem purgeBucket_effect_witness:
  "\<exists>w'. transaction (purgeBucket 5 1) sample = (Ok (), w') \<and> bucket_gone 1 (wdb w')"
proof -
  have "fst (transaction (purgeBucket 5 1) sample) = Ok ()" by code_simp
  then obtain w' where r: "transaction (purgeBucket 5 1) sample = (Ok (), w')" by (metis prod.collapse)
  from purgeBucket_effect[OF r] r show ?thesis by blast
qed


text \<open>C8: a directory task never removes a file its operator cannot see: the row stays as it was, live, whatever
  calls fail on the way.\<close>

theorem processDeleteDirTask_spares:
  assumes "processDeleteDirTask i w = (r, w')" "r \<noteq> Hang" "distinct (map fil_ID (rows (files (wdb w))))"
    and "the_dtask i (wdb w) = Some t" "dtk_DirID t > 0"
    and "f \<in> set (rows (files (wdb w)))" "\<not> op_sees (operator_of t (wdb w)) (fil_VisibleToGroups f)"
  shows "f \<in> set (rows (files (wdb w')))"
proof -
  note v = valid_processDeleteDirTask_spares[OF assms(4,5,3)]
  have "spares (operator_of t (wdb w)) (wdb w) (wdb w')"
    using assms(1,2) valid_OkD[OF v] valid_ErrD[OF v] by (cases r) (auto simp: onDB_def)
  with assms(6,7) show ?thesis by (simp add: spares_def)
qed

text \<open>In the sample, user 2 deletes docs, in which a file is visible to group 7 only.\<close>

definition sample_del :: world where
  "sample_del = sample\<lparr>wdb := sample_db\<lparr>deleteTasks := \<lparr>rows = [sample_dtask], seq = 2\<rparr>,
     files := \<lparr>rows = [sample_file, sample_file\<lparr>fil_ID := 2, fil_Name := ''b'', fil_NameLower := ''b'',
       fil_VisibleToGroups := ''[7]''\<rparr>], seq = 3\<rparr>\<rparr>\<rparr>"

theorem processDeleteDirTask_spares_witness:
  "map (\<lambda>r. (fil_ID r, fil_DeletedAt r)) (rows (files (wdb (snd (processDeleteDirTask 1 sample_del))))) =
     [(1, Some 0), (2, None)] \<and>
   sample_file\<lparr>fil_ID := 2, fil_Name := ''b'', fil_NameLower := ''b'', fil_VisibleToGroups := ''[7]''\<rparr>
     \<in> set (rows (files (wdb (snd (processDeleteDirTask 1 sample_del)))))"
proof
  have h: "fst (processDeleteDirTask 1 sample_del) \<noteq> Hang" by code_simp
  have d: "distinct (map fil_ID (rows (files (wdb sample_del))))" by code_simp
  have t: "the_dtask 1 (wdb sample_del) = Some sample_dtask" by code_simp
  have s: "\<not> op_sees (operator_of sample_dtask (wdb sample_del)) ''[7]''" by code_simp
  show "sample_file\<lparr>fil_ID := 2, fil_Name := ''b'', fil_NameLower := ''b'', fil_VisibleToGroups := ''[7]''\<rparr>
     \<in> set (rows (files (wdb (snd (processDeleteDirTask 1 sample_del)))))"
    by (rule processDeleteDirTask_spares[OF prod.collapse[symmetric] h d t])
      (use s in \<open>simp_all add: sample_dtask_def sample_del_def\<close>)
  show "map (\<lambda>r. (fil_ID r, fil_DeletedAt r)) (rows (files (wdb (snd (processDeleteDirTask 1 sample_del))))) =
     [(1, Some 0), (2, None)]"
    by code_simp
qed

end
