(* ===== verification/Recycle.thy ===== *)
theory Recycle
  imports DeleteTasks
begin

text \<open>
  The recycle bin (server/recycle_bin.go): soft-deleted rows keep their object and their use until
  they are restored, removed for good, or purged when they expire, files one by one and directories
  with their whole subtree.
\<close>

section \<open>Operations\<close>

definition recyclePurgeBatch :: nat where
  "recyclePurgeBatch = 100"

definition GetRecycledFile :: "nat \<Rightarrow> File W" where
  "GetRecycledFile fileID =
     bindM (queryDB (\<lambda>d. tfirst (\<lambda>r. fil_ID r = fileID \<and> fil_DeletedAt r \<noteq> None) (files d))) orNotFound"

definition drop_file_row :: "nat \<Rightarrow> db \<Rightarrow> db" where
  "drop_file_row i d = d\<lparr>files := tdelete (\<lambda>r. fil_ID r = i) (files d)\<rparr>"

text \<open>The use of the bucket is returned if the bucket is still there.\<close>

definition returnBucketUsage :: "nat \<Rightarrow> int \<Rightarrow> unit W" where
  "returnBucketUsage bucketID n =
     bindM (queryDB (the_bucket bucketID)) (\<lambda>b.
     case b of
       None \<Rightarrow> returnM ()
     | Some r \<Rightarrow> execDB (set_bucket_used bucketID (less_used (bkt_UsedSpace r) n)))"

definition purgeRecycledFile :: "File \<Rightarrow> unit W" where
  "purgeRecycledFile file =
     thenM (ignoreM (storageDelete (BucketEncoder (fil_BucketID file)) (objectKeyForFile (fil_ID file))))
     (transaction
       (thenM (execDB (drop_file_row (fil_ID file)))
       (thenM (execDB (drop_shares {fil_ID file} ItemKindFile))
       (thenM (returnBucketUsage (fil_BucketID file) (fil_FileSize file))
              (returnUserUsedSpace (fil_UploadedBy file) (fil_FileSize file))))))"

definition DeleteRecycledFile :: "nat \<Rightarrow> unit W" where
  "DeleteRecycledFile fileID = bindM (GetRecycledFile fileID) purgeRecycledFile"

definition restore_row :: "nat \<Rightarrow> File \<Rightarrow> string \<Rightarrow> File \<Rightarrow> File" where
  "restore_row folderID f name r =
     (let r' = r\<lparr>fil_DeletedAt := None, fil_FolderID := folderID\<rparr> in
      if name \<noteq> fil_Name f then r'\<lparr>fil_Name := name, fil_NameLower := ToLower name\<rparr> else r')"

definition RestoreRecycledFile :: "nat \<Rightarrow> File W" where
  "RestoreRecycledFile fileID =
     bindM (GetRecycledFile fileID) (\<lambda>f.
     bindM (if fil_FolderID f \<noteq> 0 then
              bindM (tryM (loadFolder (fil_BucketID f) (fil_FolderID f))) (\<lambda>r.
              case r of Inl _ \<Rightarrow> returnM 0 | Inr _ \<Rightarrow> returnM (fil_FolderID f))
            else returnM 0) (\<lambda>folderID.
     bindM (nameExists (fil_BucketID f) folderID (fil_Name f)) (\<lambda>ex.
     bindM (if ex then uniqueName (fil_BucketID f) folderID (fil_Name f) else returnM (fil_Name f)) (\<lambda>name.
     bindM (updateFiles (\<lambda>r. fil_ID r = fil_ID f) (restore_row folderID f name)) (\<lambda>u.
     case u of
       None \<Rightarrow> throwM ErrInternal
     | Some _ \<Rightarrow> loadFile (fil_BucketID f) (fil_ID f))))))"

definition returnedUsage :: "nat \<Rightarrow> File list \<Rightarrow> unit W" where
  "returnedUsage bucketID fs =
     thenM (returnBucketUsage bucketID (sum_list (map fil_FileSize fs))) (returnUsage (usageByUser fs))"

text \<open>One folder of the subtree: objects, then the rows in one transaction.\<close>

definition purgeFolderRows :: "nat \<Rightarrow> nat \<Rightarrow> File list \<Rightarrow> unit W" where
  "purgeFolderRows bucketID fid fs =
     (let ids = map fil_ID fs in
      transaction
        (thenM (if ids \<noteq> [] then
                  thenM (execDB (\<lambda>d. d\<lparr>files := tdelete (\<lambda>r. fil_ID r \<in> set ids) (files d)\<rparr>))
                        (execDB (drop_shares (set ids) ItemKindFile))
                else returnM ())
        (thenM (execDB (\<lambda>d. d\<lparr>folders := tdelete (\<lambda>r. fld_ID r = fid) (folders d)\<rparr>))
        (thenM (execDB (drop_shares {fid} ItemKindFolder))
               (returnedUsage bucketID fs)))))"

definition childrenOf :: "nat \<Rightarrow> nat \<Rightarrow> db \<Rightarrow> nat list" where
  "childrenOf bucketID fid d =
     map fld_ID (sort_key fld_ID (tfind (\<lambda>r. fld_BucketID r = bucketID \<and> fld_ParentID r = fid) (folders d)))"

definition filesIn :: "nat \<Rightarrow> nat \<Rightarrow> db \<Rightarrow> File list" where
  "filesIn bucketID fid d = tfind (\<lambda>r. fil_BucketID r = bucketID \<and> fil_FolderID r = fid) (files d)"

fun purgeSubtree_loop :: "nat \<Rightarrow> nat \<Rightarrow> nat list \<Rightarrow> unit W" where
  "purgeSubtree_loop fuel bucketID stack =
     (if stack = [] then returnM ()
      else (case fuel of 0 \<Rightarrow> hangM
        | Suc k \<Rightarrow>
            let fid = last stack in
            bindM (queryDB (childrenOf bucketID fid)) (\<lambda>children.
            bindM (queryDB (filesIn bucketID fid)) (\<lambda>fs.
            thenM (forM fs (\<lambda>f. ignoreM (storageDelete (BucketEncoder bucketID) (objectKeyForFile (fil_ID f)))))
           (thenM (purgeFolderRows bucketID fid fs)
                  (purgeSubtree_loop k bucketID (butlast stack @ children)))))))"

declare purgeSubtree_loop.simps [simp del]

definition purgeRecycledFolderSubtree :: "nat \<Rightarrow> nat \<Rightarrow> unit W" where
  "purgeRecycledFolderSubtree bucketID folderID =
     bindM folderCount (\<lambda>n. purgeSubtree_loop (Suc n) bucketID [folderID])"

text \<open>The batches of CleanExpiredRecycleBin; the count of purged rows is returned together with the error.\<close>

fun purgeEach :: "('r \<Rightarrow> unit W) \<Rightarrow> 'r list \<Rightarrow> nat \<Rightarrow> (nat \<times> err option) W" where
  "purgeEach purge [] n = returnM (n, None)"
| "purgeEach purge (r # rs) n =
     bindM (tryM (purge r)) (\<lambda>x.
     case x of Inl e \<Rightarrow> returnM (n, Some e) | Inr _ \<Rightarrow> purgeEach purge rs (Suc n))"

fun purgeBatches ::
  "nat \<Rightarrow> (nat \<Rightarrow> db \<Rightarrow> 'r list) \<Rightarrow> ('r \<Rightarrow> nat) \<Rightarrow> ('r \<Rightarrow> unit W) \<Rightarrow> nat \<Rightarrow> nat \<Rightarrow> (nat \<times> err option) W" where
  "purgeBatches 0 fetch key purge lastID n = hangM"
| "purgeBatches (Suc k) fetch key purge lastID n =
     bindM (tryM (queryDB (fetch lastID))) (\<lambda>x.
     case x of
       Inl e \<Rightarrow> returnM (n, Some e)
     | Inr rs \<Rightarrow>
         if rs = [] then returnM (n, None)
         else
           bindM (purgeEach purge rs n) (\<lambda>(m, e).
           if e \<noteq> None \<or> length rs < recyclePurgeBatch then returnM (m, e)
           else purgeBatches k fetch key purge (key (last rs)) m))"

declare purgeBatches.simps(2) [simp del]

definition expired :: "time option \<Rightarrow> time \<Rightarrow> bool" where
  "expired del cutoff \<longleftrightarrow> (case del of None \<Rightarrow> False | Some t \<Rightarrow> t < cutoff)"

definition expiredFiles :: "time \<Rightarrow> nat \<Rightarrow> db \<Rightarrow> File list" where
  "expiredFiles cutoff lastID d = take recyclePurgeBatch (sort_key fil_ID (tfind
     (\<lambda>r. expired (fil_DeletedAt r) cutoff \<and> (lastID > 0 \<longrightarrow> fil_ID r > lastID)) (files d)))"

definition expiredFolders :: "time \<Rightarrow> nat \<Rightarrow> db \<Rightarrow> Folder list" where
  "expiredFolders cutoff lastID d = take recyclePurgeBatch (sort_key fld_ID (tfind
     (\<lambda>r. expired (fld_DeletedAt r) cutoff \<and> (lastID > 0 \<longrightarrow> fld_ID r > lastID)) (folders d)))"

definition CleanExpiredRecycleBin :: "time \<Rightarrow> (nat \<times> nat \<times> err option) W" where
  "CleanExpiredRecycleBin cutoff =
     bindM fileCount (\<lambda>nf.
     bindM (purgeBatches (Suc nf) (expiredFiles cutoff) fil_ID purgeRecycledFile 0 0) (\<lambda>(fs, e).
     case e of
       Some _ \<Rightarrow> returnM (fs, 0, e)
     | None \<Rightarrow>
         bindM folderCount (\<lambda>nd.
         bindM (purgeBatches (Suc nd) (expiredFolders cutoff) fld_ID
            (\<lambda>r. purgeRecycledFolderSubtree (fld_BucketID r) (fld_ID r)) 0 0) (\<lambda>(ds, e).
         returnM (fs, ds, e)))))"

section \<open>Lemmas: the invariant\<close>

lemma pres_GetRecycledFile [pres]: "preserves (onDB J) (GetRecycledFile i)"
  unfolding GetRecycledFile_def by (intro pres)

lemma valid_returnBucketUsage:
  assumes "\<And>i. i \<noteq> b \<Longrightarrow> B i = 0" "B b = n"
  shows "valid (onDB (owing B U)) (returnBucketUsage b n) (\<lambda>_. onDB (owing (\<lambda>_. 0) U)) (\<lambda>_. onDB (\<lambda>_. True))"
proof -
  have B: "(\<lambda>j. B j - only b n j) = (\<lambda>_. 0)" using assms by (auto simp: only_def)
  show ?thesis
    unfolding returnBucketUsage_def
    by (intro db_query dbrules db_exec_last)
      (use owing_set_bucket_used[of B U _ b _ n] owing_no_bucket[of B U _ b n] assms(2) in \<open>auto simp: B\<close>)
qed

lemma valid_returnUser:
  "valid (onDB (owing B (only u n))) (returnUserUsedSpace u n) (\<lambda>_. onDB (owing B (\<lambda>_. 0))) (\<lambda>_. onDB (\<lambda>_. True))"
proof -
  have U: "(\<lambda>j. only u n j - only u n j) = (\<lambda>_. 0)" by simp
  have "owing B (\<lambda>_. 0) d" if "n \<le> 0" "owing B (only u n) d" for d
    by (rule owing_mono[OF that(2)]) (use that(1) in \<open>auto simp: only_def\<close>)
  then show ?thesis
    unfolding returnUserUsedSpace_def
    by (intro dbrules db_exec_last) (use owing_return_user_used[of B "only u n" _ n u] in auto)
qed

lemma row_or_gone_delete: "row_or_gone f d \<Longrightarrow> row_or_gone f (d\<lparr>files := tdelete Q (files d)\<rparr>)"
  by (auto simp: row_or_gone_def rows_tables)

lemma row_or_gone_other [simp]:
  "row_or_gone f (d\<lparr>shares := t1\<rparr>) = row_or_gone f d" "row_or_gone f (d\<lparr>buckets := t2\<rparr>) = row_or_gone f d"
  "row_or_gone f (d\<lparr>users := t3\<rparr>) = row_or_gone f d" "row_or_gone f (drop_shares ids k d) = row_or_gone f d"
  "row_or_gone f (return_user_used u n d) = row_or_gone f d" "row_or_gone f (set_bucket_used b n d) = row_or_gone f d"
  by (simp_all add: row_or_gone_def drop_shares_def return_user_used_def set_bucket_used_def)

text \<open>The purge of a file, and what it leaves of other rows that a caller still holds.\<close>

lemma valid_purge_body:
  "valid (onDB (\<lambda>d. db_inv d \<and> row_or_gone f d))
     (thenM (execDB (drop_file_row (fil_ID f))) (thenM (execDB (drop_shares {fil_ID f} ItemKindFile))
       (thenM (returnBucketUsage (fil_BucketID f) (fil_FileSize f)) (returnUserUsedSpace (fil_UploadedBy f) (fil_FileSize f)))))
     (\<lambda>_. onDB db_inv) (\<lambda>_. onDB (\<lambda>_. True))"
proof -
  let ?B = "only (fil_BucketID f) (fil_FileSize f)" and ?U = "only (fil_UploadedBy f) (fil_FileSize f)"
  have 1: "valid (onDB (\<lambda>d. db_inv d \<and> row_or_gone f d)) (execDB (drop_file_row (fil_ID f))) (\<lambda>_. onDB (owing ?B ?U)) (\<lambda>_. onDB (\<lambda>_. True))"
    by (rule db_exec_last) (auto simp: db_inv_def drop_file_row_def dest: owing_delete_file)
  have 2: "valid (onDB (owing ?B ?U)) (execDB (drop_shares {fil_ID f} ItemKindFile)) (\<lambda>_. onDB (owing ?B ?U)) (\<lambda>_. onDB (\<lambda>_. True))"
    by (rule db_exec_last) auto
  have 3: "valid (onDB (owing ?B ?U)) (returnBucketUsage (fil_BucketID f) (fil_FileSize f)) (\<lambda>_. onDB (owing (\<lambda>_. 0) ?U)) (\<lambda>_. onDB (\<lambda>_. True))"
    by (rule valid_returnBucketUsage) (auto simp: only_def)
  show ?thesis
    unfolding db_inv_def[abs_def]
    by (rule valid_then[OF _ 1[unfolded db_inv_def[abs_def]]] valid_then[OF _ 2] valid_then[OF _ 3] valid_returnUser)+
qed

lemma pres_row_or_gone: "preserves (onDB (row_or_gone r)) (purgeRecycledFile f)"
  unfolding purgeRecycledFile_def returnBucketUsage_def returnUserUsedSpace_def drop_file_row_def
  by (intro pres pres_exec) (auto intro: row_or_gone_delete)

lemma valid_purgeRecycledFile:
  "valid (onDB (\<lambda>d. db_inv d \<and> row_or_gone f d)) (purgeRecycledFile f) (\<lambda>_. onDB db_inv) (\<lambda>_. onDB db_inv)"
  unfolding purgeRecycledFile_def
  by (rule db_keep_ignore[OF pres_storage(4)], rule db_transaction_last[OF valid_purge_body]) auto


lemma valid_GetRecycledFile:
  "valid (onDB J) (GetRecycledFile i) (\<lambda>f. onDB (\<lambda>d. J d \<and> f \<in> set (rows (files d)) \<and> fil_ID f = i \<and> fil_DeletedAt f \<noteq> None))
     (\<lambda>_. onDB J)"
  unfolding GetRecycledFile_def by (rule valid_onDB[OF valid_load]) (auto dest: tfirst_Some)

lemma pres_DeleteRecycledFile [pres]: "preserves (onDB db_inv) (DeleteRecycledFile i)"
  unfolding DeleteRecycledFile_def
  by (rule db_call[OF valid_GetRecycledFile], rule valid_onDB_pre[OF valid_purgeRecycledFile])
    (auto simp: db_inv_def dest: known_row)

lemma pres_updateFiles:
  assumes "\<And>r. Q r \<Longrightarrow> fil_ID (g r) = fil_ID r \<and> fil_FileSize (g r) = fil_FileSize r \<and> fil_BucketID (g r) = fil_BucketID r \<and>
      fil_UploadedBy (g r) = fil_UploadedBy r"
  shows "preserves (onDB db_inv) (updateFiles Q g)"
  unfolding updateFiles_def
  by (rule pres_tryExec) (use assms in \<open>auto simp: Let_def db_inv_def intro!: owing_update_files split: if_splits\<close>)

lemma pres_RestoreRecycledFile [pres]: "preserves (onDB db_inv) (RestoreRecycledFile i)"
  unfolding RestoreRecycledFile_def
  by (intro pres pres_updateFiles) (auto simp: restore_row_def Let_def)

subsection \<open>The subtree\<close>

lemma fsum_ids:
  assumes "files_ok d" "fs = tfind Q (files d)"
  shows "fsum (\<lambda>r. P r \<and> fil_ID r \<in> set (map fil_ID fs)) d = fsum (\<lambda>r. P r \<and> Q r) d"
proof (rule fsum_cong)
  fix r assume r: "r \<in> set (rows (files d))"
  have "fil_ID r \<in> fil_ID ` set fs \<longleftrightarrow> Q r"
    using r assms files_ok_key[OF assms(1)] by (fastforce simp: tfind_def)
  then show "(P r \<and> fil_ID r \<in> set (map fil_ID fs)) \<longleftrightarrow> (P r \<and> Q r)" by simp
qed

lemma purge_ids:
  assumes "db_inv d" "fs = filesIn b p d"
  shows "owing (only b (sum_list (map fil_FileSize fs))) (owed (usageByUser fs))
     (d\<lparr>files := tdelete (\<lambda>r. fil_ID r \<in> set (map fil_ID fs)) (files d)\<rparr>)"
proof (rule owing_mono[OF owing_delete_files[OF assms(1)[unfolded db_inv_def]]])
  let ?Q = "\<lambda>r. fil_BucketID r = b \<and> fil_FolderID r = p"
  have fs: "fs = tfind ?Q (files d)" using assms(2) by (simp add: filesIn_def)
  have ok: "files_ok d" using assms(1) by (simp add: db_inv_def owing_def)
  have sum: "sum_list (map fil_FileSize fs) = fsum ?Q d" unfolding fs tfind_def fsum_def ..
  fix i
  have "fsum (\<lambda>f. fil_BucketID f = i \<and> fil_ID f \<in> set (map fil_ID fs)) d = fsum (\<lambda>f. fil_BucketID f = i \<and> ?Q f) d"
    by (rule fsum_ids[OF ok fs])
  moreover have "i \<noteq> b \<Longrightarrow> fsum (\<lambda>f. fil_BucketID f = i \<and> ?Q f) d = fsum (\<lambda>_. False) d" by (intro fsum_cong) auto
  moreover have "fsum (\<lambda>f. fil_BucketID f = b \<and> ?Q f) d = fsum ?Q d" by (intro fsum_cong) auto
  ultimately show "0 + fsum (\<lambda>f. fil_BucketID f = i \<and> fil_ID f \<in> set (map fil_ID fs)) d \<le> only b (sum_list (map fil_FileSize fs)) i"
    unfolding sum only_def by (auto simp: fsum_def)
  show "0 + fsum (\<lambda>f. fil_UploadedBy f = i \<and> fil_ID f \<in> set (map fil_ID fs)) d \<le> owed (usageByUser fs) i"
    unfolding fsum_ids[OF ok fs] by (simp add: fs owed_found)
qed

lemma valid_purgeFolderRows:
  "valid (onDB (\<lambda>d. db_inv d \<and> filesIn b p d = fs)) (purgeFolderRows b p fs) (\<lambda>_. onDB db_inv) (\<lambda>_. onDB db_inv)"
proof (cases "\<forall>x\<in>set (usageByUser fs). 0 \<le> snd x")
  case True
  let ?n = "sum_list (map fil_FileSize fs)" and ?U = "owed (usageByUser fs)"
  let ?J = "\<lambda>d. db_inv d \<and> filesIn b p d = fs" and ?K = "owing (only b ?n) ?U"
  have 0: "valid (onDB ?J) (if map fil_ID fs \<noteq> [] then
        thenM (execDB (\<lambda>d. d\<lparr>files := tdelete (\<lambda>r. fil_ID r \<in> set (map fil_ID fs)) (files d)\<rparr>))
              (execDB (drop_shares (set (map fil_ID fs)) ItemKindFile)) else returnM ())
      (\<lambda>_. onDB ?K) (\<lambda>_. onDB (\<lambda>_. True))"
  proof (intro dbrules db_exec db_exec_last)
    fix d assume d: "?J d" and e: "\<not> map fil_ID fs \<noteq> []"
    then have "?n = 0" "?U = (\<lambda>_. 0)" by (auto simp: owed_def usageByUser_def)
    then show "?K d" using d by (simp add: db_inv_def)
  next
    fix d assume "\<exists>e. ?J e \<and> d = e\<lparr>files := tdelete (\<lambda>r. fil_ID r \<in> set (map fil_ID fs)) (files e)\<rparr>"
    then show "?K (drop_shares (set (map fil_ID fs)) ItemKindFile d)" using purge_ids by auto
  qed auto
  have 1: "valid (onDB ?K) (execDB (\<lambda>d. d\<lparr>folders := tdelete (\<lambda>r. fld_ID r = p) (folders d)\<rparr>)) (\<lambda>_. onDB ?K) (\<lambda>_. onDB (\<lambda>_. True))"
    by (rule db_exec_last) (auto intro: owing_delete_folders)
  have 2: "valid (onDB ?K) (execDB (drop_shares {p} ItemKindFolder)) (\<lambda>_. onDB ?K) (\<lambda>_. onDB (\<lambda>_. True))"
    by (rule db_exec_last) auto
  have 3: "valid (onDB ?K) (returnedUsage b fs) (\<lambda>_. onDB db_inv) (\<lambda>_. onDB (\<lambda>_. True))"
    unfolding returnedUsage_def db_inv_def[abs_def]
    by (rule valid_then[OF valid_returnUsage[OF True] valid_returnBucketUsage]) (auto simp: only_def)
  show ?thesis
    unfolding purgeFolderRows_def Let_def
    by (rule db_transaction_last, (rule valid_then[OF _ 0] valid_then[OF _ 1] valid_then[OF _ 2] 3)+) auto
next
  case False
  have "\<not> (db_inv d \<and> filesIn b p d = fs)" for d
    using False usage_nonneg[of fs] found_nonneg[of d] by (auto simp: db_inv_def owing_def filesIn_def)
  then show ?thesis by (rule valid_absurd)
qed

lemma pres_deleteObjects: "preserves (onDB J) (forM fs (\<lambda>f. ignoreM (storageDelete b (k f))))"
  by (intro pres)

lemma pres_purgeSubtree_loop: "preserves (onDB db_inv) (purgeSubtree_loop n b st)"
proof (induction n arbitrary: st)
  case 0
  show ?case by (subst purgeSubtree_loop.simps) (simp add: pres)
next
  case (Suc n)
  have "valid (onDB (\<lambda>d. (db_inv d \<and> childrenOf b (last st) d = cs) \<and> filesIn b (last st) d = fs))
      (thenM (forM fs (\<lambda>f. ignoreM (storageDelete (BucketEncoder b) (objectKeyForFile (fil_ID f)))))
      (thenM (purgeFolderRows b (last st) fs) (purgeSubtree_loop n b (butlast st @ cs))))
      (\<lambda>_. onDB db_inv) (\<lambda>_. onDB db_inv)" for cs fs
    by (rule db_keep_then[OF pres_deleteObjects], rule valid_then[OF Suc.IH], rule valid_onDB_pre[OF valid_purgeFolderRows]) auto
  then show ?case
    by (subst purgeSubtree_loop.simps) (auto simp: Let_def intro!: dbrules db_query)
qed

lemma pres_purgeRecycledFolderSubtree [pres]: "preserves (onDB db_inv) (purgeRecycledFolderSubtree b i)"
  unfolding purgeRecycledFolderSubtree_def by (intro pres pres_purgeSubtree_loop)

subsection \<open>The batches\<close>

lemma valid_purgeEach_files:
  "valid (onDB (\<lambda>d. db_inv d \<and> (\<forall>r\<in>set rs. row_or_gone r d))) (purgeEach purgeRecycledFile rs n)
     (\<lambda>_. onDB db_inv) (\<lambda>_. onDB db_inv)"
proof (induction rs arbitrary: n)
  case Nil
  show ?case by (simp, intro dbrules) auto
next
  case (Cons r rs)
  let ?R = "\<lambda>d. \<forall>x\<in>set rs. row_or_gone x d"
  have keep: "preserves (onDB ?R) (purgeRecycledFile r)"
    unfolding purgeRecycledFile_def returnBucketUsage_def returnUserUsedSpace_def drop_file_row_def
    by (intro pres pres_exec) (auto intro: row_or_gone_delete)
  have step: "valid (onDB (\<lambda>d. db_inv d \<and> (\<forall>x\<in>set (r # rs). row_or_gone x d))) (purgeRecycledFile r)
     (\<lambda>_. onDB (\<lambda>d. db_inv d \<and> ?R d)) (\<lambda>_. onDB (\<lambda>d. db_inv d \<and> ?R d))"
    by (rule valid_weaken[OF valid_conj[OF valid_purgeRecycledFile keep]]) (auto simp: onDB_def)
  show ?case
    unfolding purgeEach.simps by (rule db_try[OF step]) (auto intro!: dbrules Cons.IH)
qed

lemma pres_purgeEach: "(\<And>r. preserves I (p r)) \<Longrightarrow> preserves I (purgeEach p rs n)"
  by (induction rs arbitrary: n) (auto intro!: pres)

lemma pres_purgeBatches_files: "preserves (onDB db_inv) (purgeBatches k (expiredFiles c) fil_ID purgeRecycledFile l n)"
proof (induction k arbitrary: l n)
  case (Suc k)
  have sub: "set (expiredFiles c l d) \<subseteq> set (rows (files d))" for d
    by (auto simp: expiredFiles_def tfind_def dest: in_set_takeD)
  have each: "valid (onDB (\<lambda>d. db_inv d \<and> expiredFiles c l d = rs)) (purgeEach purgeRecycledFile rs n)
     (\<lambda>_. onDB db_inv) (\<lambda>_. onDB db_inv)" for rs
    by (rule valid_onDB_pre[OF valid_purgeEach_files]) (use sub in \<open>force simp: db_inv_def dest: known_row\<close>)
  have q: "valid (onDB db_inv) (queryDB (expiredFiles c l)) (\<lambda>x. onDB (\<lambda>d. db_inv d \<and> expiredFiles c l d = x)) (\<lambda>_. onDB db_inv)"
    by (rule valid_onDB[OF valid_query]) auto
  show ?case
    unfolding purgeBatches.simps
    by (rule db_try[OF q]) (auto intro!: dbrules Suc.IH db_call[OF each])
qed (simp add: pres)

lemma pres_purgeBatches: "(\<And>r. preserves (onDB J) (p r)) \<Longrightarrow> preserves (onDB J) (purgeBatches k fetch key p l n)"
  by (induction k arbitrary: l n) (auto intro!: pres pres_purgeEach simp: purgeBatches.simps(2))

lemma pres_CleanExpiredRecycleBin [pres]: "preserves (onDB db_inv) (CleanExpiredRecycleBin c)"
  unfolding CleanExpiredRecycleBin_def
  by (intro pres pres_purgeBatches_files pres_purgeBatches)


section \<open>Lemmas: termination\<close>

lemma total_recycle_parts [ends_rules]:
  "total (GetRecycledFile i)" "total (returnBucketUsage b n)" "total (purgeRecycledFile f)" "total (purgeFolderRows b i fs)"
proof -
  show "total (GetRecycledFile i)" unfolding GetRecycledFile_def by (intro ends_rules)
  show 1: "total (returnBucketUsage b n)" for b n unfolding returnBucketUsage_def by (intro ends_rules)
  show "total (purgeRecycledFile f)" unfolding purgeRecycledFile_def by (intro ends_rules 1)
  show "total (purgeFolderRows b i fs)"
    unfolding purgeFolderRows_def returnedUsage_def Let_def by (intro ends_rules 1)
qed

lemma total_recycle_ops [ends_rules]: "total (DeleteRecycledFile i)" "total (RestoreRecycledFile i)"
  unfolding DeleteRecycledFile_def RestoreRecycledFile_def by (intro ends_rules)+

lemma pres_folders_returned: "preserves (onDB (\<lambda>d. folders d = t)) (returnedUsage b fs)"
  unfolding returnedUsage_def returnBucketUsage_def returnUsage_def returnUserUsedSpace_def
  by (intro pres pres_exec) (auto simp: set_bucket_used_def return_user_used_def)

lemma valid_purgeFolderRows_folders:
  "valid (onDB (\<lambda>d. folders d = t)) (purgeFolderRows b p fs)
     (\<lambda>_. onDB (\<lambda>d. folders d = tdelete (\<lambda>r. fld_ID r = p) t)) (\<lambda>_. onDB (\<lambda>_. True))"
proof -
  have r: "valid (onDB (\<lambda>d. folders d = t')) (returnedUsage b fs) (\<lambda>_. onDB (\<lambda>d. folders d = t')) (\<lambda>_. onDB (\<lambda>_. True))" for t'
    by (rule valid_weaken[OF pres_folders_returned]) (auto simp: onDB_def)
  have 0: "valid (onDB (\<lambda>d. folders d = t)) (if map fil_ID fs \<noteq> [] then
        thenM (execDB (\<lambda>d. d\<lparr>files := tdelete (\<lambda>r. fil_ID r \<in> set (map fil_ID fs)) (files d)\<rparr>))
              (execDB (drop_shares (set (map fil_ID fs)) ItemKindFile)) else returnM ())
      (\<lambda>_. onDB (\<lambda>d. folders d = t)) (\<lambda>_. onDB (\<lambda>_. True))"
    by (intro dbrules db_exec db_exec_last) (auto simp: drop_shares_def)
  have 1: "valid (onDB (\<lambda>d. folders d = t)) (thenM (execDB (\<lambda>d. d\<lparr>folders := tdelete (\<lambda>r. fld_ID r = p) (folders d)\<rparr>))
        (thenM (execDB (drop_shares {p} ItemKindFolder)) (returnedUsage b fs)))
      (\<lambda>_. onDB (\<lambda>d. folders d = tdelete (\<lambda>r. fld_ID r = p) t)) (\<lambda>_. onDB (\<lambda>_. True))"
    by (intro db_exec valid_onDB_pre[OF r]) (auto simp: drop_shares_def)
  show ?thesis
    unfolding purgeFolderRows_def Let_def
    by (rule db_transaction_last, rule valid_then[OF 1 0]) auto
qed

text \<open>
  The stack: no folder twice, none already purged, and each one's parent purged before it (V is what has
  been purged).
\<close>

definition stack_ok :: "nat set \<Rightarrow> nat list \<Rightarrow> Folder tbl \<Rightarrow> bool" where
  "stack_ok V st t \<longleftrightarrow> distinct (map fld_ID (rows t)) \<and> fld_ID ` set (rows t) \<inter> V = {} \<and> distinct st \<and> set st \<inter> V = {} \<and>
     (\<forall>x\<in>set st. \<exists>r\<in>set (rows t). fld_ID r = x \<and> fld_ParentID r \<in> V)"

definition kids :: "nat \<Rightarrow> nat \<Rightarrow> Folder tbl \<Rightarrow> nat list" where
  "kids b p t = map fld_ID (sort_key fld_ID (tfind (\<lambda>r. fld_BucketID r = b \<and> fld_ParentID r = p) t))"

lemma kids_set: "c \<in> set (kids b p t) \<Longrightarrow> \<exists>r\<in>set (rows t). fld_ID r = c \<and> fld_ParentID r = p"
  by (auto simp: kids_def tfind_def)

lemma kids_distinct: "distinct (map fld_ID (rows t)) \<Longrightarrow> distinct (kids b p t)"
  unfolding kids_def tfind_def by (simp add: distinct_map inj_on_def)

lemma stack_ok_step:
  assumes "stack_ok V st t" "st \<noteq> []"
  shows "stack_ok (insert (last st) V) (butlast st @ kids b (last st) t) (tdelete (\<lambda>r. fld_ID r = last st) t)"
    and "length (rows (tdelete (\<lambda>r. fld_ID r = last st) t)) < length (rows t)"
proof -
  let ?x = "last st"
  have st: "st = butlast st @ [?x]" using assms(2) by simp
  have dist: "distinct (map fld_ID (rows t))" and dV: "fld_ID ` set (rows t) \<inter> V = {}" and ds: "distinct st" and sV: "set st \<inter> V = {}"
    and par: "\<And>y. y \<in> set st \<Longrightarrow> \<exists>r\<in>set (rows t). fld_ID r = y \<and> fld_ParentID r \<in> V"
    using assms(1) by (auto simp: stack_ok_def)
  have key: "r = q" if "r \<in> set (rows t)" "q \<in> set (rows t)" "fld_ID r = fld_ID q" for r q
    using that dist by (auto simp: distinct_map dest: inj_onD)
  have x: "?x \<in> set st" "?x \<notin> V" using last_in_set[OF assms(2)] sV by auto
  have kid: "c \<notin> V \<and> c \<notin> set st" if c: "c \<in> set (kids b ?x t)" for c
  proof -
    obtain r where r: "r \<in> set (rows t)" "fld_ID r = c" "fld_ParentID r = ?x" using kids_set[OF c] by auto
    then have "c \<notin> set st" using par[of c] key x(2) by metis
    then show ?thesis using r dV by auto
  qed
  have dx: "?x \<notin> set (butlast st)" using ds st by (metis distinct_append distinct_singleton not_distinct_conv_prefix disjoint_insert(1) list.set(2) append_is_Nil_conv)
  have b: "set (butlast st) \<subseteq> set st" by (meson in_set_butlastD subsetI)
  have "distinct (butlast st @ kids b ?x t)"
    using kid b ds kids_distinct[OF dist] by (auto simp: distinct_butlast)
  moreover have "set (butlast st @ kids b ?x t) \<inter> insert ?x V = {}" using kid b sV dx x(1) by auto
  moreover have "\<exists>r\<in>set (rows (tdelete (\<lambda>r. fld_ID r = ?x) t)). fld_ID r = y \<and> fld_ParentID r \<in> insert ?x V"
    if y: "y \<in> set (butlast st @ kids b ?x t)" for y
  proof -
    have "y \<noteq> ?x" using y kid x(1) dx by auto
    moreover have "\<exists>r\<in>set (rows t). fld_ID r = y \<and> fld_ParentID r \<in> insert ?x V"
      using y par[of y] kids_set[of y b ?x t] b by auto
    ultimately show ?thesis by (auto simp: rows_tables)
  qed
  ultimately show "stack_ok (insert ?x V) (butlast st @ kids b ?x t) (tdelete (\<lambda>r. fld_ID r = ?x) t)"
    using dist dV by (auto simp: stack_ok_def rows_tables distinct_map_filter)
  obtain r where "r \<in> set (rows t)" "fld_ID r = ?x" using par[OF x(1)] by auto
  then show "length (rows (tdelete (\<lambda>r. fld_ID r = ?x) t)) < length (rows t)"
    unfolding rows_tables by (intro length_filter_less) auto
qed

lemma purge_round_ends:
  assumes "st \<noteq> []" "ends (onDB (\<lambda>d. folders d = tdelete (\<lambda>r. fld_ID r = last st) t0)) (purgeSubtree_loop n b (butlast st @ kids b (last st) t0))"
  shows "ends (onDB (\<lambda>d. folders d = t0)) (purgeSubtree_loop (Suc n) b st)"
proof -
  have q: "valid (onDB (\<lambda>d. folders d = t0)) (queryDB (childrenOf b (last st)))
      (\<lambda>x. onDB (\<lambda>d. folders d = t0 \<and> x = kids b (last st) t0)) (\<lambda>_ _. True)"
    by (rule valid_weaken[OF valid_query[where J = "\<lambda>d. folders d = t0"]]) (auto simp: onDB_def childrenOf_def kids_def)
  have tail: "ends (onDB (\<lambda>d. folders d = t0)) (thenM (forM fs (\<lambda>f. ignoreM (storageDelete (BucketEncoder b) (objectKeyForFile (fil_ID f)))))
      (thenM (purgeFolderRows b (last st) fs) (purgeSubtree_loop n b (butlast st @ kids b (last st) t0))))" for fs
    unfolding thenM_def
    by (rule ends_bind[where R = "\<lambda>_. onDB (\<lambda>d. folders d = t0)"], rule ends_pre[where P = "\<lambda>_. True"])
      (auto intro!: ends_rules valid_weaken[OF pres_deleteObjects] assms(2) ends_pre[OF total_recycle_parts(4)]
        ends_bind[where R = "\<lambda>_. onDB (\<lambda>d. folders d = tdelete (\<lambda>r. fld_ID r = last st) t0)"]
        valid_weaken[OF valid_purgeFolderRows_folders])
  have "ends (onDB (\<lambda>d. folders d = t0 \<and> cs = kids b (last st) t0)) (bindM (queryDB (filesIn b (last st))) (\<lambda>fs.
      thenM (forM fs (\<lambda>f. ignoreM (storageDelete (BucketEncoder b) (objectKeyForFile (fil_ID f)))))
      (thenM (purgeFolderRows b (last st) fs) (purgeSubtree_loop n b (butlast st @ cs)))))" for cs
  proof (cases "cs = kids b (last st) t0")
    case True
    show ?thesis unfolding True
      by (rule ends_bind[where R = "\<lambda>_. onDB (\<lambda>d. folders d = t0)"])
        (auto intro!: ends_rules tail valid_weaken[OF pres_query[where J = "\<lambda>d. folders d = t0"]] simp: onDB_def)
  qed (simp add: ends_def onDB_def)
  then show ?thesis
    using assms(1) by (subst purgeSubtree_loop.simps) (auto simp: Let_def intro!: ends_rules ends_bind[OF _ q])
qed

lemma purgeSubtree_loop_ends:
  "stack_ok V st t \<Longrightarrow> length (rows t) \<le> n \<Longrightarrow> ends (onDB (\<lambda>d. folders d = t)) (purgeSubtree_loop n b st)"
proof (induction n arbitrary: V st t)
  case 0
  then have "st = []" by (cases st) (auto simp: stack_ok_def)
  then show ?case by (subst purgeSubtree_loop.simps) (simp add: ends_rules)
next
  case (Suc n)
  show ?case
  proof (cases "st = []")
    case True
    then show ?thesis by (subst purgeSubtree_loop.simps) (simp add: ends_rules)
  next
    case False
    from stack_ok_step(1)[OF Suc.prems(1) False] stack_ok_step(2)[OF Suc.prems(1) False] Suc.prems(2)
    show ?thesis by (intro purge_round_ends[OF False] Suc.IH) auto
  qed
qed

lemma purgeRecycledFolderSubtree_ends: "ends (onDB db_inv) (purgeRecycledFolderSubtree b i)"
proof -
  have "fst (purgeSubtree_loop (Suc (length (rows (folders (wdb w))))) b [i] w) \<noteq> Hang" if "db_inv (wdb w)" for w
  proof -
    let ?t = "folders (wdb w)"
    have t: "distinct (map fld_ID (rows ?t))" "acyclic (parent_rel (wdb w))"
      using db_inv_tree[OF that] by (auto simp: tree_inv_def)
    have ni: "i \<notin> set (kids b i ?t)"
      using kids_set[of i b i ?t] t(2) by (force simp: acyclic_def parent_rel_def)
    have "stack_ok {i} (kids b i ?t) (tdelete (\<lambda>r. fld_ID r = i) ?t)"
      using t(1) ni kids_distinct[OF t(1)] kids_set[of _ b i ?t]
      by (fastforce simp: stack_ok_def rows_tables distinct_map_filter)
    then have "ends (onDB (\<lambda>d. folders d = tdelete (\<lambda>r. fld_ID r = i) ?t)) (purgeSubtree_loop (length (rows ?t)) b (kids b i ?t))"
      by (rule purgeSubtree_loop_ends) (simp add: rows_tables)
    then have "ends (onDB (\<lambda>d. folders d = ?t)) (purgeSubtree_loop (Suc (length (rows ?t))) b [i])"
      by (intro purge_round_ends) auto
    then show ?thesis by (simp add: ends_def onDB_def)
  qed
  then show ?thesis
    by (auto simp: ends_def onDB_def purgeRecycledFolderSubtree_def folderCount_def bindM_def getsM_def)
qed


subsection \<open>The batches end\<close>

lemma purgeBatches_ends:
  assumes each: "\<And>rs n. ends (onDB J) (purgeEach purge rs n)"
    and fetch: "\<And>l d r. J d \<Longrightarrow> r \<in> set (fetch l d) \<Longrightarrow> key r \<in> ks d \<and> l < key r"
    and step: "\<And>rs l n K. valid (onDB (\<lambda>d. (J d \<and> ks d \<subseteq> K) \<and> fetch l d = rs)) (purgeEach purge rs n)
       (\<lambda>_. onDB (\<lambda>d. J d \<and> ks d \<subseteq> K)) (\<lambda>_ _. True)"
  shows "finite K \<Longrightarrow> card {x\<in>K. l < x} < k \<Longrightarrow> ends (onDB (\<lambda>d. J d \<and> ks d \<subseteq> K)) (purgeBatches k fetch key purge l n)"
proof (induction k arbitrary: l n)
  case (Suc k)
  let ?J = "\<lambda>d. J d \<and> ks d \<subseteq> K"
  have q: "valid (onDB ?J) (tryM (queryDB (fetch l))) (\<lambda>x. onDB (\<lambda>d. ?J d \<and> (case x of Inl _ \<Rightarrow> True | Inr rs \<Rightarrow> fetch l d = rs))) (\<lambda>_ _. True)"
    by (rule valid_try, rule valid_weaken[OF valid_query[where J = ?J]]) (auto simp: onDB_def)
  have rest: "ends (onDB (\<lambda>d. ?J d \<and> fetch l d = rs)) (bindM (purgeEach purge rs n) (\<lambda>(m, e).
      if e \<noteq> None \<or> length rs < recyclePurgeBatch then returnM (m, e) else purgeBatches k fetch key purge (key (last rs)) m))"
    if "rs \<noteq> []" for rs
  proof (cases "\<exists>d. ?J d \<and> fetch l d = rs")
    case True
    then have x: "key (last rs) \<in> K" "l < key (last rs)" using fetch[of _ "last rs" l] last_in_set[OF that] by blast+
    then have "{y\<in>K. key (last rs) < y} \<subset> {y\<in>K. l < y}" by auto
    from psubset_card_mono[OF _ this] have "card {y\<in>K. key (last rs) < y} < k" using Suc.prems by simp
    then have "ends (onDB ?J) (purgeBatches k fetch key purge (key (last rs)) m)" for m using Suc by simp
    then show ?thesis
      by (intro ends_bind[OF _ step] ends_pre[OF each]) (auto simp: onDB_def intro!: ends_rules split: prod.splits)
  next
    case False
    then show ?thesis by (intro ends_absurd) blast
  qed
  show ?case
    unfolding purgeBatches.simps
  proof (rule ends_bind[OF _ q])
    show "ends (onDB ?J) (tryM (queryDB (fetch l)))" by (intro ends_rules)
    fix x
    show "ends (onDB (\<lambda>d. ?J d \<and> (case x of Inl _ \<Rightarrow> True | Inr rs \<Rightarrow> fetch l d = rs))) (case x of Inl e \<Rightarrow> returnM (n, Some e)
     | Inr rs \<Rightarrow> if rs = [] then returnM (n, None) else bindM (purgeEach purge rs n) (\<lambda>(m, e).
           if e \<noteq> None \<or> length rs < recyclePurgeBatch then returnM (m, e)
           else purgeBatches k fetch key purge (key (last rs)) m))"
    proof (cases x)
      case (Inr rs)
      show ?thesis unfolding Inr sum.case by (cases "rs = []") (simp_all only: if_True if_False ends_return rest not_False_eq_True refl)
    qed (simp add: ends_rules)
  qed
qed simp

lemma total_purgeEach: "(\<And>r. total (p r)) \<Longrightarrow> total (purgeEach p rs n)"
  by (induction rs arbitrary: n) (auto intro!: ends_rules)

lemma ends_purgeEach_folders:
  "ends (onDB db_inv) (purgeEach (\<lambda>r. purgeRecycledFolderSubtree (fld_BucketID r) (fld_ID r)) rs n)"
proof (induction rs arbitrary: n)
  case (Cons r rs)
  have "valid (onDB db_inv) (tryM (purgeRecycledFolderSubtree b i)) (\<lambda>_. onDB db_inv) (\<lambda>_ _. True)" for b i
    by (rule valid_try) (rule pres_purgeRecycledFolderSubtree)
  then show ?case
    unfolding purgeEach.simps
    by (intro ends_bind[where R = "\<lambda>_. onDB db_inv"] ends_rules purgeRecycledFolderSubtree_ends Cons)
qed (simp add: ends_rules)

definition file_keys :: "db \<Rightarrow> nat set" where
  "file_keys d = fil_ID ` set (rows (files d))"

lemma pres_file_keys: "preserves (onDB (\<lambda>d. file_keys d \<subseteq> K)) (purgeRecycledFile f)"
  unfolding purgeRecycledFile_def returnBucketUsage_def returnUserUsedSpace_def
  by (intro pres pres_exec)
    (auto simp: file_keys_def drop_file_row_def drop_shares_def set_bucket_used_def return_user_used_def rows_tables)

lemma pres_folder_keys: "preserves (onDB (\<lambda>d. folder_ids d \<subseteq> K)) (purgeSubtree_loop n b st)"
proof (induction n arbitrary: st)
  case 0
  show ?case by (subst purgeSubtree_loop.simps) (simp add: pres)
next
  case (Suc n)
  have 1: "preserves (onDB (\<lambda>d. folder_ids d \<subseteq> K)) (purgeFolderRows b p fs)" for p fs
    unfolding purgeFolderRows_def returnedUsage_def returnBucketUsage_def returnUsage_def returnUserUsedSpace_def Let_def
    by (intro pres pres_exec)
      (auto simp: folder_ids_def drop_shares_def set_bucket_used_def return_user_used_def rows_tables)
  show ?case by (subst purgeSubtree_loop.simps) (auto simp: Let_def intro!: pres 1 Suc)
qed

lemma CleanExpiredRecycleBin_ends: "ends (onDB db_inv) (CleanExpiredRecycleBin c)"
proof -
  let ?purge = "\<lambda>r. purgeRecycledFolderSubtree (fld_BucketID r) (fld_ID r)"
  have files: "finite K \<Longrightarrow> card {x\<in>K. l < x} < k \<Longrightarrow>
      ends (onDB (\<lambda>d. db_inv d \<and> file_keys d \<subseteq> K)) (purgeBatches k (expiredFiles c) fil_ID purgeRecycledFile l n)" for K l k n
  proof (rule purgeBatches_ends)
    show "ends (onDB db_inv) (purgeEach purgeRecycledFile rs n)" for rs n
      by (rule ends_pre[OF total_purgeEach]) (auto intro: ends_rules)
    show "db_inv d \<Longrightarrow> r \<in> set (expiredFiles c l d) \<Longrightarrow> fil_ID r \<in> file_keys d \<and> l < fil_ID r" for l d r
      by (auto simp: expiredFiles_def tfind_def file_keys_def db_inv_def owing_def files_ok_def dest!: in_set_takeD)
    show "valid (onDB (\<lambda>d. (db_inv d \<and> file_keys d \<subseteq> K) \<and> expiredFiles c l d = rs)) (purgeEach purgeRecycledFile rs n)
       (\<lambda>_. onDB (\<lambda>d. db_inv d \<and> file_keys d \<subseteq> K)) (\<lambda>_ _. True)" for rs l n K
    proof -
      have sub: "set (expiredFiles c l d) \<subseteq> set (rows (files d))" for d
        by (auto simp: expiredFiles_def tfind_def dest: in_set_takeD)
      show ?thesis
        by (rule valid_weaken[OF valid_conj[OF valid_purgeEach_files pres_purgeEach[OF pres_file_keys[of K]]]])
          (use sub in \<open>force simp: onDB_def db_inv_def dest: known_row\<close>)+
    qed
  qed
  have folders: "finite K \<Longrightarrow> card {x\<in>K. l < x} < k \<Longrightarrow>
      ends (onDB (\<lambda>d. db_inv d \<and> folder_ids d \<subseteq> K)) (purgeBatches k (expiredFolders c) fld_ID ?purge l n)" for K l k n
  proof (rule purgeBatches_ends)
    show "ends (onDB db_inv) (purgeEach ?purge rs n)" for rs n by (rule ends_purgeEach_folders)
    show "db_inv d \<Longrightarrow> r \<in> set (expiredFolders c l d) \<Longrightarrow> fld_ID r \<in> folder_ids d \<and> l < fld_ID r" for l d r
      by (auto simp: expiredFolders_def tfind_def folder_ids_def db_inv_def owing_def tree_inv_def dest!: in_set_takeD)
    have p: "preserves (onDB (\<lambda>d. folder_ids d \<subseteq> K)) (?purge r)" for K r
      unfolding purgeRecycledFolderSubtree_def by (intro pres pres_folder_keys)
    show "valid (onDB (\<lambda>d. (db_inv d \<and> folder_ids d \<subseteq> K) \<and> expiredFolders c l d = rs)) (purgeEach ?purge rs n)
       (\<lambda>_. onDB (\<lambda>d. db_inv d \<and> folder_ids d \<subseteq> K)) (\<lambda>_ _. True)" for rs l n K
      by (rule valid_weaken[OF valid_conj[OF pres_purgeEach[OF pres_purgeRecycledFolderSubtree] pres_purgeEach[OF p[of K]]]])
        (auto simp: onDB_def)
  qed
  have card: "finite (f ` set xs) \<and> card {x \<in> f ` set xs. 0 < x} < Suc (length xs)" for f :: "'r \<Rightarrow> nat" and xs
  proof -
    have "card {x \<in> f ` set xs. 0 < x} \<le> card (f ` set xs)" by (rule card_mono) auto
    also have "\<dots> \<le> card (set xs)" by (rule card_image_le) simp
    also have "\<dots> \<le> length xs" by (rule card_length)
    finally show ?thesis by simp
  qed
  have 1: "fst (purgeBatches (Suc (length (rows (files (wdb w))))) (expiredFiles c) fil_ID purgeRecycledFile 0 0 w) \<noteq> Hang"
    if "db_inv (wdb w)" for w
    using files[of "file_keys (wdb w)" 0 "Suc (length (rows (files (wdb w))))" 0] that
    by (auto simp: ends_def onDB_def file_keys_def card)
  have 2: "fst (purgeBatches (Suc (length (rows (folders (wdb w))))) (expiredFolders c) fld_ID ?purge 0 0 w) \<noteq> Hang"
    if "db_inv (wdb w)" for w
    using folders[of "folder_ids (wdb w)" 0 "Suc (length (rows (folders (wdb w))))" 0] that
    by (auto simp: ends_def onDB_def folder_ids_def card)
  have e1: "ends (onDB db_inv) (bindM fileCount (\<lambda>nf. purgeBatches (Suc nf) (expiredFiles c) fil_ID purgeRecycledFile 0 0))"
    using 1 by (auto simp: ends_def onDB_def fileCount_def bindM_def getsM_def)
  have e2: "ends (onDB db_inv) (bindM folderCount (\<lambda>nd. purgeBatches (Suc nd) (expiredFolders c) fld_ID ?purge 0 0))"
    using 2 by (auto simp: ends_def onDB_def folderCount_def bindM_def getsM_def)
  have assoc: "CleanExpiredRecycleBin c = bindM (bindM fileCount (\<lambda>nf. purgeBatches (Suc nf) (expiredFiles c) fil_ID purgeRecycledFile 0 0))
     (\<lambda>(fs, e). case e of Some _ \<Rightarrow> returnM (fs, 0, e) | None \<Rightarrow>
        bindM (bindM folderCount (\<lambda>nd. purgeBatches (Suc nd) (expiredFolders c) fld_ID ?purge 0 0)) (\<lambda>(ds, e). returnM (fs, ds, e)))"
    unfolding CleanExpiredRecycleBin_def by (simp only: bind_assoc)
  have v1: "valid (onDB db_inv) (bindM fileCount (\<lambda>nf. purgeBatches (Suc nf) (expiredFiles c) fil_ID purgeRecycledFile 0 0))
      (\<lambda>_. onDB db_inv) (\<lambda>_ _. True)"
    by (rule valid_weaken[where Q' = "\<lambda>_. onDB db_inv" and E' = "\<lambda>_. onDB db_inv" and P' = "onDB db_inv"],
        intro pres pres_purgeBatches_files) auto
  show ?thesis
    unfolding assoc
    by (rule ends_bind[OF e1 v1])
      (auto intro!: ends_rules ends_bind[OF e2, where R = "\<lambda>_ _. True"] valid_True split: prod.splits option.splits)
qed


section \<open>What the operations do\<close>

lemma GetRecycledFile_OkD:
  "GetRecycledFile i w = (Ok f, w') \<Longrightarrow> f \<in> set (rows (files (wdb w))) \<and> fil_ID f = i \<and> fil_DeletedAt f \<noteq> None \<and> wdb w' = wdb w"
  by (drule valid_db_OkD[OF valid_GetRecycledFile[where J = "\<lambda>d. d = wdb w"]]) auto

lemma purge_body_OkD:
  assumes "thenM (execDB (drop_file_row i)) (thenM (execDB (drop_shares {i} k))
       (thenM (returnBucketUsage b n) (returnUserUsedSpace u n))) w = (Ok x, w')"
  shows "wdb w' = (if n \<le> 0 then id else return_user_used u n)
      ((case the_bucket b (wdb w) of None \<Rightarrow> id | Some r \<Rightarrow> set_bucket_used b (less_used (bkt_UsedSpace r) n))
        (drop_shares {i} k (drop_file_row i (wdb w))))"
proof -
  have tb: "the_bucket b (drop_shares {i} k (drop_file_row i d)) = the_bucket b d" for d
    by (simp add: the_bucket_def drop_shares_def drop_file_row_def)
  from assms show ?thesis
    unfolding returnBucketUsage_def returnUserUsedSpace_def
    by (auto elim!: thenM_OkE bindM_OkE dest!: okD simp: tb split: if_splits option.splits)
qed

lemma restore_row_sel: "fil_ID (restore_row p f nm r) = fil_ID r" "fil_FolderID (restore_row p f nm r) = p"
  "live_fil (restore_row p f nm r)" "fil_BucketID (restore_row p f nm r) = fil_BucketID r"
  "fil_FileSize (restore_row p f nm r) = fil_FileSize r" "fil_MD5 (restore_row p f nm r) = fil_MD5 r"
  "fil_UploadedBy (restore_row p f nm r) = fil_UploadedBy r" "fil_Name (restore_row p f nm f) = nm"
  by (simp_all add: restore_row_def Let_def live_fil_def)

lemma the_file_unique:
  assumes "files_ok d" "f \<in> set (rows (files d))" "live_fil f" "the_file (fil_BucketID f) (fil_ID f) d = Some g"
  shows "g = f"
proof -
  have "g \<in> set (rows (files d)) \<and> fil_ID g = fil_ID f" using assms(4) by (auto simp: the_file_def dest: tfirst_Some)
  then show ?thesis using files_ok_key[OF assms(1,2)] by blast
qed

section \<open>Properties\<close>


definition sample_bin :: world where
  "sample_bin = sample\<lparr>wdb := sample_db\<lparr>files := \<lparr>rows = [sample_file, sample_file\<lparr>fil_ID := 2, fil_DeletedAt := Some 0,
     fil_FileSize := 1\<rparr>], seq = 3\<rparr>\<rparr>\<rparr>"

lemma sample_bin_inv: "db_inv (wdb sample_bin)"
  by (simp add: sample_bin_def db_inv_def owing_def tree_inv_def sample_acyclic, simp add: files_ok_def names_ok_def
      unique_live_def acct_def fsum_def sample_rows folder_key_def file_key_def ToLower_def lower_char_def)


text \<open>C11: removing a recycled file for good deletes its row and its share links and gives its bytes back to the
  bucket, if that is still there, and to its owner, neither going below zero.\<close>

theorem DeleteRecycledFile_effect:
  assumes "DeleteRecycledFile i w = (Ok x, w')" "db_inv (wdb w)"
  shows "\<exists>f\<in>set (rows (files (wdb w))). fil_ID f = i \<and> fil_DeletedAt f \<noteq> None \<and>
    wdb w' = (if fil_FileSize f \<le> 0 then id else return_user_used (fil_UploadedBy f) (fil_FileSize f))
      ((case the_bucket (fil_BucketID f) (wdb w) of None \<Rightarrow> id
        | Some r \<Rightarrow> set_bucket_used (fil_BucketID f) (less_used (bkt_UsedSpace r) (fil_FileSize f)))
        (drop_shares {i} ItemKindFile (drop_file_row i (wdb w)))) \<and> db_inv (wdb w')"
proof -
  from assms(1)[unfolded DeleteRecycledFile_def] obtain f w1 where
      1: "GetRecycledFile i w = (Ok f, w1)" and 2: "purgeRecycledFile f w1 = (Ok x, w')"
    by (rule bindM_OkE)
  note f = GetRecycledFile_OkD[OF 1]
  from 2[unfolded purgeRecycledFile_def] obtain y w2 where
      3: "ignoreM (storageDelete (BucketEncoder (fil_BucketID f)) (objectKeyForFile (fil_ID f))) w1 = (Ok y, w2)"
    and 4: "transaction (thenM (execDB (drop_file_row (fil_ID f))) (thenM (execDB (drop_shares {fil_ID f} ItemKindFile))
       (thenM (returnBucketUsage (fil_BucketID f) (fil_FileSize f)) (returnUserUsedSpace (fil_UploadedBy f) (fil_FileSize f))))) w2 = (Ok x, w')"
    by (rule thenM_OkE)
  have "wdb w2 = wdb w1" by (rule keep_OkD[rotated], rule 3) (intro pres)
  then have d2: "wdb w2 = wdb w" using f by simp
  have "db_inv (wdb w')" using valid_OkD[OF pres_DeleteRecycledFile _ assms(1)] assms(2) by (simp add: onDB_def)
  moreover obtain v v' where v: "wdb v = wdb w2" "wdb w' = wdb v'"
    and 5: "thenM (execDB (drop_file_row (fil_ID f))) (thenM (execDB (drop_shares {fil_ID f} ItemKindFile))
       (thenM (returnBucketUsage (fil_BucketID f) (fil_FileSize f)) (returnUserUsedSpace (fil_UploadedBy f) (fil_FileSize f)))) v = (Ok x, v')"
    using transaction_OkD[OF 4] by blast
  ultimately show ?thesis using purge_body_OkD[OF 5] d2 f by (intro bexI[of _ f]) auto
qed

theorem DeleteRecycledFile_effect_witness:
  "\<exists>w'. DeleteRecycledFile 2 sample_bin = (Ok (), w') \<and> db_inv (wdb w')"
proof -
  have "fst (DeleteRecycledFile 2 sample_bin) = Ok ()" by code_simp
  then obtain w' where r: "DeleteRecycledFile 2 sample_bin = (Ok (), w')" by (metis prod.collapse)
  from DeleteRecycledFile_effect[OF r sample_bin_inv] r show ?thesis by blast
qed

text \<open>C12: the cleaning of the recycle bin ends: the batches run out and so do the stacks of the directory
  trees, on every database that satisfies the invariant, and the invariant is kept.\<close>

theorem CleanExpiredRecycleBin_safe:
  assumes "db_inv (wdb w)"
  shows "fst (CleanExpiredRecycleBin c w) \<noteq> Hang \<and> db_inv (wdb (snd (CleanExpiredRecycleBin c w)))"
  using pres_result[OF pres_CleanExpiredRecycleBin CleanExpiredRecycleBin_ends, of w c] CleanExpiredRecycleBin_ends[of c] assms
  by (simp add: onDB_def ends_def)

theorem CleanExpiredRecycleBin_safe_witness:
  "fst (CleanExpiredRecycleBin 5 sample_bin) = Ok (1, 0, None) \<and> db_inv (wdb (snd (CleanExpiredRecycleBin 5 sample_bin)))"
proof
  show "fst (CleanExpiredRecycleBin 5 sample_bin) = Ok (1, 0, None)" by code_simp
  show "db_inv (wdb (snd (CleanExpiredRecycleBin 5 sample_bin)))"
    by (rule CleanExpiredRecycleBin_safe[THEN conjunct2]) (rule sample_bin_inv)
qed

end
