(* ===== verification/CopyMove.thy ===== *)
theory CopyMove
  imports Recycle
begin

text \<open>
  Copying and moving (server/file_copy_move.go) and the copy tasks (server/copy_task.go).  A copy of a
  file is a new row with a new object; a copy of a folder is a task that copies the subtree depth first
  and can be resumed; a move inside a bucket changes one row; a file moved to another bucket is copied
  and deleted by a task.  The number of frames a folder task may process is a parameter, fuel: the code
  has no bound, and beyond fuel frames the outcome is Hang.
\<close>

section \<open>Copying a file\<close>

record CopyFileArg =
  cpf_UserID :: nat
  cpf_SrcBucketID :: nat
  cpf_SrcFileID :: nat
  cpf_DstBucketID :: nat
  cpf_DstDirPath :: string
  cpf_DstFilename :: string
  cpf_DstFolderID :: nat

text \<open>The name at the destination: the trimmed one given, or else the old one.\<close>

definition chosenName :: "string \<Rightarrow> string \<Rightarrow> string W" where
  "chosenName given old =
     (let s = TrimSpace given in
      if s = [] then returnM old else bindM (liftM (ValidateItemName s)) (\<lambda>_. returnM s))"

text \<open>A destination directory that takes writes of the user.\<close>

definition checkDstFolder :: "nat \<Rightarrow> nat \<Rightarrow> nat \<Rightarrow> unit W" where
  "checkDstFolder userID bucketID folderID =
     thenM (checkAncestorsUsable bucketID folderID)
    (thenM (checkAncestorsAccessTree userID bucketID folderID)
           (CheckAncestorsWritable bucketID folderID))"

definition createCopyRow :: "bool \<Rightarrow> (string \<Rightarrow> nat \<Rightarrow> File) \<Rightarrow> nat \<Rightarrow> nat \<Rightarrow> string \<Rightarrow> File W" where
  "createCopyRow autoRename mk bucketID folderID name =
     (if autoRename then createRenaming mk mk bucketID folderID name
      else bindM (createFile (mk name)) (\<lambda>r. case r of None \<Rightarrow> throwM ErrConflict | Some f \<Rightarrow> returnM f))"

text \<open>The object of the source under the key of the new row; the row goes when the source cannot be read.\<close>

definition copyObject :: "nat \<Rightarrow> nat \<Rightarrow> nat \<Rightarrow> File \<Rightarrow> File \<Rightarrow> File W" where
  "copyObject userID srcBucketID dstBucketID srcFile f =
     bindM (tryM (storageGet (BucketEncoder srcBucketID) (objectKeyForFile (fil_ID srcFile)))) (\<lambda>rc.
     case rc of
       Inl e \<Rightarrow> thenM (dropFileRow (fil_ID f)) (throwM (if e = ErrObjectNotFound then ErrNotFound else e))
     | Inr data \<Rightarrow> putAndBook dstBucketID userID data (fil_FileSize srcFile) f)"

definition createAndCopy :: "CopyFileArg \<Rightarrow> bool \<Rightarrow> File \<Rightarrow> nat \<Rightarrow> string \<Rightarrow> File W" where
  "createAndCopy a autoRename src folderID name =
     bindM (getsM clock) (\<lambda>now.
     bindM (createCopyRow autoRename
         (\<lambda>nm. new_file (cpf_DstBucketID a) folderID nm (fil_FileSize src) (fil_FileType src) (fil_MD5 src)
            (cpf_UserID a) (fil_VisibleToGroups src) now)
         (cpf_DstBucketID a) folderID name) (\<lambda>f.
     copyObject (cpf_UserID a) (cpf_SrcBucketID a) (cpf_DstBucketID a) src f))"

definition copyFileInner :: "CopyFileArg \<Rightarrow> bool \<Rightarrow> File W" where
  "copyFileInner a autoRename =
     bindM (CheckBucketUsable (cpf_SrcBucketID a)) (\<lambda>_.
     bindM (loadFile (cpf_SrcBucketID a) (cpf_SrcFileID a)) (\<lambda>src.
     thenM (checkAncestorsUsable (cpf_SrcBucketID a) (fil_FolderID src))
     (bindM (GetBucket (cpf_DstBucketID a)) (\<lambda>dst.
     if bkt_Status dst \<noteq> 1 then throwM ErrForbidden
     else
       bindM (liftM (NormalizeDirPath (cpf_DstDirPath a))) (\<lambda>dstDir.
       bindM (chosenName (cpf_DstFilename a) (fil_Name src)) (\<lambda>dstName.
       bindM (if cpf_DstFolderID a = 0 then ResolveDirPath (cpf_UserID a) (cpf_DstBucketID a) dstDir
              else returnM (cpf_DstFolderID a)) (\<lambda>folderID.
       thenM (checkDstFolder (cpf_UserID a) (cpf_DstBucketID a) folderID)
       (bindM (if autoRename then uniqueName (cpf_DstBucketID a) folderID dstName
               else bindM (nameExists (cpf_DstBucketID a) folderID dstName) (\<lambda>ex.
                    if ex then throwM ErrConflict else returnM dstName)) (\<lambda>dstName.
       bindM (CheckBucketQuota (cpf_DstBucketID a) (fil_FileSize src)) (\<lambda>_.
       bindM (CheckUserQuota (cpf_UserID a)) (\<lambda>_.
       createAndCopy a autoRename src folderID dstName)))))))))))"

definition CopyFile :: "CopyFileArg \<Rightarrow> File W" where
  "CopyFile a = copyFileInner a True"

definition CopyFileNoRename :: "CopyFileArg \<Rightarrow> File W" where
  "CopyFileNoRename a = copyFileInner a False"

section \<open>Copy tasks\<close>

text \<open>A file moved between buckets: copy without renaming, then delete the source.\<close>

definition task_copy :: "CopyTask \<Rightarrow> nat \<Rightarrow> string \<Rightarrow> nat \<Rightarrow> CopyFileArg" where
  "task_copy task srcFileID name folderID =
     \<lparr>cpf_UserID = ctk_UploadedBy task, cpf_SrcBucketID = ctk_BucketID task, cpf_SrcFileID = srcFileID,
      cpf_DstBucketID = ctk_DstBucketID task, cpf_DstDirPath = [], cpf_DstFilename = name, cpf_DstFolderID = folderID\<rparr>"

definition copyFileTask :: "nat \<Rightarrow> CopyTask \<Rightarrow> unit W" where
  "copyFileTask taskID task =
     bindM (tryM (loadFile (ctk_BucketID task) (ctk_SourceFileID task))) (\<lambda>r.
     case r of
       Inl e \<Rightarrow> if e = ErrNotFound then ignoreM (execDB (drop_ctask taskID)) else throwM e
     | Inr _ \<Rightarrow>
         bindM (tryM (CopyFileNoRename (task_copy task (ctk_SourceFileID task) (ctk_DstName task) (ctk_DstFolderID task)))) (\<lambda>c.
         let delete =
               thenM (DeleteFile (ctk_UploadedBy task) (ctk_BucketID task) (ctk_SourceFileID task))
                     (execDB (drop_ctask taskID)) in
         case c of
           Inl e \<Rightarrow>
             if e = ErrConflict then delete
             else thenM (if e = ErrQuotaExceeded then ignoreM (execDB (drop_ctask taskID)) else returnM ()) (throwM e)
         | Inr _ \<Rightarrow> delete))"

definition processCopyFileTask :: "nat \<Rightarrow> unit W" where
  "processCopyFileTask taskID =
     bindM (queryDB (the_ctask taskID)) (\<lambda>t.
     case t of
       None \<Rightarrow> returnM ()
     | Some task \<Rightarrow>
         bindM (withLock (acquire_ctask taskID)) (\<lambda>n.
         if n = 0 then returnM ()
         else finallyM (copyFileTask taskID task) (asMe (release_ctask taskID))))"

record copyFrame =
  cfr_srcFolderID :: nat
  cfr_dstParentID :: nat
  cfr_isTop :: bool

definition copyBatch :: nat where
  "copyBatch = 100"

definition sourceFiles :: "nat \<Rightarrow> nat \<Rightarrow> nat \<Rightarrow> db \<Rightarrow> File list" where
  "sourceFiles bucketID folderID lastFileID d = take copyBatch (sort_key fil_ID (tfind
     (\<lambda>r. live_fil r \<and> fil_BucketID r = bucketID \<and> fil_FolderID r = folderID \<and> fil_ID r > lastFileID) (files d)))"

text \<open>
  The files of one batch.  groups is the cache of the operator's groups that the visibility check
  fills (it stays as it was when the check fails); a file that is not visible is skipped, and so is one
  whose name is taken at the destination.
\<close>

fun copyEach :: "nat \<Rightarrow> CopyTask \<Rightarrow> User \<Rightarrow> nat \<Rightarrow> nat list option \<Rightarrow> File list \<Rightarrow> nat list option W" where
  "copyEach taskID task opr folderID gs [] = returnM gs"
| "copyEach taskID task opr folderID gs (sf # sfs) =
     bindM (tryM (checkItemAccessTree opr gs (fil_VisibleToGroups sf))) (\<lambda>v.
     case v of
       Inl _ \<Rightarrow> copyEach taskID task opr folderID gs sfs
     | Inr gs \<Rightarrow>
         bindM (tryM (CopyFileNoRename (task_copy task (fil_ID sf) (fil_Name sf) folderID))) (\<lambda>c.
         case c of
           Inr _ \<Rightarrow> copyEach taskID task opr folderID gs sfs
         | Inl e \<Rightarrow>
             if e = ErrConflict then copyEach taskID task opr folderID gs sfs
             else thenM (if e = ErrQuotaExceeded then ignoreM (execDB (drop_ctask taskID)) else returnM ()) (throwM e)))"


fun copyFiles_loop :: "nat \<Rightarrow> nat \<Rightarrow> CopyTask \<Rightarrow> User \<Rightarrow> nat \<Rightarrow> nat \<Rightarrow> nat list option \<Rightarrow> nat \<Rightarrow> unit W" where
  "copyFiles_loop 0 taskID task opr srcFolderID folderID gs lastFileID = hangM"
| "copyFiles_loop (Suc n) taskID task opr srcFolderID folderID gs lastFileID =
     bindM (queryDB (sourceFiles (ctk_BucketID task) srcFolderID lastFileID)) (\<lambda>fs.
     if fs = [] then returnM ()
     else
       bindM (copyEach taskID task opr folderID gs fs) (\<lambda>gs.
       if length fs < copyBatch then returnM ()
       else copyFiles_loop n taskID task opr srcFolderID folderID gs (fil_ID (last fs))))"

text \<open>The operator as of now: None when the task is to be dropped.\<close>

definition refreshOperator :: "CopyTask \<Rightarrow> User option W" where
  "refreshOperator task =
     bindM (tryM (GetUser (ctk_UploadedBy task))) (\<lambda>r.
     case r of
       Inl e \<Rightarrow> if e = ErrNotFound then returnM None else throwM e
     | Inr u \<Rightarrow>
         if usr_Status u \<noteq> 1 then returnM None
         else if ctk_OperatorLevel task > 0 \<and> usr_PermissionLevel u > ctk_OperatorLevel task then returnM None
         else returnM (Some u))"

definition copied_folder :: "CopyTask \<Rightarrow> nat \<Rightarrow> Folder \<Rightarrow> time \<Rightarrow> nat \<Rightarrow> Folder" where
  "copied_folder task parentID src now i =
     \<lparr>fld_ID = i, fld_CreatedAt = now, fld_DeletedAt = None, fld_Isable = FolderUsable,
      fld_BucketID = ctk_DstBucketID task, fld_ParentID = parentID, fld_Name = fld_Name src,
      fld_NameLower = ToLower (fld_Name src), fld_UploadedBy = ctk_UploadedBy task,
      fld_VisibleToGroups = fld_VisibleToGroups src\<rparr>"

text \<open>The folder at the destination: the top one is there already, others are reused or made.\<close>

definition targetFolder :: "CopyTask \<Rightarrow> copyFrame \<Rightarrow> Folder W" where
  "targetFolder task fr =
     (if cfr_isTop fr then loadFolderByID (ctk_DstFolderID task)
      else
        bindM (loadFolderByID (cfr_srcFolderID fr)) (\<lambda>src.
        bindM (tryM (findFolderByParent (ctk_DstBucketID task) (cfr_dstParentID fr) (fld_Name src))) (\<lambda>r.
        case r of
          Inr existing \<Rightarrow> loadFolderByID existing
        | Inl e \<Rightarrow>
            if e \<noteq> ErrNotFound then throwM e
            else
              bindM (getsM clock) (\<lambda>now.
              bindM (createFolder (copied_folder task (cfr_dstParentID fr) src now)) (\<lambda>c.
              case c of None \<Rightarrow> throwM ErrInternal | Some f \<Rightarrow> returnM f)))))"

text \<open>Subfolders the operator can reach are pushed.\<close>

fun pushChildren :: "CopyTask \<Rightarrow> nat \<Rightarrow> Folder list \<Rightarrow> copyFrame list W" where
  "pushChildren task parentID [] = returnM []"
| "pushChildren task parentID (c # cs) =
     bindM (tryM (checkAncestorsAccessTree (ctk_UploadedBy task) (ctk_BucketID task) (fld_ID c))) (\<lambda>v.
     bindM (pushChildren task parentID cs) (\<lambda>frs.
     case v of
       Inl _ \<Rightarrow> returnM frs
     | Inr _ \<Rightarrow> returnM (\<lparr>cfr_srcFolderID = fld_ID c, cfr_dstParentID = parentID, cfr_isTop = False\<rparr> # frs)))"

text \<open>A round of the loop: None when the task ends here without being finished.\<close>

definition copyRound :: "nat \<Rightarrow> CopyTask \<Rightarrow> copyFrame list \<Rightarrow> copyFrame list option W" where
  "copyRound taskID task stack =
     bindM (withLock (renew_ctask taskID)) (\<lambda>n.
     if n = 0 then returnM None
     else
       bindM (refreshOperator task) (\<lambda>u.
       case u of
         None \<Rightarrow> thenM (ignoreM (execDB (drop_ctask taskID))) (returnM None)
       | Some opr \<Rightarrow>
           let fr = last stack in
           bindM (if cfr_isTop fr
                  then tryM (checkAncestorsAccessTree (ctk_UploadedBy task) (ctk_BucketID task) (cfr_srcFolderID fr))
                  else returnM (Inr ())) (\<lambda>v.
           case v of
             Inl _ \<Rightarrow> thenM (ignoreM (execDB (drop_ctask taskID))) (returnM None)
           | Inr _ \<Rightarrow>
               thenM (CheckAncestorsWritable (ctk_DstBucketID task) (cfr_dstParentID fr))
               (bindM (targetFolder task fr) (\<lambda>folder.
               bindM fileCount (\<lambda>nf.
               thenM (copyFiles_loop (Suc nf) taskID task opr (cfr_srcFolderID fr) (fld_ID folder) None 0)
               (bindM (nextSubfolders (ctk_BucketID task) (cfr_srcFolderID fr)) (\<lambda>children.
               bindM (pushChildren task (fld_ID folder) children) (\<lambda>frs.
               returnM (Some (butlast stack @ frs))))))))))) "

fun copyRounds :: "nat \<Rightarrow> nat \<Rightarrow> CopyTask \<Rightarrow> copyFrame list \<Rightarrow> bool W" where
  "copyRounds fuel taskID task stack =
     (if stack = [] then returnM True
      else (case fuel of 0 \<Rightarrow> hangM
        | Suc n \<Rightarrow>
            bindM (copyRound taskID task stack) (\<lambda>r.
            case r of None \<Rightarrow> returnM False | Some stack' \<Rightarrow> copyRounds n taskID task stack')))"

declare copyRounds.simps [simp del]

definition copyFolderTask :: "nat \<Rightarrow> nat \<Rightarrow> CopyTask \<Rightarrow> unit W" where
  "copyFolderTask fuel taskID task =
     bindM (ResolveDirPath (ctk_UploadedBy task) (ctk_DstBucketID task) (ctk_DstDirPath task)) (\<lambda>dstBaseID.
     bindM (tryM (loadFolderByID (ctk_SourceFolderID task))) (\<lambda>r.
     case r of
       Inl e \<Rightarrow> thenM (ignoreM (execDB (drop_ctask taskID))) (throwM e)
     | Inr _ \<Rightarrow>
         bindM (copyRounds fuel taskID task
           [\<lparr>cfr_srcFolderID = ctk_SourceFolderID task, cfr_dstParentID = dstBaseID, cfr_isTop = True\<rparr>]) (\<lambda>done.
         if done then execDB (drop_ctask taskID) else returnM ())))"

definition processCopyFolderTask :: "nat \<Rightarrow> nat \<Rightarrow> unit W" where
  "processCopyFolderTask fuel taskID =
     bindM (queryDB (the_ctask taskID)) (\<lambda>t.
     case t of
       None \<Rightarrow> returnM ()
     | Some task \<Rightarrow>
         bindM (withLock (acquire_ctask taskID)) (\<lambda>n.
         if n = 0 then returnM ()
         else finallyM (copyFolderTask fuel taskID task) (asMe (release_ctask taskID))))"

definition ProcessCopyTask :: "nat \<Rightarrow> nat \<Rightarrow> unit W" where
  "ProcessCopyTask fuel taskID =
     bindM (queryDB (the_ctask taskID)) (\<lambda>t.
     case t of
       None \<Rightarrow> returnM ()
     | Some task \<Rightarrow>
         if ctk_SourceFileID task > 0 then processCopyFileTask taskID else processCopyFolderTask fuel taskID)"

section \<open>Copying a folder\<close>

record CopyFolderArg =
  cpd_UserID :: nat
  cpd_SrcBucketID :: nat
  cpd_SrcFolderID :: nat
  cpd_DstBucketID :: nat
  cpd_DstDirPath :: string
  cpd_DstName :: string

definition top_folder :: "CopyFolderArg \<Rightarrow> nat \<Rightarrow> string \<Rightarrow> Folder \<Rightarrow> time \<Rightarrow> nat \<Rightarrow> Folder" where
  "top_folder a parentID name src now i =
     (new_folder (cpd_UserID a) (cpd_DstBucketID a) parentID name now i)\<lparr>fld_VisibleToGroups := fld_VisibleToGroups src\<rparr>"

definition new_ctask ::
  "nat \<Rightarrow> nat \<Rightarrow> nat \<Rightarrow> nat \<Rightarrow> nat \<Rightarrow> string \<Rightarrow> string \<Rightarrow> nat \<Rightarrow> int \<Rightarrow> nat \<Rightarrow> CopyTask" where
  "new_ctask bucketID srcFolderID srcFileID dstBucketID dstFolderID dstDir dstName userID level i =
     \<lparr>ctk_ID = i, ctk_DeletedAt = None, ctk_BucketID = bucketID, ctk_SourceFolderID = srcFolderID,
      ctk_SourceFileID = srcFileID, ctk_DstBucketID = dstBucketID, ctk_DstFolderID = dstFolderID,
      ctk_DstDirPath = dstDir, ctk_DstName = dstName, ctk_UploadedBy = userID, ctk_OperatorLevel = level,
      ctk_Status = 0, ctk_LockOwner = [], ctk_LockExpiresAt = None\<rparr>"

definition createCopyTask :: "(nat \<Rightarrow> CopyTask) \<Rightarrow> nat W" where
  "createCopyTask mk = execRet (\<lambda>d. (seq (copyTasks d), d\<lparr>copyTasks := tcreate mk (copyTasks d)\<rparr>))"

definition CopyFolder :: "nat \<Rightarrow> CopyFolderArg \<Rightarrow> Folder W" where
  "CopyFolder fuel a =
     bindM (CheckBucketUsable (cpd_SrcBucketID a)) (\<lambda>_.
     bindM (loadFolder (cpd_SrcBucketID a) (cpd_SrcFolderID a)) (\<lambda>src.
     thenM (checkAncestorsUsable (cpd_SrcBucketID a) (cpd_SrcFolderID a))
     (bindM (GetBucket (cpd_DstBucketID a)) (\<lambda>dst.
     if bkt_Status dst \<noteq> 1 then throwM ErrForbidden
     else
       thenM (CheckUserQuota (cpd_UserID a))
       (bindM (liftM (NormalizeDirPath (cpd_DstDirPath a))) (\<lambda>dstDir.
       bindM (ResolveDirPath (cpd_UserID a) (cpd_DstBucketID a) dstDir) (\<lambda>dstFolderID.
       thenM (checkDstFolder (cpd_UserID a) (cpd_DstBucketID a) dstFolderID)
       (bindM (chosenName (cpd_DstName a) (fld_Name src)) (\<lambda>baseName.
       bindM (uniqueName (cpd_DstBucketID a) dstFolderID baseName) (\<lambda>dstName.
       bindM (getsM clock) (\<lambda>now.
       bindM (createFolder (top_folder a dstFolderID dstName src now)) (\<lambda>c.
       case c of
         None \<Rightarrow> throwM ErrConflict
       | Some topFolder \<Rightarrow>
           bindM (operatorLevelOf (cpd_UserID a)) (\<lambda>level.
           bindM (tryM (createCopyTask (new_ctask (cpd_SrcBucketID a) (cpd_SrcFolderID a) 0 (cpd_DstBucketID a)
               (fld_ID topFolder) dstDir dstName (cpd_UserID a) level))) (\<lambda>t.
           case t of
             Inl e \<Rightarrow>
               thenM (ignoreM (execDB (\<lambda>d. d\<lparr>folders := tdelete (\<lambda>r. fld_ID r = fld_ID topFolder) (folders d)\<rparr>)))
                     (throwM ErrInternal)
           | Inr taskID \<Rightarrow>
               thenM (ignoreM (ProcessCopyTask fuel taskID)) (returnM topFolder)))))))))))))))"

section \<open>Moving a file\<close>

record MoveArg =
  mov_UserID :: nat
  mov_SrcBucketID :: nat
  mov_SrcID :: nat
  mov_DstBucketID :: nat
  mov_DstDirPath :: string
  mov_DstName :: string

text \<open>strings.EqualFold, which folds case as ToLower does.\<close>

definition EqualFold :: "string \<Rightarrow> string \<Rightarrow> bool" where
  "EqualFold s t \<longleftrightarrow> ToLower s = ToLower t"

definition freeName :: "nat \<Rightarrow> nat \<Rightarrow> string \<Rightarrow> string W" where
  "freeName bucketID folderID name =
     bindM (nameExists bucketID folderID name) (\<lambda>ex.
     if ex then uniqueName bucketID folderID name else returnM name)"

text \<open>gorm's Save writes every column of the row.\<close>

definition moveFileSameBucket :: "nat \<Rightarrow> nat \<Rightarrow> File \<Rightarrow> string \<Rightarrow> string \<Rightarrow> File W" where
  "moveFileSameBucket userID bucketID file dstDir newName =
     bindM (ResolveDirPath userID bucketID dstDir) (\<lambda>dstFolderID.
     thenM (checkDstFolder userID bucketID dstFolderID)
     (if dstFolderID = fil_FolderID file \<and> EqualFold newName (fil_Name file) then throwM ErrInvalidInput
      else
        bindM (freeName bucketID dstFolderID newName) (\<lambda>cand.
        let file' = file\<lparr>fil_FolderID := dstFolderID, fil_Name := cand, fil_NameLower := ToLower cand\<rparr> in
        bindM (updateFiles (\<lambda>r. live_fil r \<and> fil_ID r = fil_ID file) (\<lambda>_. file')) (\<lambda>u.
        case u of None \<Rightarrow> throwM ErrConflict | Some _ \<Rightarrow> returnM file'))))"

definition MoveFile :: "nat \<Rightarrow> MoveArg \<Rightarrow> File W" where
  "MoveFile fuel a =
     bindM (CheckBucketUsable (mov_SrcBucketID a)) (\<lambda>_.
     bindM (loadFile (mov_SrcBucketID a) (mov_SrcID a)) (\<lambda>file.
     thenM (checkAncestorsUsable (mov_SrcBucketID a) (fil_FolderID file))
     (bindM (liftM (NormalizeDirPath (mov_DstDirPath a))) (\<lambda>dstDir.
     bindM (chosenName (mov_DstName a) (fil_Name file)) (\<lambda>newName.
     if mov_DstBucketID a = mov_SrcBucketID a
     then moveFileSameBucket (mov_UserID a) (mov_SrcBucketID a) file dstDir newName
     else
       bindM (ResolveDirPath (mov_UserID a) (mov_DstBucketID a) dstDir) (\<lambda>dstFolderID.
       thenM (checkDstFolder (mov_UserID a) (mov_DstBucketID a) dstFolderID)
       (bindM (nameExists (mov_DstBucketID a) dstFolderID newName) (\<lambda>ex.
       if ex then throwM ErrConflict
       else
         bindM (operatorLevelOf (mov_UserID a)) (\<lambda>level.
         bindM (createCopyTask (new_ctask (mov_SrcBucketID a) 0 (mov_SrcID a) (mov_DstBucketID a) dstFolderID dstDir
             newName (mov_UserID a) level)) (\<lambda>taskID.
         thenM (ignoreM (ProcessCopyTask fuel taskID))
         (bindM (queryDB (\<lambda>d. tfirst (file_named (mov_DstBucketID a) dstFolderID (ToLower newName)) (files d))) (\<lambda>r.
         case r of None \<Rightarrow> throwM ErrInternal | Some dst \<Rightarrow> returnM dst))))))))))))"

section \<open>Moving a folder\<close>

text \<open>The guard against moving a folder below itself; like checkAncestorsUsable it walks unguarded.\<close>

fun notBelow :: "nat \<Rightarrow> nat \<Rightarrow> nat \<Rightarrow> nat \<Rightarrow> unit W" where
  "notBelow fuel bucketID self cur =
     (if cur = 0 then returnM ()
      else if cur = self then throwM ErrInvalidInput
      else (case fuel of 0 \<Rightarrow> hangM
        | Suc n \<Rightarrow> bindM (loadFolder bucketID cur) (\<lambda>p. notBelow n bucketID self (fld_ParentID p))))"

declare notBelow.simps [simp del]

definition moveFolderSameBucket :: "nat \<Rightarrow> nat \<Rightarrow> Folder \<Rightarrow> string \<Rightarrow> string \<Rightarrow> Folder W" where
  "moveFolderSameBucket userID bucketID folder dstDir newName =
     bindM (ResolveDirPath userID bucketID dstDir) (\<lambda>dstFolderID.
     thenM (checkDstFolder userID bucketID dstFolderID)
     (if dstFolderID = fld_ParentID folder \<and> EqualFold newName (fld_Name folder) then throwM ErrInvalidInput
      else
        bindM (freeName bucketID dstFolderID newName) (\<lambda>cand.
        bindM folderCount (\<lambda>n.
        thenM (notBelow (Suc n) bucketID (fld_ID folder) dstFolderID)
        (bindM (updateFolders (\<lambda>r. live_fld r \<and> fld_ID r = fld_ID folder)
            (\<lambda>r. r\<lparr>fld_ParentID := dstFolderID, fld_Name := cand, fld_NameLower := ToLower cand\<rparr>)) (\<lambda>u.
        case u of
          None \<Rightarrow> throwM ErrConflict
        | Some _ \<Rightarrow> returnM (folder\<lparr>fld_ParentID := dstFolderID, fld_Name := cand\<rparr>)))))))"

definition MoveFolder :: "MoveArg \<Rightarrow> Folder W" where
  "MoveFolder a =
     bindM (CheckBucketUsable (mov_SrcBucketID a)) (\<lambda>_.
     bindM (loadFolder (mov_SrcBucketID a) (mov_SrcID a)) (\<lambda>folder.
     thenM (checkAncestorsUsable (mov_SrcBucketID a) (mov_SrcID a))
     (if mov_DstBucketID a \<noteq> mov_SrcBucketID a then throwM ErrInvalidInput
      else
        bindM (liftM (NormalizeDirPath (mov_DstDirPath a))) (\<lambda>dstDir.
        bindM (chosenName (mov_DstName a) (fld_Name folder)) (\<lambda>newName.
        moveFolderSameBucket (mov_UserID a) (mov_SrcBucketID a) folder dstDir newName)))))"


section \<open>Lemmas: the invariant\<close>

lemma pres_chosenName [pres]: "preserves I (chosenName s t)"
  unfolding chosenName_def Let_def by (intro pres)

lemma pres_checkDstFolder [pres]: "preserves (onDB J) (checkDstFolder u b f)"
  unfolding checkDstFolder_def by (intro pres)

lemma pres_freeName [pres]: "preserves (onDB J) (freeName b f n)"
  unfolding freeName_def by (intro pres)

lemma valid_createCopyRow:
  assumes "\<And>nm. fresh_file (mk nm) b u n"
  shows "valid (onDB db_inv) (createCopyRow auto mk b' p nm) (\<lambda>f. onDB (booked_for b u n f)) (\<lambda>_. onDB db_inv)"
  unfolding createCopyRow_def
  by (intro dbrules valid_createRenaming assms db_call[OF valid_createFile[OF assms]]) auto

lemma valid_copyObject:
  assumes "n = fil_FileSize src"
  shows "valid (onDB (booked_for b u n f)) (copyObject u sb b src f) (\<lambda>_. onDB db_inv) (\<lambda>_. onDB db_inv)"
  unfolding copyObject_def
  by (rule db_keep_try[OF pres_storage(2)])
    (auto intro!: dbrules valid_putAndBook valid_onDB_pre[OF valid_dropFileRow] simp: booked_for_def assms)

lemma pres_createAndCopy: "0 \<le> fil_FileSize src \<Longrightarrow> preserves (onDB db_inv) (createAndCopy a auto src p nm)"
  unfolding createAndCopy_def
  by (intro pres_bind[OF pres_gets] db_call[OF valid_createCopyRow valid_copyObject]) auto

lemma pres_loadFile_then:
  assumes "\<And>src. 0 \<le> fil_FileSize src \<Longrightarrow> preserves (onDB db_inv) (k src)"
  shows "preserves (onDB db_inv) (bindM (loadFile b i) k)"
proof (rule db_call[OF valid_loadFile])
  fix src
  show "valid (onDB (\<lambda>d. db_inv d \<and> the_file b i d = Some src)) (k src) (\<lambda>_. onDB db_inv) (\<lambda>_. onDB db_inv)"
  proof (cases "0 \<le> fil_FileSize src")
    case True
    then show ?thesis by (rule valid_onDB_pre[OF assms]) simp
  next
    case False
    then show ?thesis
      by (intro valid_absurd) (auto simp: the_file_def db_inv_def owing_def files_ok_def dest!: tfirst_Some)
  qed
qed

lemma pres_copyFileInner [pres]: "preserves (onDB db_inv) (copyFileInner a auto)"
  unfolding copyFileInner_def by (intro pres_loadFile_then pres_createAndCopy pres)

lemma pres_CopyFile [pres]: "preserves (onDB db_inv) (CopyFile a)" "preserves (onDB db_inv) (CopyFileNoRename a)"
  unfolding CopyFile_def CopyFileNoRename_def by (intro pres)+

lemma pres_processCopyFileTask [pres]: "preserves (onDB db_inv) (processCopyFileTask i)"
  unfolding processCopyFileTask_def copyFileTask_def Let_def by (intro pres)

lemma pres_copyEach [pres]: "preserves (onDB db_inv) (copyEach i t u p gs fs)"
  by (induction fs arbitrary: gs) (auto intro!: pres split: sum.splits)

lemma pres_copyFiles_loop [pres]: "preserves (onDB db_inv) (copyFiles_loop n i t u s p gs l)"
  by (induction n arbitrary: gs l) (auto intro!: pres)

lemma pres_refreshOperator [pres]: "preserves (onDB J) (refreshOperator t)"
  unfolding refreshOperator_def by (intro pres)

lemma pres_pushChildren [pres]: "preserves (onDB J) (pushChildren t p cs)"
  by (induction cs) (auto intro!: pres)

lemma valid_CheckAncestorsWritable_below:
  "valid (onDB db_inv) (CheckAncestorsWritable b p) (\<lambda>_. onDB (\<lambda>d. db_inv d \<and> p < seq (folders d))) (\<lambda>_. onDB db_inv)"
proof (rule validI)
  fix s x t assume J: "onDB db_inv s" and r: "CheckAncestorsWritable b p s = (Ok x, t)"
  then have inv: "db_inv (wdb s)" by (simp add: onDB_def)
  obtain fs where t: "wdb t = wdb s" and fs: "ancestors (wdb s) b p = Some fs"
    using CheckAncestorsWritable_Ok[OF r db_inv_acyclic[OF inv]] by auto
  have tr: "tree_inv (wdb s)" by (rule db_inv_tree[OF inv])
  have "p < seq (folders (wdb s))"
  proof (cases "p = 0")
    case True
    then show ?thesis using tr by (simp add: tree_inv_def)
  next
    case False
    with fs obtain f where "the_folder b p (wdb s) = Some f"
      unfolding ancestors_def by (subst (asm) chain.simps) (auto split: option.splits)
    then show ?thesis using the_folder_row tree_inv_folder[OF tr] by metis
  qed
  with inv t show "onDB (\<lambda>d. db_inv d \<and> p < seq (folders d)) t" by (simp add: onDB_def)
next
  fix s e t assume "onDB db_inv s" "CheckAncestorsWritable b p s = (Err e, t)"
  then show "onDB db_inv t" by (rule valid_ErrD[OF pres_CheckAncestorsWritable])
qed

lemma fresh_copied [simp]: "fresh_folder (copied_folder t p src now) p" "fresh_folder (top_folder a p nm src now) p"
  by (simp_all add: fresh_folder_def copied_folder_def top_folder_def)

lemma pres_targetFolder:
  "preserves (onDB (\<lambda>d. db_inv d \<and> cfr_dstParentID fr < seq (folders d))) (targetFolder t fr)"
  unfolding targetFolder_def by (intro pres pres_createFolder_below fresh_copied)

lemma pres_copyRound [pres]: "preserves (onDB db_inv) (copyRound i t st)"
  unfolding copyRound_def Let_def
  by (intro pres_then[of _ "ignoreM _"] pres_bind[of _ "withLock _"] pres
      valid_then[OF _ valid_CheckAncestorsWritable_below] valid_bind[OF _ valid_below[OF pres_targetFolder]])


lemma pres_copyRounds [pres]: "preserves (onDB db_inv) (copyRounds n i t st)"
proof (induction n arbitrary: st)
  case 0
  show ?case by (subst copyRounds.simps) (simp add: pres)
next
  case (Suc n)
  then show ?case by (subst copyRounds.simps) (auto intro!: pres)
qed

lemma pres_processCopyFolderTask [pres]: "preserves (onDB db_inv) (processCopyFolderTask n i)"
  unfolding processCopyFolderTask_def copyFolderTask_def by (intro pres)

lemma pres_ProcessCopyTask [pres]: "preserves (onDB db_inv) (ProcessCopyTask n i)"
  unfolding ProcessCopyTask_def by (intro pres)

lemma pres_createCopyTask [pres]: "preserves (onDB db_inv) (createCopyTask mk)"
  unfolding createCopyTask_def by (rule pres_execRet) simp

lemma pres_dropFolderRow: "preserves (onDB db_inv) (execDB (\<lambda>d. d\<lparr>folders := tdelete P (folders d)\<rparr>))"
  by (rule pres_exec) (simp add: db_inv_def owing_delete_folders)

lemma below_weaken:
  "valid (onDB db_inv) m Q E \<Longrightarrow> valid (onDB (\<lambda>d. db_inv d \<and> p < seq (folders d))) m Q E"
  by (erule valid_onDB_pre) simp

lemma keep_below:
  "(\<And>J. preserves (onDB J) m) \<Longrightarrow> (\<And>x. valid (onDB (\<lambda>d. db_inv d \<and> p < seq (folders d))) (f x) Q (\<lambda>_. onDB db_inv)) \<Longrightarrow>
   valid (onDB (\<lambda>d. db_inv d \<and> p < seq (folders d))) (bindM m f) Q (\<lambda>_. onDB db_inv)"
  by (rule db_keep) auto

lemma pres_CopyFolder [pres]: "preserves (onDB db_inv) (CopyFolder n a)"
proof -
  have create: "valid (onDB (\<lambda>d. db_inv d \<and> p < seq (folders d))) (bindM (createFolder (top_folder a p nm src now)) k)
      (\<lambda>_. onDB db_inv) (\<lambda>_. onDB db_inv)" if "\<And>c. preserves (onDB db_inv) (k c)" for p nm src now k
    by (rule db_call[OF valid_below[OF pres_createFolder_below[OF fresh_copied(2)]]]) (rule that)
  show ?thesis
    unfolding CopyFolder_def thenM_def[of "checkDstFolder _ _ _"]
    by (intro db_call[OF valid_ResolveDirPath_inv] keep_below create pres pres_dropFolderRow)
qed

text \<open>Moving a file: the row the caller holds is still that row when it is written back.\<close>

definition same_file :: "File \<Rightarrow> File tbl \<Rightarrow> bool" where
  "same_file f t \<longleftrightarrow> 0 \<le> fil_FileSize f \<and> (\<forall>r\<in>set (rows t). fil_ID r = fil_ID f \<longrightarrow>
     fil_FileSize r = fil_FileSize f \<and> fil_BucketID r = fil_BucketID f \<and> fil_UploadedBy r = fil_UploadedBy f)"

lemma same_file: "same_file f (files d) = row_or_gone f d"
  by (simp add: same_file_def row_or_gone_def)

lemma valid_moveFileSameBucket:
  "valid (onDB (\<lambda>d. db_inv d \<and> same_file f (files d))) (moveFileSameBucket u b f dir nm) (\<lambda>_. onDB db_inv) (\<lambda>_. onDB db_inv)"
proof -
  let ?J = "\<lambda>d. db_inv d \<and> same_file f (files d)"
  have upd: "valid (onDB ?J) (updateFiles (\<lambda>r. live_fil r \<and> fil_ID r = fil_ID f)
      (\<lambda>_. f\<lparr>fil_FolderID := p, fil_Name := c, fil_NameLower := ToLower c\<rparr>)) (\<lambda>_. onDB db_inv) (\<lambda>_. onDB db_inv)" for p c
    unfolding updateFiles_def
    by (rule valid_weaken[OF valid_tryExec[where J = ?J and K = "\<lambda>_. db_inv"]])
      (auto simp: Let_def db_inv_def same_file_def onDB_def split: if_splits option.splits intro!: owing_update_files)
  have k: "valid (onDB ?J) (bindM m g) (\<lambda>_. onDB db_inv) (\<lambda>_. onDB db_inv)"
    if "\<And>J. preserves (onDB J) m" "\<And>x. valid (onDB ?J) (g x) (\<lambda>_. onDB db_inv) (\<lambda>_. onDB db_inv)" for m :: "'x W" and g
    by (rule db_keep[OF that(1) that(2)]) simp
  have r: "valid (onDB ?J) (ResolveDirPath u b dir) (\<lambda>_. onDB ?J) (\<lambda>_. onDB db_inv)"
    by (rule valid_onDB[OF inv.pres_ResolveDirPath[where K = "same_file f"]]) auto
  show ?thesis
    unfolding moveFileSameBucket_def Let_def thenM_def
    by (intro db_call[OF r] k db_call[OF upd] pres dbrules) auto
qed

lemma pres_loadFile_known:
  assumes "\<And>f. valid (onDB (\<lambda>d. db_inv d \<and> same_file f (files d))) (k f) (\<lambda>_. onDB db_inv) (\<lambda>_. onDB db_inv)"
  shows "preserves (onDB db_inv) (bindM (loadFile b i) k)"
proof (rule db_call[OF valid_loadFile], rule valid_onDB_pre[OF assms])
  fix x d assume "db_inv d \<and> the_file b i d = Some x"
  then show "db_inv d \<and> same_file x (files d)"
    using known_row[of "\<lambda>_. 0" "\<lambda>_. 0" d x] by (auto simp: same_file db_inv_def the_file_def dest!: tfirst_Some)
qed

lemma pres_MoveFile [pres]: "preserves (onDB db_inv) (MoveFile n a)"
proof -
  let ?J = "\<lambda>f d. db_inv d \<and> same_file f (files d)"
  have k: "valid (onDB (?J f)) (bindM m g) (\<lambda>_. onDB db_inv) (\<lambda>_. onDB db_inv)"
    if "\<And>J. preserves (onDB J) m" "\<And>x. valid (onDB (?J f)) (g x) (\<lambda>_. onDB db_inv) (\<lambda>_. onDB db_inv)" for f and m :: "'x W" and g
    by (rule db_keep[OF that(1) that(2)]) simp
  have w: "valid (onDB (?J f)) m (\<lambda>_. onDB db_inv) (\<lambda>_. onDB db_inv)" if "preserves (onDB db_inv) m" for f and m :: "'x W"
    by (rule valid_onDB_pre[OF that]) simp
  show ?thesis
    unfolding MoveFile_def thenM_def[of "checkAncestorsUsable _ _"]
    by (intro pres_bind[OF pres_CheckBucketUsable] pres_loadFile_known k[OF pres_checkAncestorsUsable] k[OF pres_lift]
        k[OF pres_chosenName] db_if valid_moveFileSameBucket w pres)
qed

lemma parent_unique: "tree_inv d \<Longrightarrow> the_folder b c d = Some f \<Longrightarrow> (c, x) \<in> parent_rel d \<Longrightarrow> x = fld_ParentID f"
  by (drule the_folder_row) (auto simp: parent_rel_def tree_inv_def distinct_map dest: inj_onD)

lemma root_top: "tree_inv d \<Longrightarrow> 0 < i \<Longrightarrow> (0, i) \<notin> (parent_rel d)\<^sup>*"
proof
  assume t: "tree_inv d" "0 < i" "(0, i) \<in> (parent_rel d)\<^sup>*"
  from t(3) show False by (cases rule: converse_rtranclE) (use t(1,2) in \<open>auto simp: tree_inv_def parent_rel_def\<close>)
qed

lemma valid_notBelow:
  "0 < i \<Longrightarrow> valid (onDB (\<lambda>d. db_inv d \<and> p < seq (folders d))) (notBelow n b i c)
     (\<lambda>_. onDB (\<lambda>d. (db_inv d \<and> p < seq (folders d)) \<and> (c, i) \<notin> (parent_rel d)\<^sup>*)) (\<lambda>_. onDB db_inv)"
proof (induction n arbitrary: c)
  case 0
  note 0 = root_top[OF db_inv_tree 0]
  then show ?case by (subst notBelow.simps) (intro dbrules; auto intro: db_hang)
next
  case (Suc n)
  let ?J = "\<lambda>d. db_inv d \<and> p < seq (folders d)"
  note 0 = root_top[OF db_inv_tree Suc.prems]
  have step: "valid (onDB (\<lambda>d. ?J d \<and> the_folder b c d = Some f)) (notBelow n b i (fld_ParentID f))
      (\<lambda>_. onDB (\<lambda>d. ?J d \<and> (c, i) \<notin> (parent_rel d)\<^sup>*)) (\<lambda>_. onDB db_inv)" if "c \<noteq> i" for f
  proof -
    have keep: "preserves (onDB (\<lambda>d. the_folder b c d = Some f)) (notBelow n b i q)" for q
    proof (induction n arbitrary: q)
      case 0
      show ?case by (subst notBelow.simps) (simp add: pres)
    next
      case (Suc n)
      then show ?case by (subst notBelow.simps) (auto intro!: pres)
    qed
    have edge: "(c, i) \<notin> (parent_rel d)\<^sup>*" if "tree_inv d" "the_folder b c d = Some f" "(fld_ParentID f, i) \<notin> (parent_rel d)\<^sup>*" for d
    proof
      assume "(c, i) \<in> (parent_rel d)\<^sup>*"
      then show False
      proof (cases rule: converse_rtranclE)
        case (step y)
        with parent_unique[OF that(1,2)] that(3) show ?thesis by simp
      qed (use \<open>c \<noteq> i\<close> in simp)
    qed
    show ?thesis
      by (rule valid_weaken[OF valid_conj[OF Suc.IH[OF Suc.prems] keep]]) (use edge[OF db_inv_tree] in \<open>auto simp: onDB_def\<close>)
  qed
  have "valid (onDB ?J) (bindM (loadFolder b c) (\<lambda>f. notBelow n b i (fld_ParentID f)))
      (\<lambda>_. onDB (\<lambda>d. ?J d \<and> (c, i) \<notin> (parent_rel d)\<^sup>*)) (\<lambda>_. onDB db_inv)" if "c \<noteq> i"
    by (rule db_call[OF valid_onDB[OF valid_loadFolder[where J = ?J]] step[OF that]]) auto
  then show ?case
    using 0 by (subst notBelow.simps) (intro dbrules; auto)
qed


lemma valid_moveFolderSameBucket:
  assumes "0 < fld_ID folder"
  shows "preserves (onDB db_inv) (moveFolderSameBucket u b folder dir nm)"
proof -
  let ?i = "fld_ID folder"
  let ?J = "\<lambda>p d. db_inv d \<and> p < seq (folders d)"
  have upd: "valid (onDB (\<lambda>d. ?J p d \<and> (p, ?i) \<notin> (parent_rel d)\<^sup>*)) (updateFolders (\<lambda>r. live_fld r \<and> fld_ID r = ?i)
      (\<lambda>r. r\<lparr>fld_ParentID := p, fld_Name := c, fld_NameLower := ToLower c\<rparr>)) (\<lambda>_. onDB db_inv) (\<lambda>_. onDB db_inv)" for p c
    unfolding updateFolders_def
    by (rule valid_weaken[OF valid_tryExec[where J = "\<lambda>d. ?J p d \<and> (p, ?i) \<notin> (parent_rel d)\<^sup>*" and K = "\<lambda>_. db_inv"]])
      (auto simp: Let_def db_inv_def onDB_def split: if_splits option.splits intro!: owing_move_folder)
  show ?thesis
    unfolding moveFolderSameBucket_def thenM_def
    by (intro db_call[OF valid_ResolveDirPath_inv] keep_below db_if db_call[OF valid_notBelow[OF assms]] db_call[OF upd]
        pres below_weaken)
qed

lemma pres_loadFolder_then:
  assumes "\<And>f. 0 < fld_ID f \<Longrightarrow> preserves (onDB db_inv) (k f)"
  shows "preserves (onDB db_inv) (bindM (loadFolder b i) k)"
proof (rule db_call[OF valid_loadFolder])
  fix f
  show "valid (onDB (\<lambda>d. db_inv d \<and> the_folder b i d = Some f)) (k f) (\<lambda>_. onDB db_inv) (\<lambda>_. onDB db_inv)"
  proof (cases "0 < fld_ID f")
    case True
    then show ?thesis by (rule valid_onDB_pre[OF assms]) simp
  next
    case False
    then show ?thesis
      by (intro valid_absurd) (fastforce simp: tree_inv_def dest!: the_folder_row db_inv_tree)
  qed
qed

lemma pres_MoveFolder [pres]: "preserves (onDB db_inv) (MoveFolder a)"
  unfolding MoveFolder_def by (intro pres_loadFolder_then valid_moveFolderSameBucket pres)

section \<open>Lemmas: termination\<close>

lemma total_copy_parts [ends_rules]:
  "total (chosenName s t)" "total (createCopyRow auto mk b p nm)" "total (copyObject u sb db src f)" "total (createAndCopy a auto src p nm)"
  "total (freeName b p nm)"
proof -
  show 1: "total (chosenName s t)" for s t unfolding chosenName_def Let_def by (intro ends_rules)
  show 2: "total (createCopyRow auto mk b p nm)" for auto mk b p nm unfolding createCopyRow_def by (intro ends_rules)
  show 3: "total (copyObject u sb db src f)" for u sb db src f unfolding copyObject_def by (intro ends_rules)
  show "total (createAndCopy a auto src p nm)" unfolding createAndCopy_def by (intro ends_rules 2 3)
  show "total (freeName b p nm)" unfolding freeName_def by (intro ends_rules)
qed

lemma ends_usable: "ends (onDB db_inv) (checkAncestorsUsable b f)"
  by (rule ends_pre[OF ends_checkAncestorsUsable]) (simp add: onDB_def db_inv_acyclic)

lemma ends_checkDst: "ends (onDB db_inv) (checkDstFolder u b p)"
  unfolding checkDstFolder_def
  by (intro ends_keep_then ends_usable pres_checkAncestorsUsable pres_checkAncestorsAccessTree; (rule ends_total, intro ends_rules))

lemma ends_DeleteFile: "ends (onDB db_inv) (DeleteFile u b i)"
  unfolding DeleteFile_def
  by (intro ends_keep_bind ends_usable pres; (rule ends_total, intro ends_rules))

lemma ends_copyFileInner: "ends (onDB db_inv) (copyFileInner a auto)"
  unfolding copyFileInner_def
  by (intro ends_keep_bind ends_keep_then ends_if ends_usable ends_checkDst pres; (rule ends_total, intro ends_rules))


section \<open>Lemmas: checks leave the disk alone\<close>

lemma disk_copy_checks [pres]:
  "preserves (onDisk D) (chosenName s t)" "preserves (onDisk D) (checkDstFolder u b f)" "preserves (onDisk D) (createCopyRow auto mk b f nm)"
  unfolding chosenName_def checkDstFolder_def createCopyRow_def createRenaming_def Let_def by (intro pres)+

section \<open>What a copy does\<close>

lemma checkDstFolder_OkD:
  assumes "checkDstFolder u b p w = (Ok x, w')" "acyclic (parent_rel (wdb w))"
  shows "wdb w' = wdb w \<and> dir_open u b p (wdb w)"
proof -
  from assms(1)[unfolded checkDstFolder_def] obtain y1 w1 y2 w2 where
      1: "checkAncestorsUsable b p w = (Ok y1, w1)"
    and 2: "checkAncestorsAccessTree u b p w1 = (Ok y2, w2)"
    and 3: "CheckAncestorsWritable b p w2 = (Ok x, w')"
    by (elim thenM_OkE) blast
  have d1: "wdb w1 = wdb w" by (rule keep_OkD[rotated], rule 1) (rule pres_checkAncestorsUsable)
  have d2: "wdb w2 = wdb w1" using checkAncestorsAccessTree_Ok[OF 2] assms(2) d1 by simp
  show ?thesis
    using checkAncestorsAccessTree_Ok[OF 2] CheckAncestorsWritable_Ok[OF 3] assms(2) d1 d2 by (simp add: dir_open_def)
qed

lemma createCopyRow_OkD:
  assumes "createCopyRow auto mk b p nm w = (Ok f, w')" "names_ok (wdb w)" "\<not> name_taken b p nm (wdb w)"
    and "\<And>i. file_key (mk nm i) = (b, p, ToLower nm)"
  shows "f = mk nm (seq (files (wdb w))) \<and> wdb w' = (wdb w)\<lparr>files := tcreate (mk nm) (files (wdb w))\<rparr> \<and> disk w' = disk w"
proof (cases auto)
  case True
  with assms show ?thesis by (intro createRenaming_OkD) (auto simp: createCopyRow_def)
next
  case False
  with assms(1) obtain r v where r: "createFile (mk nm) w = (Ok r, v)"
    and k: "(case r of None \<Rightarrow> throwM ErrConflict | Some f \<Rightarrow> returnM f) v = (Ok f, w')"
    by (auto simp: createCopyRow_def elim: bindM_OkE)
  from createFile_free[OF r _ assms(4,3)] assms(2) k show ?thesis by (auto simp: names_ok_def returnM_def)
qed

lemma copyObject_OkD:
  assumes "copyObject u sb b src f w = (Ok g, w')" "0 \<le> fil_FileSize src"
  shows "\<exists>data. localGet storageRoot (BucketEncoder sb) (objectKeyForFile (fil_ID src)) (disk w) = Inr data \<and> g = f \<and>
    wdb w' = add_user_used u (fil_FileSize src) (add_bucket_used b (fil_FileSize src) (wdb w)) \<and>
    localPut storageRoot (BucketEncoder b) (objectKeyForFile (fil_ID f)) data (disk w) = Inr (disk w')"
proof -
  from assms(1)[unfolded copyObject_def] obtain rc v where
      1: "tryM (storageGet (BucketEncoder sb) (objectKeyForFile (fil_ID src))) w = (Ok rc, v)"
    and 2: "(case rc of Inl e \<Rightarrow> thenM (dropFileRow (fil_ID f)) (throwM (if e = ErrObjectNotFound then ErrNotFound else e))
       | Inr data \<Rightarrow> putAndBook b u data (fil_FileSize src) f) v = (Ok g, w')"
    by (rule bindM_OkE)
  from 2 obtain data where rc: "rc = Inr data" by (cases rc) (auto elim!: thenM_OkE simp: throwM_def)
  with 2 have p: "putAndBook b u data (fil_FileSize src) f v = (Ok g, w')" by simp
  show ?thesis
    using storageGet_OkD[OF tryM_InrD[OF 1[unfolded rc]]] putAndBook_OkD[OF p assms(2)] by auto
qed

lemma destName_OkD:
  assumes "(if auto then uniqueName b p nm else bindM (nameExists b p nm) (\<lambda>ex. if ex then throwM ErrConflict else returnM nm)) w = (Ok r, w')"
  shows "\<not> name_taken b p r (wdb w) \<and> candidate nm r \<and> wdb w' = wdb w \<and> (\<not> auto \<longrightarrow> r = nm)"
proof (cases auto)
  case True
  with assms have "uniqueName b p nm w = (Ok r, w')" by simp
  from valid_db_OkD[OF valid_uniqueName[where J = "\<lambda>d. d = wdb w"] this] True show ?thesis by auto
next
  case False
  with assms obtain ex v where ex: "nameExists b p nm w = (Ok ex, v)" and k: "(if ex then throwM ErrConflict else returnM nm) v = (Ok r, w')"
    by (auto elim: bindM_OkE)
  from valid_db_OkD[OF valid_nameExists[where J = "\<lambda>d. d = wdb w"] ex] k False show ?thesis
    by (auto simp: returnM_def throwM_def candidate_def split: if_splits)
qed

section \<open>Properties\<close>



text \<open>A second bucket with a file of the same name, and the objects of both files.\<close>

definition sample_disk :: disk where
  "sample_disk = (\<lambda>p. if resolve storageRoot (BucketEncoder 1) ''1'' = Inr p then Some [5, 6]
     else if resolve storageRoot (BucketEncoder 2) ''2'' = Inr p then Some [9] else None)"

definition other_file :: File where
  "other_file = sample_file\<lparr>fil_ID := 2, fil_BucketID := 2, fil_FolderID := 0, fil_FileSize := 1, fil_MD5 := ''other'', fil_UploadedBy := 1\<rparr>"

definition sample_ctask :: CopyTask where
  "sample_ctask = new_ctask 1 0 1 2 0 ''/'' ''a.txt'' 2 3 1"

definition sample_two :: world where
  "sample_two = sample\<lparr>disk := sample_disk, wdb := sample_db
     \<lparr>buckets := \<lparr>rows = [sample_bucket, sample_bucket\<lparr>bkt_ID := 2, bkt_Name := ''two'', bkt_UsedSpace := 1\<rparr>], seq = 3\<rparr>,
      files := \<lparr>rows = [sample_file, other_file], seq = 3\<rparr>,
      copyTasks := \<lparr>rows = [sample_ctask], seq = 2\<rparr>\<rparr>\<rparr>"

lemma sample_two_inv: "db_inv (wdb sample_two)"
  by (simp add: sample_two_def db_inv_def owing_def tree_inv_def sample_acyclic, simp add: files_ok_def names_ok_def other_file_def
      unique_live_def acct_def fsum_def sample_rows folder_key_def file_key_def ToLower_def lower_char_def)

definition sample_copy :: CopyFileArg where
  "sample_copy = \<lparr>cpf_UserID = 2, cpf_SrcBucketID = 1, cpf_SrcFileID = 1, cpf_DstBucketID = 2, cpf_DstDirPath = ''x'',
     cpf_DstFilename = [], cpf_DstFolderID = 0\<rparr>"



text \<open>C5: a folder never moves into its own subtree: when the move succeeds, the row's new parent does not lie below
  the folder, and nothing but parent and name of the one row has changed since the path was resolved.\<close>

theorem MoveFolder_effect:
  assumes "moveFolderSameBucket u b folder dir nm w = (Ok g, w')" "db_inv (wdb w)" "0 < fld_ID folder"
  shows "\<exists>d p c. folders_ext (wdb w) d \<and> denotes d b 0 (path_segs dir) p \<and> dir_open u b p d \<and>
    (p, fld_ID folder) \<notin> (parent_rel d)\<^sup>* \<and> \<not> name_taken b p c d \<and> candidate nm c \<and>
    wdb w' = d\<lparr>folders := tupdate (\<lambda>r. live_fld r \<and> fld_ID r = fld_ID folder)
       (\<lambda>r. r\<lparr>fld_ParentID := p, fld_Name := c, fld_NameLower := ToLower c\<rparr>) (folders d)\<rparr> \<and>
    g = folder\<lparr>fld_ParentID := p, fld_Name := c\<rparr>"
proof -
  have no: False if "throwM e v = (Ok y, v')" for e v and y :: 'a and v' using that by (simp add: throwM_def)
  from assms(1)[unfolded moveFolderSameBucket_def] obtain p w1 w2 c w3 n w4 w5 r w6 where
      1: "ResolveDirPath u b dir w = (Ok p, w1)"
    and 2: "checkDstFolder u b p w1 = (Ok (), w2)"
    and 3: "freeName b p nm w2 = (Ok c, w3)"
    and 4: "folderCount w3 = (Ok n, w4)"
    and 5: "notBelow (Suc n) b (fld_ID folder) p w4 = (Ok (), w5)"
    and 6: "updateFolders (\<lambda>r. live_fld r \<and> fld_ID r = fld_ID folder)
            (\<lambda>r. r\<lparr>fld_ParentID := p, fld_Name := c, fld_NameLower := ToLower c\<rparr>) w5 = (Ok r, w6)"
    and 7: "(case r of None \<Rightarrow> throwM ErrConflict | Some _ \<Rightarrow> returnM (folder\<lparr>fld_ParentID := p, fld_Name := c\<rparr>)) w6 = (Ok g, w')"
    by (auto elim!: bindM_OkE thenM_OkE split: if_splits dest: no)
  have v: "db_inv (wdb w1) \<and> p < seq (folders (wdb w1))"
    using valid_OkD[OF valid_ResolveDirPath_inv _ 1] assms(2) by (simp add: onDB_def)
  have d2: "wdb w2 = wdb w1" "dir_open u b p (wdb w1)" using checkDstFolder_OkD[OF 2] v by (auto intro: db_inv_acyclic)
  have c: "\<not> name_taken b p c (wdb w1) \<and> candidate nm c \<and> wdb w3 = wdb w1"
  proof -
    from 3[unfolded freeName_def] obtain ex v where e: "nameExists b p nm w2 = (Ok ex, v)"
      and k: "(if ex then uniqueName b p nm else returnM nm) v = (Ok c, w3)" by (rule bindM_OkE)
    have ex: "ex = name_taken b p nm (wdb w2)" "wdb v = wdb w2"
      using valid_db_OkD[OF valid_nameExists[where J = "\<lambda>d. d = wdb w2"] e] by auto
    show ?thesis
    proof (cases ex)
      case True
      with k have "uniqueName b p nm v = (Ok c, w3)" by simp
      from valid_db_OkD[OF valid_uniqueName[where J = "\<lambda>d. d = wdb v"] this] ex d2 show ?thesis by auto
    next
      case False
      with k ex d2 show ?thesis by (auto simp: returnM_def candidate_def)
    qed
  qed
  have d4: "wdb w4 = wdb w1" using 4 c by (auto simp: folderCount_def dest!: gets_OkD)
  have keep: "preserves (onDB J) (notBelow k b i q)" for J k i q
  proof (induction k arbitrary: q)
    case 0
    show ?case by (subst notBelow.simps) (simp add: pres)
  next
    case (Suc k)
    then show ?case by (subst notBelow.simps) (auto intro!: pres)
  qed
  have d5: "wdb w5 = wdb w1" using keep_OkD[OF keep 5] d4 by simp
  have nb: "(p, fld_ID folder) \<notin> (parent_rel (wdb w1))\<^sup>*"
    using valid_OkD[OF valid_notBelow[OF assms(3), of p] _ 5] v d4 d5 by (simp add: onDB_def)
  from 7 obtain y where r: "r = Some y" by (cases r) (auto simp: throwM_def)
  with 7 have g: "g = folder\<lparr>fld_ParentID := p, fld_Name := c\<rparr>" "w' = w6" by (auto simp: returnM_def)
  have d6: "wdb w6 = (wdb w1)\<lparr>folders := tupdate (\<lambda>r. live_fld r \<and> fld_ID r = fld_ID folder)
      (\<lambda>r. r\<lparr>fld_ParentID := p, fld_Name := c, fld_NameLower := ToLower c\<rparr>) (folders (wdb w1))\<rparr>"
    using tryExecDB_OkD[OF 6[unfolded updateFolders_def]] r d5 by (auto simp: Let_def split: if_splits)
  show ?thesis
    using ResolveDirPath_Ok[OF 1] d2 nb c d6 g by blast
qed

theorem MoveFolder_effect_witness:
  "\<exists>w'. moveFolderSameBucket 2 1 (sample_folder 2 1 ''in'' []) ''new'' ''in2'' sample =
     (Ok (sample_folder 2 1 ''in'' []\<lparr>fld_ParentID := 3, fld_Name := ''in2''\<rparr>), w') \<and>
   fst (moveFolderSameBucket 2 1 (sample_folder 1 0 ''docs'' ''[1]'') ''docs/in'' ''x'' sample) = Err ErrInvalidInput"
proof -
  let ?f = "sample_folder 2 1 ''in'' []"
  have "fst (moveFolderSameBucket 2 1 ?f ''new'' ''in2'' sample) = Ok (?f\<lparr>fld_ParentID := 3, fld_Name := ''in2''\<rparr>)" by code_simp
  then obtain w' where r: "moveFolderSameBucket 2 1 ?f ''new'' ''in2'' sample = (Ok (?f\<lparr>fld_ParentID := 3, fld_Name := ''in2''\<rparr>), w')"
    by (metis prod.collapse)
  have "fst (moveFolderSameBucket 2 1 (sample_folder 1 0 ''docs'' ''[1]'') ''docs/in'' ''x'' sample) = Err ErrInvalidInput" by code_simp
  with r MoveFolder_effect[OF r] sample_inv show ?thesis by (auto simp: sample_folder_def)
qed

end
