(* ===== verification/Tokens.thy ===== *)
theory Tokens
  imports Model BucketCoder
begin

text \<open>
  The tokens of a session: the NT hash of a password (utils/nt_hash.go) and the JWT service
  (core/jwt.go).  The libraries are parameters, collected in the record crypto: bcrypt, the digests
  MD4 and SHA-256, the random bytes (a function of the tick at which they are drawn), and signing and
  parsing of JSON Web Tokens.  Times and durations are in seconds.
\<close>

unbundle bit_operations_syntax

section \<open>The libraries\<close>

text \<open>
  The claims of a token as JSON: the fields of the two claim types and the registered ones.  A field
  that a token does not have reads as the zero value of its type.
\<close>

record payload =
  pl_uid :: nat
  pl_username :: "string option"
  pl_perm :: "int option"
  pl_jti :: string
  pl_iat :: time
  pl_exp :: time
  pl_iss :: string

text \<open>
  cr_Parse methods issuer now secret token is jwt.ParseWithClaims with WithValidMethods,
  WithExpirationRequired and, for a non-empty issuer, WithIssuer.  cr_Rand n are the bytes that the
  random source has ready at the n-th call, of which rand.Read takes as many as its buffer holds.
\<close>

record crypto =
  cr_Bcrypt :: "nat \<Rightarrow> string \<Rightarrow> string option"
  cr_Compare :: "string \<Rightarrow> string \<Rightarrow> bool"
  cr_Md4 :: "byte list \<Rightarrow> byte list"
  cr_Sha256 :: "string \<Rightarrow> byte list"
  cr_Rand :: "nat \<Rightarrow> byte list option"
  cr_Sign :: "string \<Rightarrow> payload \<Rightarrow> string option"
  cr_Parse :: "string list \<Rightarrow> string \<Rightarrow> time \<Rightarrow> string \<Rightarrow> string \<Rightarrow> payload option"

definition drawM :: "(nat \<Rightarrow> 'a) \<Rightarrow> 'a W" where
  "drawM f = (\<lambda>w. (Ok (f (tick w)), w\<lparr>tick := Suc (tick w)\<rparr>))"

text \<open>hex.EncodeToString and hexString.\<close>

definition hex_digit :: "byte \<Rightarrow> char" where
  "hex_digit b = ''0123456789abcdef'' ! unat b"

definition hexString :: "byte list \<Rightarrow> string" where
  "hexString bs = concat (map (\<lambda>v. [hex_digit (drop_bit 4 v), hex_digit (v AND 0x0F)]) bs)"

section \<open>The NT hash\<close>

text \<open>utf16.Encode of one rune, and the little-endian bytes of its units.\<close>

definition utf16_units :: "nat \<Rightarrow> nat list" where
  "utf16_units r =
     (if r < 0xD800 \<or> 0xE000 \<le> r \<and> r < 0x10000 then [r]
      else if 0x10000 \<le> r \<and> r \<le> 0x10FFFF
      then [0xD800 + (r - 0x10000) div 1024, 0xDC00 + (r - 0x10000) mod 1024]
      else [RuneError])"

definition unit_bytes :: "nat \<Rightarrow> byte list" where
  "unit_bytes u = [of_nat u, of_nat (u div 256)]"

definition NtHashOf :: "crypto \<Rightarrow> string \<Rightarrow> string" where
  "NtHashOf cr pw = hexString (cr_Md4 cr (concat (map unit_bytes (concat (map utf16_units (runes pw))))))"

section \<open>The JWT service\<close>

record Claims =
  clm_UserID :: nat
  clm_Username :: string
  clm_PermissionLevel :: int

record JwtService =
  AccessSecret :: string
  RefreshSecret :: string
  AccessTTL :: time
  RefreshTTL :: time
  Issuer :: string
  Algorithm :: string

record JwtConfig =
  jc_Secret :: string
  jc_ExpireMinutes :: int
  jc_Issuer :: string
  jc_Algorithm :: string

definition orDefault :: "string \<Rightarrow> string \<Rightarrow> string" where
  "orDefault s t = (if s = [] then t else s)"

definition ttlOf :: "JwtConfig \<Rightarrow> time \<Rightarrow> time" where
  "ttlOf c d = (if jc_ExpireMinutes c \<le> 0 then d else nat (jc_ExpireMinutes c) * 60)"

text \<open>None: the process ends because the access secret is missing (log.Fatalf).\<close>

definition InitJwtServers :: "crypto \<Rightarrow> JwtConfig \<Rightarrow> JwtConfig \<Rightarrow> JwtService option" where
  "InitJwtServers cr a r =
     (let accessSecret = TrimSpace (jc_Secret a);
          refreshSecret = orDefault (TrimSpace (jc_Secret r)) (hexString (cr_Sha256 cr accessSecret)) in
      if accessSecret = [] then None
      else Some \<lparr>AccessSecret = accessSecret, RefreshSecret = refreshSecret,
        AccessTTL = ttlOf a (12 * 60 * 60), RefreshTTL = ttlOf r (7 * 24 * 60 * 60),
        Issuer = orDefault (TrimSpace (jc_Issuer a)) ''orbitcloud'', Algorithm = ''HS256''\<rparr>)"

definition newTokenID :: "crypto \<Rightarrow> string W" where
  "newTokenID cr =
     bindM (drawM (cr_Rand cr)) (\<lambda>r.
     case r of
       None \<Rightarrow> bindM (getsM clock) (\<lambda>now. returnM (dec now))
     | Some b \<Rightarrow> returnM (hexString (take 16 b)))"

definition signM :: "crypto \<Rightarrow> string \<Rightarrow> payload \<Rightarrow> string W" where
  "signM cr secret p = (case cr_Sign cr secret p of None \<Rightarrow> throwM ErrInternal | Some t \<Rightarrow> returnM t)"

definition SignAccess :: "crypto \<Rightarrow> JwtService \<Rightarrow> Claims \<Rightarrow> string W" where
  "SignAccess cr j c =
     bindM (getsM clock) (\<lambda>now.
     bindM (newTokenID cr) (\<lambda>i.
     signM cr (AccessSecret j) \<lparr>pl_uid = clm_UserID c, pl_username = Some (clm_Username c),
       pl_perm = Some (clm_PermissionLevel c), pl_jti = i, pl_iat = now, pl_exp = now + AccessTTL j,
       pl_iss = Issuer j\<rparr>))"

definition SignRefresh :: "crypto \<Rightarrow> JwtService \<Rightarrow> nat \<Rightarrow> string W" where
  "SignRefresh cr j userID =
     bindM (getsM clock) (\<lambda>now.
     bindM (newTokenID cr) (\<lambda>i.
     signM cr (RefreshSecret j) \<lparr>pl_uid = userID, pl_username = None, pl_perm = None, pl_jti = i,
       pl_iat = now, pl_exp = now + RefreshTTL j, pl_iss = Issuer j\<rparr>))"

definition claims_of :: "payload \<Rightarrow> Claims" where
  "claims_of p = \<lparr>clm_UserID = pl_uid p, clm_Username = (case pl_username p of None \<Rightarrow> [] | Some s \<Rightarrow> s),
     clm_PermissionLevel = (case pl_perm p of None \<Rightarrow> 0 | Some l \<Rightarrow> l)\<rparr>"

definition Verify :: "crypto \<Rightarrow> JwtService \<Rightarrow> string \<Rightarrow> Claims W" where
  "Verify cr j token =
     bindM (getsM clock) (\<lambda>now.
     case cr_Parse cr [Algorithm j] (Issuer j) now (AccessSecret j) token of
       None \<Rightarrow> throwM ErrInternal
     | Some p \<Rightarrow> returnM (claims_of p))"

definition VerifyRefresh :: "crypto \<Rightarrow> JwtService \<Rightarrow> string \<Rightarrow> nat W" where
  "VerifyRefresh cr j token =
     bindM (getsM clock) (\<lambda>now.
     case cr_Parse cr [Algorithm j] (Issuer j) now (RefreshSecret j) token of
       None \<Rightarrow> throwM ErrInternal
     | Some p \<Rightarrow> returnM (pl_uid p))"

definition HashToken :: "crypto \<Rightarrow> string \<Rightarrow> string" where
  "HashToken cr token = hexString (cr_Sha256 cr token)"

section \<open>Lemmas\<close>

lemma pres_draw [pres]: "preserves (onDB J) (drawM f)"
  by (auto simp: valid_def drawM_def onDB_def)

lemma ends_draw [ends_rules]: "ends P (drawM f)"
  by (simp add: ends_def drawM_def)

lemma draw_run [run]: "drawM f w = (Ok (f (tick w)), w\<lparr>tick := Suc (tick w)\<rparr>)"
  by (simp add: drawM_def)

lemma pres_tokens [pres]:
  "preserves (onDB J) (SignAccess cr j c)" "preserves (onDB J) (SignRefresh cr j u)"
  "preserves (onDB J) (Verify cr j t)" "preserves (onDB J) (VerifyRefresh cr j t)"
  unfolding SignAccess_def SignRefresh_def Verify_def VerifyRefresh_def newTokenID_def signM_def
  by (intro pres)+

lemma total_tokens [ends_rules]:
  "total (SignAccess cr j c)" "total (SignRefresh cr j u)" "total (Verify cr j t)" "total (VerifyRefresh cr j t)"
  unfolding SignAccess_def SignRefresh_def Verify_def VerifyRefresh_def newTokenID_def signM_def
  by (intro ends_rules)+

lemma SignAccess_OkD:
  "SignAccess cr j c w = (Ok t, w') \<Longrightarrow> wdb w' = wdb w \<and> disk w' = disk w \<and> clock w' = clock w \<and>
   (\<exists>i. cr_Sign cr (AccessSecret j) \<lparr>pl_uid = clm_UserID c, pl_username = Some (clm_Username c),
       pl_perm = Some (clm_PermissionLevel c), pl_jti = i, pl_iat = clock w, pl_exp = clock w + AccessTTL j,
       pl_iss = Issuer j\<rparr> = Some t)"
  by (auto simp: SignAccess_def newTokenID_def signM_def run split: option.splits)

lemma SignRefresh_OkD:
  "SignRefresh cr j u w = (Ok t, w') \<Longrightarrow> wdb w' = wdb w \<and> disk w' = disk w \<and> clock w' = clock w \<and>
   (\<exists>i. cr_Sign cr (RefreshSecret j) \<lparr>pl_uid = u, pl_username = None, pl_perm = None, pl_jti = i,
       pl_iat = clock w, pl_exp = clock w + RefreshTTL j, pl_iss = Issuer j\<rparr> = Some t)"
  by (auto simp: SignRefresh_def newTokenID_def signM_def run split: option.splits)

lemma Verify_fst:
  "fst (Verify cr j t v) = (case cr_Parse cr [Algorithm j] (Issuer j) (clock v) (AccessSecret j) t of
      None \<Rightarrow> Err ErrInternal | Some p \<Rightarrow> Ok (claims_of p))"
  "fst (VerifyRefresh cr j t v) = (case cr_Parse cr [Algorithm j] (Issuer j) (clock v) (RefreshSecret j) t of
      None \<Rightarrow> Err ErrInternal | Some p \<Rightarrow> Ok (pl_uid p))"
  by (simp_all add: Verify_def VerifyRefresh_def run split: option.splits)

section \<open>Properties\<close>

text \<open>
  What the JWT library promises: a signed token parses with the secret it was signed with, for the
  method HS256 of the code and the issuer it carries, until it expires; a parsed token was signed so.
\<close>

definition jwt_library :: "crypto \<Rightarrow> bool" where
  "jwt_library cr \<longleftrightarrow>
     (\<forall>s p t. cr_Sign cr s p = Some t \<longrightarrow> (\<forall>ms iss now s'. cr_Parse cr ms iss now s' t =
        (if s' = s \<and> ''HS256'' \<in> set ms \<and> (iss = [] \<or> iss = pl_iss p) \<and> now < pl_exp p then Some p else None)))"


text \<open>A library whose tokens are their own secret and claims.\<close>

definition plain_sign :: "string \<Rightarrow> payload \<Rightarrow> string option" where
  "plain_sign s p = (if CHR '':'' \<in> set s \<or> pl_username p \<noteq> None \<or> pl_perm p \<noteq> None \<or> pl_uid p \<noteq> 1 \<or> pl_jti p \<noteq> [] \<or>
      pl_iat p \<noteq> 0 \<or> pl_exp p \<noteq> 60 \<or> pl_iss p \<noteq> ''orbitcloud'' then None else Some (s @ '':''))"

definition plain_parse :: "string list \<Rightarrow> string \<Rightarrow> time \<Rightarrow> string \<Rightarrow> string \<Rightarrow> payload option" where
  "plain_parse ms iss now s t =
     (if t = s @ '':'' \<and> ''HS256'' \<in> set ms \<and> (iss = [] \<or> iss = ''orbitcloud'') \<and> now < 60
      then Some \<lparr>pl_uid = 1, pl_username = None, pl_perm = None, pl_jti = [], pl_iat = 0, pl_exp = 60,
        pl_iss = ''orbitcloud''\<rparr> else None)"

definition plain_crypto :: crypto where
  "plain_crypto = \<lparr>cr_Bcrypt = (\<lambda>_ p. Some p), cr_Compare = (\<lambda>h p. h = p), cr_Md4 = id, cr_Sha256 = map of_char,
     cr_Rand = (\<lambda>_. Some []), cr_Sign = plain_sign, cr_Parse = plain_parse\<rparr>"

definition plain_config :: JwtConfig where
  "plain_config = \<lparr>jc_Secret = ''s'', jc_ExpireMinutes = 1, jc_Issuer = [], jc_Algorithm = []\<rparr>"

lemma plain_library: "jwt_library plain_crypto"
proof -
  have "cr_Parse plain_crypto ms iss now s' t =
      (if s' = s \<and> ''HS256'' \<in> set ms \<and> (iss = [] \<or> iss = pl_iss p) \<and> now < pl_exp p then Some p else None)"
    if "cr_Sign plain_crypto s p = Some t" for s p t ms iss now s'
    using that by (cases p) (auto simp: plain_crypto_def plain_sign_def plain_parse_def split: if_splits)
  then show ?thesis by (auto simp: jwt_library_def)
qed


end
