(* ===== verification/Paging.thy ===== *)
theory Paging
  imports Model Ranges "HOL-Library.Multiset"
begin

text \<open>
  The paged query that every listing goes through, its options from the query string, and the keyset
  cursors of deep listings (common/page.go).  The comparison LIKE and the order an ORDER BY clause
  puts rows in are the database's: they are parameters, likes pattern text and orderby clause rows.
\<close>

section \<open>Options\<close>

record PageOption =
  po_Cursor :: int
  po_Page :: int
  po_PageSize :: int
  po_Key :: string
  po_Order :: string
  po_DefaultOrder :: string
  po_Orderby :: string

record TimeInfo =
  ti_StartTime :: "time option"
  ti_EndTime :: "time option"

record 'r PaginatedResult =
  pr_List :: "'r list"
  pr_Total :: nat
  pr_Page :: int
  pr_PageSize :: int
  pr_TotalPages :: int
  pr_HasMore :: bool
  pr_NextCursor :: int

definition normPage :: "int \<Rightarrow> int" where
  "normPage page = (if page < 1 then 1 else page)"

definition normPageSize :: "int \<Rightarrow> int" where
  "normPageSize n = (let m = (if n \<le> 0 then 10 else n) in if m > 100 then 100 else m)"

definition NewOption :: "int \<Rightarrow> int \<Rightarrow> PageOption" where
  "NewOption page pageSize =
     \<lparr>po_Cursor = 0, po_Page = normPage page, po_PageSize = normPageSize pageSize, po_Key = [], po_Order = [],
      po_DefaultOrder = [], po_Orderby = []\<rparr>"

text \<open>strconv.Atoi: an optional sign and decimal digits, in the int64 range.\<close>

definition Atoi :: "string \<Rightarrow> int option" where
  "Atoi s =
     (let neg = (s \<noteq> [] \<and> hd s = CHR ''-'');
          ds = (if s \<noteq> [] \<and> (hd s = CHR ''-'' \<or> hd s = CHR ''+'') then tl s else s);
          n = foldl (\<lambda>a c. a * 10 + digit_val c) 0 ds;
          v = (if neg then - n else n) in
      if ds = [] \<or> \<not> list_all is_digit ds \<or> v < - (2 ^ 63) \<or> v > max_int64 then None else Some v)"

definition intVal :: "string \<Rightarrow> int \<Rightarrow> int" where
  "intVal s dflt =
     (if s = [] then dflt
      else case Atoi s of None \<Rightarrow> dflt | Some v \<Rightarrow> if v < 0 then dflt else v)"

text \<open>values.Get: the empty string when the parameter is missing.\<close>

definition ParseOption :: "(string \<Rightarrow> string) \<Rightarrow> PageOption" where
  "ParseOption get =
     (NewOption (intVal (get ''page'') 1) (intVal (get ''page_size'') 10))
       \<lparr>po_Cursor := intVal (get ''cursor'') 0, po_Key := get ''key'', po_Order := get ''order''\<rparr>"

definition letter :: "char \<Rightarrow> bool" where
  "letter c = (let n = of_char c :: nat in 65 \<le> n \<and> n \<le> 90 \<or> 97 \<le> n \<and> n \<le> 122)"

definition fieldNameRe :: "string \<Rightarrow> bool" where
  "fieldNameRe s \<longleftrightarrow> s \<noteq> [] \<and> (letter (hd s) \<or> hd s = CHR ''_'') \<and>
     list_all (\<lambda>c. letter c \<or> is_digit c \<or> c = CHR ''_'') (tl s)"

definition direction :: "string \<Rightarrow> string" where
  "direction order =
     (let dir = ToUpper (TrimSpace order) in if dir \<noteq> ''ASC'' \<and> dir \<noteq> ''DESC'' then ''DESC'' else dir)"

definition buildOrder :: "PageOption \<Rightarrow> string" where
  "buildOrder opt =
     (if po_Orderby opt \<noteq> [] then
        if \<not> fieldNameRe (po_Orderby opt) then ''id DESC'' else po_Orderby opt @ '' '' @ direction (po_Order opt)
      else if po_DefaultOrder opt \<noteq> [] then po_DefaultOrder opt
      else [])"

section \<open>The query\<close>

definition extractLastID :: "('r \<Rightarrow> nat) \<Rightarrow> 'r list \<Rightarrow> int" where
  "extractLastID idOf items = (if items = [] then 0 else int (idOf (last items)))"

text \<open>The conditions of the query on a row: cursor, time range, key prefix, and the caller's filters.\<close>

definition page_cond ::
  "(string \<Rightarrow> string \<Rightarrow> bool) \<Rightarrow> ('r \<Rightarrow> nat) \<Rightarrow> ('r \<Rightarrow> time) \<Rightarrow> ('r \<Rightarrow> bool) list \<Rightarrow> ('r \<Rightarrow> string) list \<Rightarrow>
   PageOption \<Rightarrow> TimeInfo option \<Rightarrow> 'r \<Rightarrow> bool" where
  "page_cond likes idOf createdAt filters keyList opt ti r \<longleftrightarrow>
     (po_Cursor opt > 0 \<longrightarrow> int (idOf r) > po_Cursor opt) \<and>
     (case ti of None \<Rightarrow> True | Some t \<Rightarrow>
        (case ti_StartTime t of None \<Rightarrow> True | Some s \<Rightarrow> createdAt r \<ge> s) \<and>
        (case ti_EndTime t of None \<Rightarrow> True | Some e \<Rightarrow> createdAt r \<le> e)) \<and>
     (po_Key opt \<noteq> [] \<and> keyList \<noteq> [] \<longrightarrow> list_ex (\<lambda>col. likes (po_Key opt @ ''%'') (col r)) keyList) \<and>
     list_all (\<lambda>p. p r) filters"

definition page_of :: "int \<Rightarrow> int \<Rightarrow> 'r list \<Rightarrow> 'r list" where
  "page_of page n rs = take (nat n) (drop (nat ((page - 1) * n)) rs)"

definition PageQuery ::
  "(string \<Rightarrow> string \<Rightarrow> bool) \<Rightarrow> (string \<Rightarrow> 'r list \<Rightarrow> 'r list) \<Rightarrow> (db \<Rightarrow> 'r list) \<Rightarrow> ('r \<Rightarrow> nat) \<Rightarrow>
   ('r \<Rightarrow> time) \<Rightarrow> ('r \<Rightarrow> bool) list \<Rightarrow> ('r \<Rightarrow> string) list \<Rightarrow> PageOption \<Rightarrow> TimeInfo option \<Rightarrow> 'r PaginatedResult W" where
  "PageQuery likes orderby table idOf createdAt filters keyList opt0 ti =
     (let opt = opt0\<lparr>po_Page := normPage (po_Page opt0), po_PageSize := normPageSize (po_PageSize opt0)\<rparr>;
          sel = (\<lambda>d. filter (page_cond likes idOf createdAt filters keyList opt ti) (table d)) in
      bindM (queryDB (\<lambda>d. length (sel d))) (\<lambda>total.
      bindM (queryDB (\<lambda>d. page_of (po_Page opt) (po_PageSize opt) (orderby (buildOrder opt) (sel d)))) (\<lambda>items.
      let totalPages = (int total + po_PageSize opt - 1) div po_PageSize opt in
      returnM \<lparr>pr_List = items, pr_Total = total, pr_Page = po_Page opt, pr_PageSize = po_PageSize opt,
        pr_TotalPages = totalPages, pr_HasMore = (po_Page opt < totalPages), pr_NextCursor = extractLastID idOf items\<rparr>)))"

section \<open>Keyset cursors\<close>

definition EncodeKeysetID :: "nat \<Rightarrow> string" where
  "EncodeKeysetID i = dec i"

text \<open>strconv.ParseUint(s, 10, 64), 0 on an error.\<close>

definition DecodeKeysetID :: "string \<Rightarrow> nat" where
  "DecodeKeysetID s =
     (let t = TrimSpace s; n = foldl (\<lambda>a c. a * 10 + digit_val c) 0 t in
      if t = [] \<or> \<not> list_all is_digit t \<or> n \<ge> 2 ^ 64 then 0 else nat n)"

definition KeysetIDCond :: "string \<Rightarrow> nat \<Rightarrow> bool" where
  "KeysetIDCond cursor i = (let c = DecodeKeysetID cursor in c = 0 \<or> i < c)"

section \<open>Lemmas\<close>

lemma normPage_pos [simp]: "1 \<le> normPage p" "0 < normPage p"
  by (simp_all add: normPage_def)

lemma normPageSize_bounds [simp]: "1 \<le> normPageSize n" "normPageSize n \<le> 100" "0 < normPageSize n"
  by (simp_all add: normPageSize_def Let_def)

lemma pres_PageQuery [pres]: "preserves (onDB J) (PageQuery lk ob tb i c fs ks opt ti)"
  unfolding PageQuery_def Let_def by (intro pres)

lemma total_PageQuery [ends_rules]: "total (PageQuery lk ob tb i c fs ks opt ti)"
  unfolding PageQuery_def Let_def by (intro ends_rules)

lemma concat_pages: "concat (map (\<lambda>p. take n (drop (p * n) xs)) [0..<k]) = take (k * n) xs"
proof (induction k)
  case (Suc k)
  have "take (Suc k * n) xs = take (k * n) xs @ take n (drop (k * n) xs)"
    by (simp only: mult_Suc take_add[symmetric] add.commute[of n])
  with Suc show ?case by simp
qed simp

lemma DecodeKeysetID_dec: "n < 2 ^ 64 \<Longrightarrow> DecodeKeysetID (dec n) = n"
proof -
  assume n: "n < 2 ^ 64"
  have "TrimSpace (dec n) = dec n" by (rule TrimSpace_visible) (use dec_visible hd_in_set last_in_set dec_ne in blast)+
  with n show ?thesis by (simp add: DecodeKeysetID_def dec_digits dec_value Let_def)
qed

lemma pages_all:
  assumes "0 < n"
  shows "concat (map (\<lambda>p. page_of p n xs) [1..(int (length xs) + n - 1) div n]) = xs"
proof -
  let ?k = "(int (length xs) + n - 1) div n"
  have k: "0 \<le> ?k" using assms by (simp add: pos_imp_zdiv_nonneg_iff)
  have "[1..?k] = map (\<lambda>i. int i + 1) [0..<nat ?k]"
    by (rule nth_equalityI) (auto simp: nth_upto)
  then have "concat (map (\<lambda>p. page_of p n xs) [1..?k]) = concat (map (\<lambda>p. take (nat n) (drop (p * nat n) xs)) [0..<nat ?k])"
    using assms by (simp add: page_of_def comp_def nat_mult_distrib)
  also have "\<dots> = take (nat ?k * nat n) xs" by (rule concat_pages)
  also have "\<dots> = xs"
  proof -
    have "int (length xs) + n - 1 - ?k * n < n" using assms by (simp add: minus_div_mult_eq_mod)
    then have "int (length xs) \<le> ?k * n" by simp
    moreover have "int (nat ?k * nat n) = ?k * n" using k assms by simp
    ultimately have "length xs \<le> nat ?k * nat n" by linarith
    then show ?thesis by simp
  qed
  finally show ?thesis .
qed

lemma more_pages:
  assumes "0 < n" "1 \<le> p"
  shows "p < (int (length xs) + n - 1) div n \<longleftrightarrow> page_of (p + 1) n xs \<noteq> []"
proof -
  have "p < (int (length xs) + n - 1) div n \<longleftrightarrow> p * n < int (length xs)"
  proof -
    have "p + 1 \<le> (int (length xs) + n - 1) div n \<longleftrightarrow> (p + 1) * n \<le> int (length xs) + n - 1"
    proof
      assume "p + 1 \<le> (int (length xs) + n - 1) div n"
      then have "(p + 1) * n \<le> (int (length xs) + n - 1) div n * n" using assms(1) by (simp add: mult_right_mono)
      also have "\<dots> \<le> int (length xs) + n - 1"
        using assms(1) by (metis Euclidean_Rings.pos_mod_sign add_increasing2 div_mult_mod_eq order_refl)
      finally show "(p + 1) * n \<le> int (length xs) + n - 1" .
    next
      assume "(p + 1) * n \<le> int (length xs) + n - 1"
      then have "(p + 1) * n div n \<le> (int (length xs) + n - 1) div n" using assms(1) by (rule zdiv_mono1)
      then show "p + 1 \<le> (int (length xs) + n - 1) div n" using assms(1) by simp
    qed
    then show ?thesis by (simp add: algebra_simps) linarith
  qed
  also have "\<dots> \<longleftrightarrow> nat (p * n) < length xs" using assms by (simp add: nat_less_iff)
  also have "\<dots> \<longleftrightarrow> page_of (p + 1) n xs \<noteq> []" using assms by (simp add: page_of_def not_le)
  finally show ?thesis .
qed

section \<open>Properties\<close>

text \<open>A listing by pages is complete and has no repetitions: a page has at most a hundred rows, the pages one up
  to the reported number of pages, read from the same database, are together the selected rows in
  their order, and the result says that there is more exactly when the next page is not empty.\<close>

lemma PageQuery_pages:
  fixes opt :: PageOption
  defines "n \<equiv> normPageSize (po_PageSize opt)"
  assumes "\<And>c rs. mset (orderby c rs) = mset rs"
    and "PageQuery likes orderby table idOf createdAt filters keyList opt ti w = (Ok r, w')"
  shows "\<exists>rs. rs = orderby (buildOrder opt) (filter (page_cond likes idOf createdAt filters keyList opt ti) (table (wdb w))) \<and>
    pr_List r = page_of (normPage (po_Page opt)) n rs \<and> length (pr_List r) \<le> 100 \<and> pr_Total r = length rs \<and>
    concat (map (\<lambda>p. page_of p n rs) [1..pr_TotalPages r]) = rs \<and>
    (pr_HasMore r \<longleftrightarrow> page_of (normPage (po_Page opt) + 1) n rs \<noteq> [])"
proof -
  let ?opt = "opt\<lparr>po_Page := normPage (po_Page opt), po_PageSize := n\<rparr>"
  let ?sel = "filter (page_cond likes idOf createdAt filters keyList opt ti) (table (wdb w))"
  have c: "page_cond likes idOf createdAt filters keyList ?opt ti = page_cond likes idOf createdAt filters keyList opt ti"
    by (auto simp: page_cond_def)
  have b: "buildOrder ?opt = buildOrder opt" by (simp add: buildOrder_def)
  let ?rs = "orderby (buildOrder opt) ?sel"
  have len: "length ?rs = length ?sel" using assms(2) by (metis mset_eq_length)
  have r: "pr_List r = page_of (normPage (po_Page opt)) n ?rs" "pr_Total r = length ?sel"
      "pr_TotalPages r = (int (length ?sel) + n - 1) div n" "pr_HasMore r = (normPage (po_Page opt) < pr_TotalPages r)"
    using assms(3) unfolding PageQuery_def Let_def n_def[symmetric]
    by (auto simp: c b basic_run n_def[symmetric] elim!: bindM_OkE dest!: queryDB_OkD)
  have n: "0 < n" "n \<le> 100" by (simp_all add: n_def)
  have "length (page_of (normPage (po_Page opt)) n ?rs) \<le> 100" using n by (simp add: page_of_def)
  then show ?thesis
    using r pages_all[OF n(1), of ?rs] more_pages[OF n(1), of "normPage (po_Page opt)" ?rs]
    by (simp add: len)
qed

lemma PageQuery_pages_witness:
  "\<exists>r w'. PageQuery (\<lambda>p s. True) (\<lambda>c rs. rev rs) (\<lambda>d. [3, 5, 7]) id id [] [] (NewOption 1 2) None
      (calm_world empty_db (\<lambda>_. None)) = (Ok r, w') \<and>
     pr_List r = [7, 5 :: nat] \<and> pr_HasMore r \<and> concat (map (\<lambda>p. page_of p 2 [7, 5, 3]) [1..pr_TotalPages r]) = [7, 5, 3 :: nat]"
proof -
  let ?q = "PageQuery (\<lambda>p s. True) (\<lambda>c rs. rev rs) (\<lambda>d. [3, 5, 7]) id id [] [] (NewOption 1 2) None
      (calm_world empty_db (\<lambda>_. None))"
  let ?r = "\<lparr>pr_List = [7, 5 :: nat], pr_Total = 3, pr_Page = 1, pr_PageSize = 2, pr_TotalPages = 2, pr_HasMore = True, pr_NextCursor = 5\<rparr>"
  have "fst ?q = Ok ?r" by code_simp
  then obtain w' where q: "?q = (Ok ?r, w')" by (metis prod.collapse)
  have "mset (rev rs) = mset rs" for rs :: "nat list" by simp
  from PageQuery_pages[OF this q] have "concat (map (\<lambda>p. page_of p 2 [7, 5, 3]) [1..2]) = [7, 5, 3 :: nat]"
    by (auto simp: NewOption_def normPageSize_def page_cond_def)
  with q show ?thesis by auto
qed

end
