(* ===== verification/Accounts.thy ===== *)
theory Accounts
  imports Invariant Tokens Paging
begin

text \<open>
  User accounts (server/user.go): registration, login, rotation of the session's tokens, logout, the
  updates of accounts by their owners and by administrators, deletion.  The rights of the caller are
  checked before, in the handlers (theory Perm).
\<close>

section \<open>Registration\<close>

record RegisterArg =
  rga_Username :: string
  rga_Password :: string
  rga_PermissionLevel :: int

text \<open>The user name is unique over all rows, the deleted ones too.\<close>

definition createUser :: "(nat \<Rightarrow> User) \<Rightarrow> User option W" where
  "createUser mk = tryExecDB (\<lambda>d.
     let t = tcreate mk (users d) in
     if distinct (map usr_Username (rows t)) then Some (mk (seq (users d)), d\<lparr>users := t\<rparr>) else None)"

definition hashPassword :: "crypto \<Rightarrow> string \<Rightarrow> string W" where
  "hashPassword cr pw =
     bindM (drawM (\<lambda>n. cr_Bcrypt cr n pw)) (\<lambda>h.
     case h of None \<Rightarrow> throwM ErrInternal | Some h \<Rightarrow> returnM h)"

definition new_user :: "string \<Rightarrow> string \<Rightarrow> int \<Rightarrow> string \<Rightarrow> time \<Rightarrow> nat \<Rightarrow> User" where
  "new_user name hash perm nt now i =
     \<lparr>usr_ID = i, usr_CreatedAt = now, usr_DeletedAt = None, usr_Username = name, usr_Password = hash,
      usr_Name = name, usr_Remarks = [], usr_Email = [], usr_PermissionLevel = perm, usr_LastLogin = None,
      usr_Status = 1, usr_NtHash = nt, usr_Quota = None, usr_UsedSpace = 0\<rparr>"

definition sanitizeUser :: "User \<Rightarrow> User" where
  "sanitizeUser u = u\<lparr>usr_Password := [], usr_NtHash := []\<rparr>"

definition Register :: "crypto \<Rightarrow> RegisterArg \<Rightarrow> User W" where
  "Register cr a =
     (let name = TrimSpace (rga_Username a);
          perm = (if rga_PermissionLevel a \<le> SuperAdmin then NormalUser else rga_PermissionLevel a) in
      if name = [] \<or> rga_Password a = [] \<or> length (rga_Password a) < 8 then throwM ErrInvalidInput
      else
        bindM (hashPassword cr (rga_Password a)) (\<lambda>hash.
        bindM (getsM clock) (\<lambda>now.
        bindM (createUser (new_user name hash perm (NtHashOf cr (rga_Password a)) now)) (\<lambda>r.
        case r of None \<Rightarrow> throwM ErrConflict | Some u \<Rightarrow> returnM (sanitizeUser u)))))"

section \<open>Sessions\<close>

record LoginResult =
  lgr_AccessToken :: string
  lgr_ExpiresIn :: time
  lgr_RefreshToken :: string
  lgr_User :: User

definition new_token :: "nat \<Rightarrow> string \<Rightarrow> time \<Rightarrow> nat \<Rightarrow> RefreshToken" where
  "new_token userID hash expires i =
     \<lparr>rtk_ID = i, rtk_DeletedAt = None, rtk_UserID = userID, rtk_Token = hash, rtk_ExpiresAt = expires,
      rtk_RevokedAt = None, rtk_UserAgent = [], rtk_IP = []\<rparr>"

definition createToken :: "(nat \<Rightarrow> RefreshToken) \<Rightarrow> RefreshToken option W" where
  "createToken mk = tryExecDB (\<lambda>d.
     let t = tcreate mk (tokens d) in
     if distinct (map rtk_Token (rows t)) then Some (mk (seq (tokens d)), d\<lparr>tokens := t\<rparr>) else None)"

definition issueTokens :: "crypto \<Rightarrow> JwtService \<Rightarrow> User \<Rightarrow> LoginResult W" where
  "issueTokens cr j u =
     bindM (SignAccess cr j \<lparr>clm_UserID = usr_ID u, clm_Username = usr_Username u,
       clm_PermissionLevel = usr_PermissionLevel u\<rparr>) (\<lambda>access.
     bindM (SignRefresh cr j (usr_ID u)) (\<lambda>raw.
     bindM (getsM clock) (\<lambda>now.
     bindM (createToken (new_token (usr_ID u) (HashToken cr raw) (now + RefreshTTL j))) (\<lambda>r.
     case r of
       None \<Rightarrow> throwM ErrInternal
     | Some _ \<Rightarrow> returnM \<lparr>lgr_AccessToken = access, lgr_ExpiresIn = AccessTTL j, lgr_RefreshToken = raw,
         lgr_User = sanitizeUser u\<rparr>))))"

definition user_named :: "string \<Rightarrow> db \<Rightarrow> User option" where
  "user_named name d = tfirst (\<lambda>r. live_usr r \<and> usr_Username r = name) (users d)"

definition update_user :: "nat \<Rightarrow> (User \<Rightarrow> User) \<Rightarrow> db \<Rightarrow> db" where
  "update_user i f d = d\<lparr>users := tupdate (\<lambda>r. live_usr r \<and> usr_ID r = i) f (users d)\<rparr>"

definition Login :: "crypto \<Rightarrow> JwtService \<Rightarrow> string \<Rightarrow> string \<Rightarrow> LoginResult W" where
  "Login cr j username password =
     bindM (queryDB (user_named (TrimSpace username))) (\<lambda>r.
     case r of
       None \<Rightarrow> throwM ErrUnauthorized
     | Some u \<Rightarrow>
         if usr_Status u \<noteq> 1 then throwM ErrForbidden
         else if \<not> cr_Compare cr (usr_Password u) password then throwM ErrUnauthorized
         else
           bindM (getsM clock) (\<lambda>now.
           thenM (ignoreM (execDB (update_user (usr_ID u) (\<lambda>r. r\<lparr>usr_LastLogin := Some now\<rparr>))))
                 (issueTokens cr j u)))"

definition usable_token :: "string \<Rightarrow> time \<Rightarrow> RefreshToken \<Rightarrow> bool" where
  "usable_token hash now r \<longleftrightarrow> live_rtk r \<and> rtk_Token r = hash \<and> rtk_RevokedAt r = None \<and> now < rtk_ExpiresAt r"

definition revoke :: "(RefreshToken \<Rightarrow> bool) \<Rightarrow> time \<Rightarrow> db \<Rightarrow> db" where
  "revoke P now d = d\<lparr>tokens := tupdate (\<lambda>r. live_rtk r \<and> P r) (\<lambda>r. r\<lparr>rtk_RevokedAt := Some now\<rparr>) (tokens d)\<rparr>"

definition Refresh :: "crypto \<Rightarrow> JwtService \<Rightarrow> string \<Rightarrow> LoginResult W" where
  "Refresh cr j token =
     (if token = [] then throwM ErrUnauthorized
      else
        bindM (tryM (VerifyRefresh cr j token)) (\<lambda>v.
        case v of
          Inl _ \<Rightarrow> throwM ErrUnauthorized
        | Inr _ \<Rightarrow>
            bindM (getsM clock) (\<lambda>now.
            bindM (queryDB (\<lambda>d. tfirst (usable_token (HashToken cr token) now) (tokens d))) (\<lambda>r.
            case r of
              None \<Rightarrow> throwM ErrUnauthorized
            | Some rt \<Rightarrow>
                bindM (tryM (GetUser (rtk_UserID rt))) (\<lambda>u.
                case u of
                  Inl _ \<Rightarrow> throwM ErrUnauthorized
                | Inr u \<Rightarrow>
                    if usr_Status u \<noteq> 1 then throwM ErrForbidden
                    else transaction
                      (thenM (execDB (revoke (\<lambda>r. rtk_ID r = rtk_ID rt) now))
                             (issueTokens cr j u)))))))"

definition Logout :: "crypto \<Rightarrow> string \<Rightarrow> unit W" where
  "Logout cr token =
     (if token = [] then returnM ()
      else
        bindM (getsM clock) (\<lambda>now.
        execDB (revoke (\<lambda>r. rtk_Token r = HashToken cr token \<and> rtk_RevokedAt r = None) now)))"

definition VerifyToken :: "crypto \<Rightarrow> JwtService \<Rightarrow> string \<Rightarrow> Claims W" where
  "VerifyToken cr j token = Verify cr j token"

section \<open>Updates\<close>

text \<open>The update maps of the code are lists of column assignments.\<close>

definition set_password :: "crypto \<Rightarrow> string \<Rightarrow> (User \<Rightarrow> User) list W" where
  "set_password cr pw =
     (if pw = [] then returnM []
      else bindM (hashPassword cr pw) (\<lambda>hash.
        returnM [\<lambda>u. u\<lparr>usr_Password := hash, usr_NtHash := NtHashOf cr pw\<rparr>]))"

definition set_text :: "string \<Rightarrow> (string \<Rightarrow> 'r \<Rightarrow> 'r) \<Rightarrow> ('r \<Rightarrow> 'r) list" where
  "set_text s f = (if s = [] then [] else [f s])"

definition set_checked :: "'a option \<Rightarrow> ('a \<Rightarrow> bool) \<Rightarrow> ('a \<Rightarrow> 'r \<Rightarrow> 'r) \<Rightarrow> ('r \<Rightarrow> 'r) list W" where
  "set_checked v ok f = (case v of None \<Rightarrow> returnM [] | Some x \<Rightarrow> if ok x then returnM [f x] else throwM ErrInvalidInput)"

definition set_name :: "string \<Rightarrow> User \<Rightarrow> User" where "set_name s u = u\<lparr>usr_Name := s\<rparr>"
definition set_email :: "string \<Rightarrow> User \<Rightarrow> User" where "set_email s u = u\<lparr>usr_Email := s\<rparr>"
definition set_level :: "int \<Rightarrow> User \<Rightarrow> User" where "set_level l u = u\<lparr>usr_PermissionLevel := l\<rparr>"
definition set_status :: "int \<Rightarrow> User \<Rightarrow> User" where "set_status s u = u\<lparr>usr_Status := s\<rparr>"
definition set_quota :: "int option \<Rightarrow> User \<Rightarrow> User" where "set_quota q u = u\<lparr>usr_Quota := q\<rparr>"

lemmas set_defs = set_name_def set_email_def set_level_def set_status_def set_quota_def

definition saveUser :: "nat \<Rightarrow> (User \<Rightarrow> User) list \<Rightarrow> User W" where
  "saveUser i upd =
     (if upd = [] then throwM ErrInvalidInput
      else thenM (execDB (update_user i (fold (\<lambda>f. f) upd))) (GetUser i))"

definition UpdateMe :: "crypto \<Rightarrow> nat \<Rightarrow> string \<Rightarrow> string \<Rightarrow> string \<Rightarrow> User W" where
  "UpdateMe cr userID pw name email =
     bindM (set_password cr pw) (\<lambda>u1.
     saveUser userID (u1 @ set_text name set_name @ set_text email set_email))"

record UpdateUserInput =
  uui_Password :: string
  uui_Name :: string
  uui_Email :: string
  uui_PermissionLevel :: "int option"
  uui_Status :: "int option"
  uui_Quota :: "int option"

definition UpdateUser :: "crypto \<Rightarrow> nat \<Rightarrow> UpdateUserInput \<Rightarrow> User W" where
  "UpdateUser cr targetID i =
     bindM (GetUser targetID) (\<lambda>_.
     bindM (set_password cr (uui_Password i)) (\<lambda>u1.
     bindM (set_checked (uui_PermissionLevel i) (\<lambda>l. \<not> l < Admin) set_level) (\<lambda>u2.
     bindM (set_checked (uui_Status i) (\<lambda>s. s = 0 \<or> s = 1) set_status) (\<lambda>u3.
     bindM (set_checked (uui_Quota i) (\<lambda>q. \<not> q < 0) (\<lambda>q. set_quota (Some q))) (\<lambda>u4.
     saveUser targetID (u1 @ set_text (uui_Name i) set_name @ set_text (uui_Email i) set_email @ u2 @ u3 @ u4))))))"

definition UpdateUserQuota :: "nat \<Rightarrow> int option \<Rightarrow> User W" where
  "UpdateUserQuota targetID quota =
     bindM (GetUser targetID) (\<lambda>_.
     if (case quota of None \<Rightarrow> False | Some q \<Rightarrow> q < 0) then throwM ErrInvalidInput
     else saveUser targetID [set_quota quota])"

definition delete_user :: "nat \<Rightarrow> time \<Rightarrow> db \<Rightarrow> nat \<times> db" where
  "delete_user i now d =
     (tcount (\<lambda>r. live_usr r \<and> usr_ID r = i) (users d), update_user i (\<lambda>r. r\<lparr>usr_DeletedAt := Some now\<rparr>) d)"

definition DeleteUser :: "nat \<Rightarrow> unit W" where
  "DeleteUser targetID =
     bindM (GetUser targetID) (\<lambda>_.
     bindM (getsM clock) (\<lambda>now.
     bindM (execRet (delete_user targetID now)) (\<lambda>n.
     if n = 0 then throwM ErrNotFound else returnM ())))"

section \<open>The list of users\<close>

definition live_users :: "db \<Rightarrow> User list" where
  "live_users d = tfind live_usr (users d)"

definition ListUsers ::
  "(string \<Rightarrow> string \<Rightarrow> bool) \<Rightarrow> (string \<Rightarrow> User list \<Rightarrow> User list) \<Rightarrow> int \<Rightarrow> int \<Rightarrow> (nat \<times> User list) W" where
  "ListUsers likes orderby page pageSize =
     bindM (PageQuery likes orderby live_users usr_ID usr_CreatedAt [] []
       ((NewOption page pageSize)\<lparr>po_DefaultOrder := ''created_at DESC''\<rparr>) None) (\<lambda>res.
     returnM (pr_Total res, map sanitizeUser (pr_List res)))"

section \<open>Runs of account operations\<close>

datatype accountOp =
    ARegister RegisterArg | ALogin string string | ARefresh string | ALogout string
  | AUpdateMe nat string string string | AUpdateUser nat UpdateUserInput
  | AUpdateUserQuota nat "int option" | ADeleteUser nat

fun runAccount :: "crypto \<Rightarrow> JwtService \<Rightarrow> accountOp \<Rightarrow> unit W" where
  "runAccount cr j (ARegister a) = ignoreM (Register cr a)"
| "runAccount cr j (ALogin n p) = ignoreM (Login cr j n p)"
| "runAccount cr j (ARefresh t) = ignoreM (Refresh cr j t)"
| "runAccount cr j (ALogout t) = ignoreM (Logout cr t)"
| "runAccount cr j (AUpdateMe i pw nm em) = ignoreM (UpdateMe cr i pw nm em)"
| "runAccount cr j (AUpdateUser i inp) = ignoreM (UpdateUser cr i inp)"
| "runAccount cr j (AUpdateUserQuota i q) = ignoreM (UpdateUserQuota i q)"
| "runAccount cr j (ADeleteUser i) = ignoreM (DeleteUser i)"

text \<open>Any operations in any order, at any later times, with any faults.\<close>

inductive account_run :: "crypto \<Rightarrow> JwtService \<Rightarrow> world \<Rightarrow> world \<Rightarrow> bool" for cr j w where
  start: "account_run cr j w w"
| op: "account_run cr j w v \<Longrightarrow> account_run cr j w (snd (runAccount cr j p v))"
| wait: "account_run cr j w v \<Longrightarrow> clock v \<le> t \<Longrightarrow> account_run cr j w (v\<lparr>clock := t\<rparr>)"

section \<open>Lemmas\<close>

lemma pres_ListUsers [pres]: "preserves (onDB J) (ListUsers lk ob p n)"
  unfolding ListUsers_def by (intro pres)

lemma total_accounts [ends_rules]:
  "total (Register cr a)" "total (Login cr j n p)" "total (Refresh cr j t)" "total (Logout cr t)"
  "total (UpdateMe cr i pw nm em)" "total (UpdateUser cr i inp)" "total (UpdateUserQuota i q)" "total (DeleteUser i)"
  unfolding Register_def Login_def Refresh_def Logout_def UpdateMe_def UpdateUser_def UpdateUserQuota_def DeleteUser_def
    hashPassword_def createUser_def createToken_def issueTokens_def set_password_def set_checked_def saveUser_def Let_def
  by (intro ends_rules)+

lemma pres_hashPassword [pres]: "preserves (onDB J) (hashPassword cr pw)"
  unfolding hashPassword_def by (intro pres)

text \<open>An update of a user that leaves key and use alone, grants no super administration and revives nobody.\<close>

definition harmless :: "(User \<Rightarrow> User) \<Rightarrow> bool" where
  "harmless f \<longleftrightarrow> (\<forall>u. usr_ID (f u) = usr_ID u \<and> usr_UsedSpace (f u) = usr_UsedSpace u \<and>
     (usr_PermissionLevel (f u) = usr_PermissionLevel u \<or> Admin \<le> usr_PermissionLevel (f u)) \<and> (live_usr (f u) \<longrightarrow> live_usr u))"

lemma harmless_sets:
  "harmless (set_name s)" "harmless (set_email s)" "harmless (set_status n)" "harmless (set_quota q)"
  "Admin \<le> l \<Longrightarrow> harmless (set_level l)" "harmless (\<lambda>u. u\<lparr>usr_Password := h, usr_NtHash := nt\<rparr>)"
  "harmless (\<lambda>u. u\<lparr>usr_LastLogin := t\<rparr>)" "harmless (\<lambda>u. u\<lparr>usr_DeletedAt := Some now\<rparr>)"
  by (simp_all add: harmless_def set_defs live_usr_def)

lemma harmless_comp: "harmless f \<Longrightarrow> harmless g \<Longrightarrow> harmless (g \<circ> f)"
  unfolding harmless_def comp_def by (intro allI conjI) metis+

lemma harmless_fold: "\<forall>f\<in>set fs. harmless f \<Longrightarrow> harmless (fold (\<lambda>f. f) fs)"
  by (induction fs) (simp add: harmless_def, simp add: harmless_comp)

lemma valid_checked:
  "(\<And>x. ok x \<Longrightarrow> harmless (f x)) \<Longrightarrow>
   valid (onDB J) (set_checked v ok f) (\<lambda>us. onDB (\<lambda>d. J d \<and> (\<forall>g\<in>set us. harmless g))) (\<lambda>_. onDB J)"
  by (auto simp: valid_def set_checked_def returnM_def throwM_def onDB_def split: option.splits)

lemma valid_set_password:
  "valid (onDB J) (set_password cr pw) (\<lambda>us. onDB (\<lambda>d. J d \<and> (\<forall>g\<in>set us. harmless g))) (\<lambda>_. onDB J)"
  unfolding set_password_def
  by (intro dbrules db_keep[OF pres_hashPassword]) (auto simp: harmless_sets)

lemma pres_known:
  "valid (onDB J) m (\<lambda>x. onDB (\<lambda>d. J d \<and> A x)) (\<lambda>_. onDB J) \<Longrightarrow> (\<And>x. A x \<Longrightarrow> preserves (onDB J) (k x)) \<Longrightarrow>
   preserves (onDB J) (bindM m k)"
  by (rule valid_bind[where R = "\<lambda>x. onDB (\<lambda>d. J d \<and> A x)"]) (auto simp: valid_def onDB_def)

text \<open>
  The contract between the account operations and a fact J of the database: what an operation does to
  the tables of users and tokens.
\<close>

locale account_fact =
  fixes J :: "db \<Rightarrow> bool"
  assumes create: "J d \<Longrightarrow> Admin \<le> perm \<Longrightarrow> J (d\<lparr>users := tcreate (new_user name hash perm nt now) (users d)\<rparr>)"
    and update: "J d \<Longrightarrow> harmless f \<Longrightarrow> J (update_user i f d)"
    and token: "J d \<Longrightarrow> distinct (map rtk_Token (rows (tcreate mk (tokens d)))) \<Longrightarrow> J (d\<lparr>tokens := tcreate mk (tokens d)\<rparr>)"
    and revoked: "J d \<Longrightarrow> J (revoke P now d)"
begin

lemma keeps_update: "harmless f \<Longrightarrow> preserves (onDB J) (execDB (update_user i f))"
  by (rule pres_exec) (rule update)

lemma keeps_issue: "preserves (onDB J) (issueTokens cr j u)"
  unfolding issueTokens_def createToken_def
  by (intro pres pres_tryExec) (auto simp: Let_def intro!: token split: if_splits)

lemma keeps_save: "\<forall>g\<in>set us. harmless g \<Longrightarrow> preserves (onDB J) (saveUser i us)"
  unfolding saveUser_def by (intro pres keeps_update harmless_fold)

lemma keeps_Register: "preserves (onDB J) (Register cr a)"
  unfolding Register_def createUser_def Let_def
  by (intro pres pres_tryExec) (auto simp: SuperAdmin_def Admin_def NormalUser_def intro!: create split: if_splits)

lemma keeps_Login: "preserves (onDB J) (Login cr j n p)"
  unfolding Login_def by (intro pres keeps_issue keeps_update harmless_sets)

lemma keeps_Refresh: "preserves (onDB J) (Refresh cr j t)"
  unfolding Refresh_def by (intro pres keeps_issue pres_exec) (rule revoked)

lemma keeps_Logout: "preserves (onDB J) (Logout cr t)"
  unfolding Logout_def by (intro pres pres_exec) (rule revoked)

lemma keeps_UpdateMe: "preserves (onDB J) (UpdateMe cr i pw nm em)"
  unfolding UpdateMe_def
  by (rule pres_known[OF valid_set_password]) (auto intro!: keeps_save simp: set_text_def harmless_sets)

lemma keeps_UpdateUser: "preserves (onDB J) (UpdateUser cr i inp)"
  unfolding UpdateUser_def
  by (intro pres_bind[OF pres_GetUser] pres_known[OF valid_set_password] pres_known[OF valid_checked] keeps_save)
    (auto simp: set_text_def harmless_sets Admin_def)

lemma keeps_UpdateUserQuota: "preserves (onDB J) (UpdateUserQuota i q)"
  unfolding UpdateUserQuota_def by (intro pres keeps_save) (simp add: harmless_sets)

lemma keeps_DeleteUser: "preserves (onDB J) (DeleteUser i)"
  unfolding DeleteUser_def
  by (intro pres pres_execRet) (simp add: delete_user_def update harmless_sets)

lemmas keeps = keeps_Register keeps_Login keeps_Refresh keeps_Logout keeps_UpdateMe keeps_UpdateUser
  keeps_UpdateUserQuota keeps_DeleteUser

lemma keeps_op: "J (wdb v) \<Longrightarrow> J (wdb (snd (runAccount cr j p v)))"
proof -
  have "preserves (onDB J) (runAccount cr j p)" by (cases p) (auto intro!: pres keeps)
  moreover have "total (runAccount cr j p)" by (cases p) (auto intro!: ends_rules)
  ultimately show "J (wdb v) \<Longrightarrow> J (wdb (snd (runAccount cr j p v)))"
    by (auto simp: onDB_def dest: pres_result)
qed

lemma keeps_run: "account_run cr j w v \<Longrightarrow> J (wdb w) \<Longrightarrow> J (wdb v)"
  by (induction rule: account_run.induct) (auto intro: keeps_op)

end

text \<open>The contract holds of the invariant, of a bound on the super administrators, and of a spent token.\<close>

definition supers :: "db \<Rightarrow> nat set" where
  "supers d = usr_ID ` {u \<in> set (rows (users d)). live_usr u \<and> usr_PermissionLevel u \<le> SuperAdmin}"

definition spent :: "string \<Rightarrow> db \<Rightarrow> bool" where
  "spent h d \<longleftrightarrow> h \<in> set (map rtk_Token (rows (tokens d))) \<and>
     (\<forall>r\<in>set (rows (tokens d)). rtk_Token r = h \<longrightarrow> rtk_RevokedAt r \<noteq> None)"

lemma revoke_hashes [simp]: "map rtk_Token (rows (tokens (revoke P now d))) = map rtk_Token (rows (tokens d))"
  by (simp add: revoke_def tupdate_def comp_def if_distrib cong: if_cong)

interpretation account_inv: account_fact db_inv
proof
  show "db_inv (d\<lparr>users := tcreate (new_user name hash perm nt now) (users d)\<rparr>)" if "db_inv d" for d name hash perm nt now
    using that unfolding db_inv_def by (rule owing_users) (auto simp: tcreate_def new_user_def)
  show "db_inv (update_user i f d)" if "db_inv d" "harmless f" for d f i
    using that(1) unfolding db_inv_def update_user_def
    by (rule owing_users) (use that(2) in \<open>auto simp: tupdate_def harmless_def\<close>)
qed (simp_all add: revoke_def)

interpretation account_supers: account_fact "\<lambda>d. supers d \<subseteq> S" for S
proof
  show "supers (d\<lparr>users := tcreate (new_user name hash perm nt now) (users d)\<rparr>) \<subseteq> S"
    if "supers d \<subseteq> S" "Admin \<le> perm" for d name hash perm nt now
    using that by (auto simp: supers_def tcreate_def new_user_def Admin_def SuperAdmin_def)
  show "supers (update_user i f d) \<subseteq> S" if "supers d \<subseteq> S" "harmless f" for d f i
    using that by (fastforce simp: supers_def update_user_def tupdate_def harmless_def Admin_def SuperAdmin_def)
qed (simp_all add: supers_def revoke_def)

interpretation account_spent: account_fact "spent h" for h
proof
  show "spent h (d\<lparr>tokens := tcreate mk (tokens d)\<rparr>)"
    if "spent h d" "distinct (map rtk_Token (rows (tcreate mk (tokens d))))" for d mk
    using that by (auto simp: spent_def tcreate_def)
  show "spent h (revoke P now d)" if "spent h d" for d P now
    using that unfolding spent_def revoke_hashes by (auto simp: revoke_def tupdate_def)
qed (simp_all add: spent_def update_user_def)

lemma createToken_OkD:
  assumes "createToken mk w = (Ok (Some r), w')"
  shows "r = mk (seq (tokens (wdb w))) \<and> wdb w' = (wdb w)\<lparr>tokens := tcreate mk (tokens (wdb w))\<rparr> \<and>
    distinct (map rtk_Token (rows (tokens (wdb w'))))"
  using tryExecDB_OkD[OF assms[unfolded createToken_def]] by (auto simp: Let_def split: if_splits)

lemma issueTokens_OkD:
  assumes "issueTokens cr j u w = (Ok r, w')"
  shows "\<exists>now. wdb w' = (wdb w)\<lparr>tokens := tcreate (new_token (usr_ID u) (HashToken cr (lgr_RefreshToken r))
      (now + RefreshTTL j)) (tokens (wdb w))\<rparr> \<and> lgr_User r = sanitizeUser u \<and>
    now = clock w \<and> distinct (map rtk_Token (rows (tokens (wdb w'))))"
  using assms unfolding issueTokens_def
  by (fastforce elim!: bindM_OkE dest!: SignAccess_OkD SignRefresh_OkD gets_OkD createToken_OkD
      simp: basic_run split: option.splits)

lemma queryDB_clock: "queryDB f w = (Ok x, w') \<Longrightarrow> clock w' = clock w"
  by (auto simp: queryDB_def faulty_cases getsM_def split: if_splits)

lemma ignore_exec_D:
  "ignoreM (execDB f) w = (Ok x, w') \<Longrightarrow> clock w' = clock w \<and> (wdb w' = f (wdb w) \<or> wdb w' = wdb w)"
  by (auto simp: run execDB_def faulty_cases modifyM_def split: if_splits)

text \<open>What a successful exchange or logout leaves behind.\<close>

lemma find_hash:
  assumes "distinct (map rtk_Token (rows t))" "tfirst (usable_token h now) t = Some k"
    "r \<in> set (rows t)" "rtk_Token r = h"
  shows "r = k"
  using tfirst_Some[OF assms(2)] assms(1,3,4) by (auto simp: usable_token_def distinct_map dest: inj_onD)

lemma Refresh_spends:
  assumes "distinct (map rtk_Token (rows (tokens (wdb w))))" "Refresh cr j t w = (Ok r, w')"
  shows "spent (HashToken cr t) (wdb w')"
proof -
  have keep: "wdb v = wdb w" if "tryM (VerifyRefresh cr j t) w = (Ok y, v)" for y v
    using keep_OkD[OF pres_try[OF pres_tokens(4)] that] by simp
  have user: "wdb v' = wdb v" if "tryM (GetUser i) v = (Ok y, v')" for i y v v'
    using keep_OkD[OF pres_try[OF pres_GetUser] that] by simp
  from assms(2) obtain now v k u v1 v2 where
      k: "tfirst (usable_token (HashToken cr t) now) (tokens (wdb w)) = Some k"
    and tr: "transaction (thenM (execDB (revoke (\<lambda>r. rtk_ID r = rtk_ID k) now)) (issueTokens cr j u)) v1 = (Ok r, w')"
    and v1: "wdb v1 = wdb w"
    unfolding Refresh_def
    by (fastforce simp: basic_run elim!: bindM_OkE dest!: gets_OkD queryDB_OkD keep user split: if_splits sum.splits option.splits)
  obtain d where
      d: "wdb w' = (revoke (\<lambda>r. rtk_ID r = rtk_ID k) now (wdb w))\<lparr>tokens := tcreate d
        (tokens (revoke (\<lambda>r. rtk_ID r = rtk_ID k) now (wdb w)))\<rparr>"
      "distinct (map rtk_Token (rows (tokens (wdb w'))))"
  proof -
    from transaction_OkD[OF tr] v1 obtain a b where ab: "wdb a = wdb w"
        "thenM (execDB (revoke (\<lambda>r. rtk_ID r = rtk_ID k) now)) (issueTokens cr j u) a = (Ok r, b)" "wdb w' = wdb b" by auto
    from ab(2) show thesis
    proof (rule thenM_OkE)
      fix x c assume "execDB (revoke (\<lambda>r. rtk_ID r = rtk_ID k) now) a = (Ok x, c)" and i: "issueTokens cr j u c = (Ok r, b)"
      then have "wdb c = revoke (\<lambda>r. rtk_ID r = rtk_ID k) now (wdb w)" using ab(1) by (simp add: execDB_OkD)
      with issueTokens_OkD[OF i] ab(3) that show thesis by auto
    qed
  qed
  have "spent (HashToken cr t) (revoke (\<lambda>r. rtk_ID r = rtk_ID k) now (wdb w))"
  proof -
    have 1: "k \<in> set (rows (tokens (wdb w)))" "live_rtk k" "rtk_Token k = HashToken cr t"
      using tfirst_Some[OF k] by (auto simp: usable_token_def)
    have 2: "r = k" if "r \<in> set (rows (tokens (wdb w)))" "rtk_Token r = HashToken cr t" for r
      using find_hash[OF assms(1) k that] .
    have "HashToken cr t \<in> set (map rtk_Token (rows (tokens (wdb w))))" using 1 by force
    moreover have "rtk_RevokedAt r \<noteq> None"
      if "r \<in> set (rows (tokens (revoke (\<lambda>r. rtk_ID r = rtk_ID k) now (wdb w))))" "rtk_Token r = HashToken cr t" for r
      using that 1 by (auto simp: revoke_def tupdate_def split: if_splits dest!: 2)
    ultimately show ?thesis unfolding spent_def revoke_hashes by blast
  qed
  moreover have "distinct (map rtk_Token (rows (tcreate d (tokens (revoke (\<lambda>r. rtk_ID r = rtk_ID k) now (wdb w))))))"
    using d(2) by (simp add: d(1))
  ultimately show ?thesis unfolding d(1) by (rule account_spent.token)
qed

lemma Logout_spends:
  assumes "Logout cr t w = (Ok (), w')" "t \<noteq> []" "\<exists>k\<in>set (rows (tokens (wdb w))). rtk_Token k = HashToken cr t"
    "\<forall>k\<in>set (rows (tokens (wdb w))). rtk_Token k = HashToken cr t \<longrightarrow> live_rtk k"
  shows "spent (HashToken cr t) (wdb w')"
proof -
  have "wdb w' = revoke (\<lambda>r. rtk_Token r = HashToken cr t \<and> rtk_RevokedAt r = None) (clock w) (wdb w)"
    using assms(1,2) by (auto simp: Logout_def elim!: bindM_OkE dest!: execDB_OkD gets_OkD)
  then show ?thesis
    using assms(3,4) unfolding spent_def by (simp only: revoke_hashes) (auto simp: revoke_def tupdate_def image_iff intro: sym)
qed

lemma spent_refused:
  assumes "spent (HashToken cr t) (wdb w)"
  shows "fst (Refresh cr j t w) \<noteq> Ok x"
proof
  assume "fst (Refresh cr j t w) = Ok x"
  then obtain w' where "Refresh cr j t w = (Ok x, w')" by (metis prod.collapse)
  moreover have "wdb v = wdb w" if "tryM (VerifyRefresh cr j t) w = (Ok y, v)" for y v
    using keep_OkD[OF pres_try[OF pres_tokens(4)] that] by simp
  ultimately obtain now v k v' where "queryDB (\<lambda>d. tfirst (usable_token (HashToken cr t) now) (tokens d)) v = (Ok (Some k), v')"
      "wdb v = wdb w"
    by (fastforce simp: Refresh_def basic_run elim!: bindM_OkE dest!: gets_OkD split: if_splits sum.splits option.splits)
  then have "tfirst (usable_token (HashToken cr t) now) (tokens (wdb w)) = Some k" by (auto dest: queryDB_OkD)
  from tfirst_Some[OF this] assms show False by (auto simp: usable_token_def spent_def)
qed

text \<open>A service whose tokens spell out the user and the random bytes, and a login with it.\<close>

definition test_crypto :: crypto where
  "test_crypto = plain_crypto\<lparr>cr_Compare := (\<lambda>h p. h = ''p'' \<and> p = ''pw''), cr_Rand := (\<lambda>n. Some [of_nat n]),
     cr_Sign := (\<lambda>s p. Some (s @ dec (pl_uid p) @ pl_jti p)),
     cr_Parse := (\<lambda>ms iss now s t. Some \<lparr>pl_uid = 2, pl_username = None, pl_perm = None, pl_jti = [], pl_iat = 0,
       pl_exp = 60, pl_iss = iss\<rparr>)\<rparr>"

definition test_jwt :: JwtService where
  "test_jwt = \<lparr>AccessSecret = ''s'', RefreshSecret = ''r'', AccessTTL = 3, RefreshTTL = 9, Issuer = ''i'', Algorithm = ''HS256''\<rparr>"

section \<open>Properties\<close>



text \<open>C32: Once a refresh token has been exchanged for a new pair or logged out, it is never accepted again, whatever
  account operations, waiting times and faults follow.\<close>

theorem Refresh_once:
  assumes "distinct (map rtk_Token (rows (tokens (wdb w))))"
    and "Refresh cr j t w = (Ok r, w1) \<or>
      Logout cr t w = (Ok (), w1) \<and> t \<noteq> [] \<and> (\<exists>k\<in>set (rows (tokens (wdb w))). live_rtk k \<and> rtk_Token k = HashToken cr t)"
    and "account_run cr j w1 v"
  shows "fst (Refresh cr j t v) \<noteq> Ok x"
proof -
  have "spent (HashToken cr t) (wdb w1)"
    using assms(2)
  proof
    assume "Refresh cr j t w = (Ok r, w1)"
    with assms(1) show ?thesis by (rule Refresh_spends)
  next
    assume l: "Logout cr t w = (Ok (), w1) \<and> t \<noteq> [] \<and> (\<exists>k\<in>set (rows (tokens (wdb w))). live_rtk k \<and> rtk_Token k = HashToken cr t)"
    then have "\<forall>k\<in>set (rows (tokens (wdb w))). rtk_Token k = HashToken cr t \<longrightarrow> live_rtk k"
      using assms(1) by (metis distinct_map inj_onD)
    with l show ?thesis by (blast intro: Logout_spends)
  qed
  then show ?thesis by (rule spent_refused[OF account_spent.keeps_run[OF assms(3)]])
qed

theorem Refresh_once_witness:
  "\<exists>w r w1. w = snd (Login test_crypto test_jwt ''u'' ''pw'' sample) \<and> Refresh test_crypto test_jwt ''r103'' w = (Ok r, w1) \<and>
     fst (Refresh test_crypto test_jwt ''r103'' (w1\<lparr>clock := 1\<rparr>)) \<noteq> Ok r"
proof -
  let ?w = "snd (Login test_crypto test_jwt ''u'' ''pw'' sample)"
  have d: "distinct (map rtk_Token (rows (tokens (wdb ?w))))" by code_simp
  let ?r = "\<lparr>lgr_AccessToken = ''s109'', lgr_ExpiresIn = 3, lgr_RefreshToken = ''r10a'',
    lgr_User = sanitizeUser (sample_user 1 Admin 0)\<lparr>usr_LastLogin := Some 0\<rparr>\<rparr>"
  have "fst (Refresh test_crypto test_jwt ''r103'' ?w) = Ok ?r" by code_simp
  then obtain w1 where r: "Refresh test_crypto test_jwt ''r103'' ?w = (Ok ?r, w1)" by (metis prod.collapse)
  have "clock (snd (Refresh test_crypto test_jwt ''r103'' ?w)) = 0" by code_simp
  then have "account_run test_crypto test_jwt w1 (w1\<lparr>clock := 1\<rparr>)"
    using r by (intro account_run.wait account_run.start) simp
  with Refresh_once[OF d disjI1[OF r]] r show ?thesis by blast
qed

text \<open>C33: No account operation makes a super administrator: every live account of that level was one before.\<close>

theorem no_new_super:
  assumes "account_run cr j w v"
  shows "supers (wdb v) \<subseteq> supers (wdb w)"
  using account_supers.keeps_run[OF assms, of "supers (wdb w)"] by simp

theorem no_new_super_witness:
  "supers (wdb (snd (runAccount test_crypto test_jwt (AUpdateMe 2 [] ''n'' []) sample))) = {}"
proof -
  have "account_run test_crypto test_jwt sample (snd (runAccount test_crypto test_jwt (AUpdateMe 2 [] ''n'' []) sample))"
    by (intro account_run.op account_run.start)
  from no_new_super[OF this] show ?thesis
    by (auto simp: supers_def sample_user_def Admin_def SuperAdmin_def NormalUser_def)
qed

end
