(* ===== verification/UserGroups.thy ===== *)
theory UserGroups
  imports Accounts
begin

text \<open>
  User groups and their members (server/user_group.go).  Group names are unique over all rows, and so
  are the pairs of group and user: the unique indexes do not know of soft deletion.
\<close>

section \<open>Groups\<close>

definition the_group :: "nat \<Rightarrow> db \<Rightarrow> UserGroup option" where
  "the_group i d = tfirst (\<lambda>r. live_grp r \<and> grp_ID r = i) (groups d)"

definition loadGroup :: "nat \<Rightarrow> UserGroup W" where
  "loadGroup groupID = bindM (queryDB (the_group groupID)) orNotFound"

definition GetGroup :: "nat \<Rightarrow> UserGroup W" where
  "GetGroup groupID = loadGroup groupID"

text \<open>Writes that the unique index on the names may refuse.\<close>

definition put_groups :: "'a \<Rightarrow> UserGroup tbl \<Rightarrow> db \<Rightarrow> ('a \<times> db) option" where
  "put_groups x t d = (if distinct (map grp_Name (rows t)) then Some (x, d\<lparr>groups := t\<rparr>) else None)"

definition new_group :: "string \<Rightarrow> string \<Rightarrow> nat \<Rightarrow> time \<Rightarrow> nat \<Rightarrow> UserGroup" where
  "new_group name description operatorID now i =
     \<lparr>grp_ID = i, grp_CreatedAt = now, grp_DeletedAt = None, grp_Name = name, grp_Description = description,
      grp_CreatedBy = operatorID, grp_Status = 1\<rparr>"

definition CreateGroup :: "nat \<Rightarrow> string \<Rightarrow> string \<Rightarrow> UserGroup W" where
  "CreateGroup operatorID name0 description =
     (let name = TrimSpace name0 in
      if name = [] then throwM ErrInvalidInput
      else
        bindM (getsM clock) (\<lambda>now.
        let mk = new_group name description operatorID now in
        bindM (tryExecDB (\<lambda>d. put_groups (mk (seq (groups d))) (tcreate mk (groups d)) d)) (\<lambda>r.
        case r of None \<Rightarrow> throwM ErrConflict | Some g \<Rightarrow> returnM g)))"

definition set_grp_name :: "string \<Rightarrow> UserGroup \<Rightarrow> UserGroup" where "set_grp_name s g = g\<lparr>grp_Name := s\<rparr>"
definition set_grp_description :: "string \<Rightarrow> UserGroup \<Rightarrow> UserGroup" where
  "set_grp_description s g = g\<lparr>grp_Description := s\<rparr>"
definition set_grp_status :: "int \<Rightarrow> UserGroup \<Rightarrow> UserGroup" where "set_grp_status s g = g\<lparr>grp_Status := s\<rparr>"

definition UpdateGroup :: "nat \<Rightarrow> string \<Rightarrow> string \<Rightarrow> int option \<Rightarrow> UserGroup W" where
  "UpdateGroup groupID name description status =
     bindM (loadGroup groupID) (\<lambda>_.
     let u1 = (if name = [] then [] else [set_grp_name (TrimSpace name)]);
         u2 = set_text description set_grp_description in
     bindM (set_checked status (\<lambda>s. s = 0 \<or> s = 1) set_grp_status) (\<lambda>u3.
     let upd = u1 @ u2 @ u3 in
     if upd = [] then throwM ErrInvalidInput
     else
       bindM (tryExecDB (\<lambda>d. put_groups ()
         (tupdate (\<lambda>r. live_grp r \<and> grp_ID r = groupID) (fold (\<lambda>f. f) upd) (groups d)) d)) (\<lambda>r.
       case r of None \<Rightarrow> throwM ErrConflict | Some _ \<Rightarrow> loadGroup groupID)))"

definition delete_group :: "nat \<Rightarrow> time \<Rightarrow> db \<Rightarrow> nat \<times> db" where
  "delete_group i now d =
     (let P = (\<lambda>r. live_grp r \<and> grp_ID r = i) in
      (tcount P (groups d), d\<lparr>groups := tupdate P (\<lambda>r. r\<lparr>grp_DeletedAt := Some now\<rparr>) (groups d)\<rparr>))"

definition DeleteGroup :: "nat \<Rightarrow> unit W" where
  "DeleteGroup groupID =
     bindM (loadGroup groupID) (\<lambda>_.
     bindM (getsM clock) (\<lambda>now.
     bindM (execRet (delete_group groupID now)) (\<lambda>n.
     if n = 0 then throwM ErrNotFound else returnM ())))"

section \<open>Members\<close>

definition new_member :: "nat \<Rightarrow> nat \<Rightarrow> time \<Rightarrow> nat \<Rightarrow> UserGroupMember" where
  "new_member groupID userID now i =
     \<lparr>mem_ID = i, mem_CreatedAt = now, mem_DeletedAt = None, mem_GroupID = groupID, mem_UserID = userID\<rparr>"

definition member_key :: "UserGroupMember \<Rightarrow> nat \<times> nat" where
  "member_key r = (mem_GroupID r, mem_UserID r)"

definition createMember :: "(nat \<Rightarrow> UserGroupMember) \<Rightarrow> unit option W" where
  "createMember mk = tryExecDB (\<lambda>d.
     let t = tcreate mk (members d) in
     if distinct (map member_key (rows t)) then Some ((), d\<lparr>members := t\<rparr>) else None)"

definition AddGroupMember :: "nat \<Rightarrow> nat \<Rightarrow> unit W" where
  "AddGroupMember groupID userID =
     bindM (loadGroup groupID) (\<lambda>g.
     if grp_Status g \<noteq> 1 then throwM ErrNotFound
     else
       bindM (GetUser userID) (\<lambda>_.
       bindM (getsM clock) (\<lambda>now.
       bindM (createMember (new_member groupID userID now)) (\<lambda>r.
       case r of None \<Rightarrow> throwM ErrConflict | Some _ \<Rightarrow> returnM ()))))"

text \<open>gorm's Delete of a model with a DeletedAt column is the soft deletion.\<close>

definition remove_member :: "nat \<Rightarrow> nat \<Rightarrow> time \<Rightarrow> db \<Rightarrow> nat \<times> db" where
  "remove_member groupID userID now d =
     (let P = (\<lambda>r. live_mem r \<and> mem_GroupID r = groupID \<and> mem_UserID r = userID) in
      (tcount P (members d), d\<lparr>members := tupdate P (\<lambda>r. r\<lparr>mem_DeletedAt := Some now\<rparr>) (members d)\<rparr>))"

definition RemoveGroupMember :: "nat \<Rightarrow> nat \<Rightarrow> unit W" where
  "RemoveGroupMember groupID userID =
     bindM (loadGroup groupID) (\<lambda>_.
     bindM (getsM clock) (\<lambda>now.
     bindM (execRet (remove_member groupID userID now)) (\<lambda>n.
     if n = 0 then throwM ErrNotFound else returnM ())))"

section \<open>Lists\<close>

definition newest_first :: "int \<Rightarrow> int \<Rightarrow> PageOption" where
  "newest_first page pageSize = (NewOption page pageSize)\<lparr>po_DefaultOrder := ''created_at DESC''\<rparr>"

definition ListGroups ::
  "(string \<Rightarrow> string \<Rightarrow> bool) \<Rightarrow> (string \<Rightarrow> UserGroup list \<Rightarrow> UserGroup list) \<Rightarrow> nat \<Rightarrow> int \<Rightarrow> int \<Rightarrow>
   (nat \<times> UserGroup list) W" where
  "ListGroups likes orderby userID page pageSize =
     bindM (GetUser userID) (\<lambda>u.
     let query = (\<lambda>filters. bindM (PageQuery likes orderby (\<lambda>d. tfind live_grp (groups d)) grp_ID grp_CreatedAt filters []
           (newest_first page pageSize) None) (\<lambda>res. returnM (pr_Total res, pr_List res))) in
     if IsAdmin (usr_PermissionLevel u) then query []
     else
       bindM (UserGroupIDs userID) (\<lambda>ids.
       if ids = [] then returnM (0, []) else query [\<lambda>r. grp_ID r \<in> set ids]))"

record MemberInfo =
  mi_Member :: UserGroupMember
  mi_Username :: string
  mi_Name :: string

fun member_infos :: "User list \<Rightarrow> UserGroupMember list \<Rightarrow> MemberInfo list" where
  "member_infos us [] = []"
| "member_infos us (m # ms) =
     (case find (\<lambda>u. usr_ID u = mem_UserID m) us of
        None \<Rightarrow> member_infos us ms
      | Some u \<Rightarrow> \<lparr>mi_Member = m, mi_Username = usr_Username u, mi_Name = usr_Name u\<rparr> # member_infos us ms)"

definition ListGroupMembers ::
  "(string \<Rightarrow> string \<Rightarrow> bool) \<Rightarrow> (string \<Rightarrow> UserGroupMember list \<Rightarrow> UserGroupMember list) \<Rightarrow> nat \<Rightarrow> int \<Rightarrow> int \<Rightarrow>
   (nat \<times> MemberInfo list) W" where
  "ListGroupMembers likes orderby groupID page pageSize =
     bindM (loadGroup groupID) (\<lambda>_.
     bindM (PageQuery likes orderby (\<lambda>d. tfind live_mem (members d)) mem_ID mem_CreatedAt
       [\<lambda>r. mem_GroupID r = groupID] [] (newest_first page pageSize) None) (\<lambda>res.
     if pr_List res = [] then returnM (pr_Total res, [])
     else
       bindM (queryDB (\<lambda>d. tfind (\<lambda>u. live_usr u \<and> usr_ID u \<in> mem_UserID ` set (pr_List res)) (users d))) (\<lambda>us.
       returnM (pr_Total res, member_infos us (pr_List res)))))"

definition ListMyGroups :: "nat \<Rightarrow> UserGroup list W" where
  "ListMyGroups userID =
     bindM (UserGroupIDs userID) (\<lambda>ids.
     if ids = [] then returnM []
     else queryDB (\<lambda>d. sort_key grp_CreatedAt
       (tfind (\<lambda>r. live_grp r \<and> grp_ID r \<in> set ids \<and> grp_Status r = 1) (groups d))))"

section \<open>Lemmas\<close>

lemma pres_loadGroup [pres]: "preserves (onDB J) (loadGroup i)"
  unfolding loadGroup_def by (intro pres)

lemma pres_checked [pres]: "preserves I (set_checked v ok f)"
  unfolding set_checked_def by (intro pres)

text \<open>The group operations write no table of the invariant.\<close>

lemma pres_groups [pres]:
  "preserves (onDB db_inv) (CreateGroup u n s)" "preserves (onDB db_inv) (UpdateGroup g n s st)"
  "preserves (onDB db_inv) (DeleteGroup g)" "preserves (onDB db_inv) (AddGroupMember g u)"
  "preserves (onDB db_inv) (RemoveGroupMember g u)"
  unfolding CreateGroup_def UpdateGroup_def DeleteGroup_def AddGroupMember_def RemoveGroupMember_def createMember_def
    delete_group_def remove_member_def put_groups_def Let_def
  by (intro pres pres_tryExec pres_execRet; auto split: if_splits)+

lemma pres_group_lists [pres]:
  "preserves (onDB J) (ListGroups lk ob1 u p n)" "preserves (onDB J) (ListGroupMembers lk ob2 g p n)"
  "preserves (onDB J) (ListMyGroups u)"
  unfolding ListGroups_def ListGroupMembers_def ListMyGroups_def Let_def by (intro pres)+

lemma total_groups [ends_rules]:
  "total (CreateGroup u n s)" "total (UpdateGroup g n s st)" "total (DeleteGroup g)" "total (AddGroupMember g u)"
  "total (RemoveGroupMember g u)" "total (ListGroups lk ob1 u p k)" "total (ListGroupMembers lk ob2 g p k)" "total (ListMyGroups u)"
  unfolding CreateGroup_def UpdateGroup_def DeleteGroup_def AddGroupMember_def RemoveGroupMember_def createMember_def
    ListGroups_def ListGroupMembers_def ListMyGroups_def loadGroup_def set_checked_def Let_def
  by (intro ends_rules)+

lemma createMember_OkD:
  assumes "createMember mk w = (Ok (Some x), w')"
  shows "distinct (map member_key (rows (members (wdb w)) @ [mk (seq (members (wdb w)))]))"
  using tryExecDB_OkD[OF assms[unfolded createMember_def]] by (auto simp: Let_def tcreate_def split: if_splits)

lemma AddGroupMember_OkD:
  assumes "AddGroupMember g u w = (Ok (), w')"
  shows "(g, u) \<notin> member_key ` set (rows (members (wdb w)))"
proof -
  have keep1: "wdb v' = wdb v" if "loadGroup i v = (Ok x, v')" for i x v v'
    by (rule keep_OkD[OF pres_loadGroup that])
  have keep2: "wdb v' = wdb v" if "GetUser i v = (Ok x, v')" for i x v v'
    by (rule keep_OkD[OF pres_GetUser that])
  from assms obtain now x v v' where "createMember (new_member g u now) v = (Ok (Some x), v')" "wdb v = wdb w"
    unfolding AddGroupMember_def
    by (fastforce simp: basic_run elim!: bindM_OkE dest!: gets_OkD keep1 keep2 split: if_splits option.splits)
  from createMember_OkD[OF this(1)] this(2) show ?thesis by (simp add: member_key_def new_member_def)
qed

section \<open>Properties\<close>



end
