(* ===== verification/Buckets.thy ===== *)
theory Buckets
  imports Accounts DeleteTasks
begin

text \<open>
  Buckets (server/bucket.go): creation, lookup, the list of a user's buckets, and the update of levels,
  quota and status.  The deletion is in theory DeleteTasks.  Levels grow as rights shrink: 0 is the
  highest.
\<close>

section \<open>Creation\<close>

record CreateBucketArg =
  cba_OwnerID :: nat
  cba_Name :: string
  cba_Description :: string
  cba_PermissionLevel :: int
  cba_ManagePermissionLevel :: int

definition new_bucket :: "CreateBucketArg \<Rightarrow> string \<Rightarrow> int \<Rightarrow> int \<Rightarrow> time \<Rightarrow> nat \<Rightarrow> Bucket" where
  "new_bucket a name perm managePerm now i =
     \<lparr>bkt_ID = i, bkt_CreatedAt = now, bkt_DeletedAt = None, bkt_Name = name, bkt_Description = cba_Description a,
      bkt_PermissionLevel = perm, bkt_ManagePermissionLevel = managePerm, bkt_OwnerID = cba_OwnerID a,
      bkt_Quota = 0, bkt_UsedSpace = 0, bkt_Status = 1\<rparr>"

definition createBucketRow :: "(nat \<Rightarrow> Bucket) \<Rightarrow> unit option W" where
  "createBucketRow mk = tryExecDB (\<lambda>d.
     let t = tcreate mk (buckets d) in
     if distinct (map bkt_Name (rows t)) then Some ((), d\<lparr>buckets := t\<rparr>) else None)"

definition GetBucketByName :: "string \<Rightarrow> Bucket W" where
  "GetBucketByName name =
     bindM (queryDB (\<lambda>d. tfirst (\<lambda>r. live_bkt r \<and> bkt_Name r = TrimSpace name) (buckets d))) orNotFound"

definition CreateBucket :: "CreateBucketArg \<Rightarrow> Bucket W" where
  "CreateBucket a =
     (let name = TrimSpace (cba_Name a) in
      if name = [] then throwM ErrInvalidInput
      else
        bindM (liftM (ValidateS3BucketName name)) (\<lambda>_.
        if cba_PermissionLevel a < 0 \<or> cba_ManagePermissionLevel a < 0 then throwM ErrInvalidInput
        else
          bindM (queryDB (the_user (cba_OwnerID a))) (\<lambda>u.
          bindM (orNotFound u) (\<lambda>creator.
          let perm = (if cba_PermissionLevel a \<le> SuperAdmin then usr_PermissionLevel creator else cba_PermissionLevel a);
              managePerm = (if cba_ManagePermissionLevel a \<le> SuperAdmin then perm else cba_ManagePermissionLevel a) in
          bindM (getsM clock) (\<lambda>now.
          bindM (createBucketRow (new_bucket a name perm managePerm now)) (\<lambda>r.
          case r of None \<Rightarrow> throwM ErrConflict | Some _ \<Rightarrow> GetBucketByName name))))))"

section \<open>Lists\<close>

text \<open>updatedAt is the column updated_at by bucket key, which nothing else in the program reads.\<close>

definition ListBuckets :: "(nat \<Rightarrow> time) \<Rightarrow> nat \<Rightarrow> Bucket list W" where
  "ListBuckets updatedAt userID =
     bindM (GetUser userID) (\<lambda>u.
     queryDB (\<lambda>d. sort_key (\<lambda>b. - int (updatedAt (bkt_ID b)))
       (tfind (\<lambda>b. live_bkt b \<and> (bkt_OwnerID b = userID \<or> bkt_PermissionLevel b \<ge> usr_PermissionLevel u)) (buckets d))))"

section \<open>Updates\<close>

record UpdateBucketInput =
  ubi_Description :: string
  ubi_PermissionLevel :: "int option"
  ubi_ManagePermissionLevel :: "int option"
  ubi_Quota :: "int option"
  ubi_Status :: "int option"

definition set_bkt_description :: "string \<Rightarrow> Bucket \<Rightarrow> Bucket" where "set_bkt_description s b = b\<lparr>bkt_Description := s\<rparr>"
definition set_bkt_level :: "int \<Rightarrow> Bucket \<Rightarrow> Bucket" where "set_bkt_level l b = b\<lparr>bkt_PermissionLevel := l\<rparr>"
definition set_bkt_manage :: "int \<Rightarrow> Bucket \<Rightarrow> Bucket" where "set_bkt_manage l b = b\<lparr>bkt_ManagePermissionLevel := l\<rparr>"
definition set_bkt_quota :: "int \<Rightarrow> Bucket \<Rightarrow> Bucket" where "set_bkt_quota q b = b\<lparr>bkt_Quota := q\<rparr>"
definition set_bkt_status :: "int \<Rightarrow> Bucket \<Rightarrow> Bucket" where "set_bkt_status s b = b\<lparr>bkt_Status := s\<rparr>"

lemmas set_bkt_defs = set_bkt_description_def set_bkt_level_def set_bkt_manage_def set_bkt_quota_def set_bkt_status_def

definition checkLevel :: "User \<Rightarrow> int option \<Rightarrow> (Bucket \<Rightarrow> Bucket) list W" where
  "checkLevel operator v =
     (case v of
        None \<Rightarrow> returnM []
      | Some perm \<Rightarrow>
          if perm < 0 then throwM ErrInvalidInput
          else if \<not> IsAdmin (usr_PermissionLevel operator) \<and> perm < usr_PermissionLevel operator then throwM ErrForbidden
          else returnM [set_bkt_level perm])"

definition checkManage :: "User \<Rightarrow> int \<Rightarrow> int option \<Rightarrow> (Bucket \<Rightarrow> Bucket) list W" where
  "checkManage operator access v =
     (case v of
        None \<Rightarrow> returnM []
      | Some manage \<Rightarrow>
          if manage < 0 then throwM ErrInvalidInput
          else if manage > 0 \<and> manage > access then throwM ErrInvalidInput
          else if manage > 0 \<and> \<not> IsAdmin (usr_PermissionLevel operator) \<and> manage < usr_PermissionLevel operator
          then throwM ErrForbidden
          else returnM [set_bkt_manage manage])"

definition update_bucket :: "nat \<Rightarrow> (Bucket \<Rightarrow> Bucket) \<Rightarrow> db \<Rightarrow> db" where
  "update_bucket i f d = d\<lparr>buckets := tupdate (\<lambda>r. live_bkt r \<and> bkt_ID r = i) f (buckets d)\<rparr>"

definition bucketUpdates :: "User \<Rightarrow> Bucket \<Rightarrow> UpdateBucketInput \<Rightarrow> (Bucket \<Rightarrow> Bucket) list W" where
  "bucketUpdates operator bucket i =
     (let access = (case ubi_PermissionLevel i of None \<Rightarrow> bkt_PermissionLevel bucket | Some l \<Rightarrow> l) in
      bindM (checkLevel operator (ubi_PermissionLevel i)) (\<lambda>u2.
      bindM (checkManage operator access (ubi_ManagePermissionLevel i)) (\<lambda>u3.
      bindM (set_checked (ubi_Quota i) (\<lambda>q. \<not> q < 0) set_bkt_quota) (\<lambda>u4.
      bindM (set_checked (ubi_Status i) (\<lambda>s. s = 0 \<or> s = 1) set_bkt_status) (\<lambda>u5.
      returnM (set_text (ubi_Description i) set_bkt_description @ u2 @ u3 @ u4 @ u5))))))"

definition UpdateBucket :: "nat \<Rightarrow> nat \<Rightarrow> UpdateBucketInput \<Rightarrow> Bucket W" where
  "UpdateBucket operatorID bucketID i =
     bindM (GetBucket bucketID) (\<lambda>bucket.
     bindM (queryDB (the_user operatorID)) (\<lambda>u.
     bindM (orNotFound u) (\<lambda>operator.
     bindM (bucketUpdates operator bucket i) (\<lambda>upd.
     if upd = [] then throwM ErrInvalidInput
     else thenM (execDB (update_bucket bucketID (fold (\<lambda>f. f) upd))) (GetBucket bucketID)))))"

section \<open>Lemmas\<close>

lemma pres_bucket_reads [pres]: "preserves (onDB J) (GetBucketByName n)" "preserves (onDB J) (ListBuckets f u)"
  unfolding GetBucketByName_def ListBuckets_def by (intro pres)+

lemma pres_CreateBucket [pres]: "preserves (onDB db_inv) (CreateBucket a)"
proof -
  have "preserves (onDB db_inv) (createBucketRow (new_bucket a n p m now))" for n p m now
    unfolding createBucketRow_def
    by (rule pres_tryExec)
      (auto simp: Let_def db_inv_def tcreate_def new_bucket_def split: if_splits intro!: owing_buckets)
  then show ?thesis unfolding CreateBucket_def Let_def by (intro pres)
qed

lemma total_buckets [ends_rules]:
  "total (CreateBucket a)" "total (GetBucketByName n)" "total (ListBuckets f u)" "total (UpdateBucket o1 b inp)"
  unfolding CreateBucket_def GetBucketByName_def ListBuckets_def UpdateBucket_def bucketUpdates_def createBucketRow_def checkLevel_def
    checkManage_def set_checked_def Let_def
  by (intro ends_rules)+

text \<open>An update of a bucket within the rights of an operator of the level lvl.\<close>

definition allowed :: "int \<Rightarrow> (Bucket \<Rightarrow> Bucket) \<Rightarrow> bool" where
  "allowed lvl f \<longleftrightarrow> (\<forall>b. let c = f b in
     bkt_ID c = bkt_ID b \<and> bkt_DeletedAt c = bkt_DeletedAt b \<and> bkt_Name c = bkt_Name b \<and> bkt_OwnerID c = bkt_OwnerID b \<and>
     bkt_UsedSpace c = bkt_UsedSpace b \<and>
     (bkt_PermissionLevel c = bkt_PermissionLevel b \<or> 0 \<le> bkt_PermissionLevel c \<and> (IsAdmin lvl \<or> lvl \<le> bkt_PermissionLevel c)) \<and>
     (bkt_ManagePermissionLevel c = bkt_ManagePermissionLevel b \<or> bkt_ManagePermissionLevel c = 0 \<or>
        0 < bkt_ManagePermissionLevel c \<and> (IsAdmin lvl \<or> lvl \<le> bkt_ManagePermissionLevel c)) \<and>
     (bkt_Quota c = bkt_Quota b \<or> 0 \<le> bkt_Quota c) \<and>
     (bkt_Status c = bkt_Status b \<or> bkt_Status c = 0 \<or> bkt_Status c = 1))"

lemma allowed_comp: "allowed l f \<Longrightarrow> allowed l g \<Longrightarrow> allowed l (g \<circ> f)"
  unfolding allowed_def Let_def comp_def by (intro allI conjI) metis+

lemma allowed_fold: "\<forall>f\<in>set fs. allowed l f \<Longrightarrow> allowed l (fold (\<lambda>f. f) fs)"
  by (induction fs) (simp add: allowed_def, simp add: allowed_comp)

lemma allowed_sets:
  "allowed l (set_bkt_description s)" "0 \<le> q \<Longrightarrow> allowed l (set_bkt_quota q)"
  "st = 0 \<or> st = 1 \<Longrightarrow> allowed l (set_bkt_status st)"
  by (auto simp: allowed_def set_bkt_defs)

lemma check_OkD:
  "checkLevel u v w = (Ok fs, w') \<Longrightarrow> w' = w \<and> (\<forall>f\<in>set fs. allowed (usr_PermissionLevel u) f)"
  "checkManage u a v w = (Ok fs, w') \<Longrightarrow> w' = w \<and> (\<forall>f\<in>set fs. allowed (usr_PermissionLevel u) f)"
  by (auto simp: checkLevel_def checkManage_def basic_run allowed_def set_bkt_defs split: option.splits if_splits)

lemma checked_OkD: "set_checked v ok f w = (Ok fs, w') \<Longrightarrow> w' = w \<and> (\<forall>g\<in>set fs. \<exists>x. ok x \<and> g = f x)"
  by (auto simp: set_checked_def basic_run split: option.splits if_splits)

lemma bucketUpdates_OkD:
  assumes "bucketUpdates u b i w = (Ok us, w')"
  shows "w' = w \<and> allowed (usr_PermissionLevel u) (fold (\<lambda>f. f) us)"
proof -
  have "w' = w \<and> (\<forall>f\<in>set us. allowed (usr_PermissionLevel u) f)"
    using assms unfolding bucketUpdates_def Let_def
    by (auto elim!: bindM_OkE dest!: check_OkD checked_OkD return_OkD intro: allowed_sets(1)
        simp: set_text_def split: if_splits) (metis allowed_sets linorder_not_less)+
  then show ?thesis by (simp add: allowed_fold)
qed

text \<open>An operator's update of a bucket, as a triple: errors leave the rows or find them updated.\<close>

lemma valid_UpdateBucket:
  assumes "\<And>d u f. J d \<Longrightarrow> the_user op d = Some u \<Longrightarrow> allowed (usr_PermissionLevel u) f \<Longrightarrow> K (update_bucket b f d)"
    "\<And>d. J d \<Longrightarrow> K' d" "\<And>d. K d \<Longrightarrow> K' d"
  shows "valid (onDB J) (UpdateBucket op b i) (\<lambda>_. onDB K) (\<lambda>_. onDB K')"
proof -
  have nf: "valid (onDB L) (orNotFound r) (\<lambda>x. onDB (\<lambda>d. L d \<and> r = Some x)) (\<lambda>_. onDB L)" for L and r :: "User option"
    by (auto simp: valid_def orNotFound_def onDB_def returnM_def throwM_def split: option.splits)
  have ups: "valid (onDB L) (bucketUpdates u bk i) (\<lambda>us. onDB (\<lambda>d. L d \<and> allowed (usr_PermissionLevel u) (fold (\<lambda>f. f) us)))
      (\<lambda>_. onDB L)" for L u bk
  proof (rule validI)
    show "onDB (\<lambda>d. L d \<and> allowed (usr_PermissionLevel u) (fold (\<lambda>f. f) us)) t"
      if "onDB L s" "bucketUpdates u bk i s = (Ok us, t)" for s us t
      using bucketUpdates_OkD[OF that(2)] that(1) by (simp add: onDB_def)
    have "preserves (onDB L) (bucketUpdates u bk i)"
      unfolding bucketUpdates_def checkLevel_def checkManage_def set_checked_def Let_def by (intro pres)
    then show "onDB L t" if "onDB L s" "bucketUpdates u bk i s = (Err e, t)" for s e t
      using that by (rule valid_ErrD)
  qed
  have last: "valid (onDB (\<lambda>d. (J d \<and> the_user op d = Some u) \<and> allowed (usr_PermissionLevel u) (fold (\<lambda>f. f) us)))
      (if us = [] then throwM ErrInvalidInput else thenM (execDB (update_bucket b (fold (\<lambda>f. f) us))) (GetBucket b))
      (\<lambda>_. onDB K) (\<lambda>_. onDB K')" for u us
  proof (rule db_if)
    show "valid (onDB (\<lambda>d. (J d \<and> the_user op d = Some u) \<and> allowed (usr_PermissionLevel u) (fold (\<lambda>f. f) us)))
      (throwM ErrInvalidInput) (\<lambda>_. onDB K) (\<lambda>_. onDB K')" by (rule db_throw) (simp add: assms(2))
    show "valid (onDB (\<lambda>d. (J d \<and> the_user op d = Some u) \<and> allowed (usr_PermissionLevel u) (fold (\<lambda>f. f) us)))
      (thenM (execDB (update_bucket b (fold (\<lambda>f. f) us))) (GetBucket b)) (\<lambda>_. onDB K) (\<lambda>_. onDB K')"
    proof (rule valid_then[where R = "onDB K"])
      show "valid (onDB K) (GetBucket b) (\<lambda>_. onDB K) (\<lambda>_. onDB K')"
        by (rule valid_weaken[OF pres_GetBucket[where J = K]]) (auto simp: onDB_def assms(3))
      show "valid (onDB (\<lambda>d. (J d \<and> the_user op d = Some u) \<and> allowed (usr_PermissionLevel u) (fold (\<lambda>f. f) us)))
          (execDB (update_bucket b (fold (\<lambda>f. f) us))) (\<lambda>_. onDB K) (\<lambda>_. onDB K')"
        by (rule db_exec_last) (auto intro: assms(1,2))
    qed
  qed
  show ?thesis unfolding UpdateBucket_def
  proof (rule valid_bind[OF valid_bind[OF valid_bind[OF valid_bind[OF last]]]])
    show "valid (onDB J) (GetBucket b) (\<lambda>_. onDB J) (\<lambda>_. onDB K')"
      by (rule valid_weaken[OF pres_GetBucket[where J = J]]) (auto simp: onDB_def assms(2))
    show "valid (onDB J) (queryDB (the_user op)) (\<lambda>x. onDB (\<lambda>d. J d \<and> the_user op d = x)) (\<lambda>_. onDB K')"
      by (rule valid_weaken[OF valid_query[where J = J]]) (auto simp: onDB_def assms(2))
    show "valid (onDB (\<lambda>d. J d \<and> the_user op d = r)) (orNotFound r) (\<lambda>x. onDB (\<lambda>d. J d \<and> the_user op d = Some x)) (\<lambda>_. onDB K')" for r
      by (rule valid_weaken[OF nf[where L = "\<lambda>d. J d \<and> the_user op d = r"]]) (auto simp: onDB_def assms(2))
    show "valid (onDB (\<lambda>d. J d \<and> the_user op d = Some u)) (bucketUpdates u bk i)
        (\<lambda>us. onDB (\<lambda>d. (J d \<and> the_user op d = Some u) \<and> allowed (usr_PermissionLevel u) (fold (\<lambda>f. f) us))) (\<lambda>_. onDB K')" for u bk
      by (rule valid_weaken[OF ups[where L = "\<lambda>d. J d \<and> the_user op d = Some u"]]) (auto simp: onDB_def assms(2))
  qed
qed

lemma pres_UpdateBucket [pres]: "preserves (onDB db_inv) (UpdateBucket op b i)"
proof (rule valid_UpdateBucket)
  show "db_inv (update_bucket b f d)" if "db_inv d" "allowed (usr_PermissionLevel u) f" for d u f
    using that(1) unfolding db_inv_def update_bucket_def
    by (rule owing_buckets) (use that(2) in \<open>auto simp: tupdate_def allowed_def Let_def live_bkt_def split: if_splits\<close>)
qed simp_all

section \<open>Properties\<close>

text \<open>C36: An update changes one live bucket within the operator's rights: levels stay at or below the operator's own
  unless an administrator sets them, quota and status stay in range, and name, owner and use of no
  bucket change.\<close>

theorem UpdateBucket_allowed:
  assumes "UpdateBucket op b i w = (Ok c, w')"
  shows "\<exists>u f. the_user op (wdb w) = Some u \<and> allowed (usr_PermissionLevel u) f \<and> wdb w' = update_bucket b f (wdb w)"
  using valid_OkD[OF valid_UpdateBucket[where J = "\<lambda>d. d = wdb w" and K' = "\<lambda>_. True" and
      K = "\<lambda>d. \<exists>u f. the_user op (wdb w) = Some u \<and> allowed (usr_PermissionLevel u) f \<and> d = update_bucket b f (wdb w)"] _ assms]
  by (auto simp: onDB_def)

text \<open>An administrator raises the access level alone: the management level is now the looser one.\<close>

theorem UpdateBucket_allowed_witness:
  "\<exists>c w'. UpdateBucket 1 1 \<lparr>ubi_Description = [], ubi_PermissionLevel = Some 0, ubi_ManagePermissionLevel = None,
      ubi_Quota = None, ubi_Status = None\<rparr> sample = (Ok c, w') \<and> bkt_PermissionLevel c < bkt_ManagePermissionLevel c \<and>
     map bkt_UsedSpace (rows (buckets (wdb w'))) = [2]"
proof -
  let ?m = "UpdateBucket 1 1 \<lparr>ubi_Description = [], ubi_PermissionLevel = Some 0, ubi_ManagePermissionLevel = None,
      ubi_Quota = None, ubi_Status = None\<rparr> sample"
  have "fst ?m = Ok (sample_bucket\<lparr>bkt_PermissionLevel := 0\<rparr>)" by code_simp
  then obtain w' where m: "?m = (Ok (sample_bucket\<lparr>bkt_PermissionLevel := 0\<rparr>), w')" by (metis prod.collapse)
  from UpdateBucket_allowed[OF m] have "map bkt_UsedSpace (rows (buckets (wdb w'))) = [2]"
    by (auto simp: update_bucket_def tupdate_def allowed_def Let_def sample_bucket_def)
  with m show ?thesis by (auto simp: sample_bucket_def Admin_def)
qed

end
