(* ===== verification/Listing.thy ===== *)
theory Listing
  imports Visibility Invariant Paging
begin

text \<open>
  Downloads (server/file_download.go), the lists of a directory (server/file_list.go) and the search
  in it (server/file_search.go).  likes pattern text is the database's LIKE and json_ints its reading
  of a JSON array.  An offset is computed without overflow.
\<close>

section \<open>Downloads\<close>

definition CheckFileDownload :: "nat \<Rightarrow> nat \<Rightarrow> (Bucket \<times> File) W" where
  "CheckFileDownload bucketID fileID =
     bindM (CheckBucketUsable bucketID) (\<lambda>b.
     bindM (loadFile bucketID fileID) (\<lambda>f.
     thenM (checkAncestorsUsable bucketID (fil_FolderID f)) (returnM (b, f))))"

text \<open>A missing object is reported as a missing file.\<close>

definition objectOf :: "'a W \<Rightarrow> 'a W" where
  "objectOf m =
     bindM (tryM m) (\<lambda>r.
     case r of Inl e \<Rightarrow> throwM (if e = ErrObjectNotFound then ErrNotFound else e) | Inr x \<Rightarrow> returnM x)"

definition DownloadFile :: "nat \<Rightarrow> nat \<Rightarrow> (byte list \<times> File) W" where
  "DownloadFile bucketID fileID =
     bindM (CheckFileDownload bucketID fileID) (\<lambda>(b, f).
     bindM (objectOf (storageGet (BucketEncoder (fil_BucketID f)) (objectKeyForFile (fil_ID f)))) (\<lambda>rc.
     returnM (rc, f)))"

definition checkRange :: "int \<Rightarrow> int \<Rightarrow> int \<Rightarrow> unit W" where
  "checkRange start en sz =
     (if start \<ge> sz then throwM ErrRangeNotSatisfiable
      else if start < 0 \<or> en < start \<or> en \<ge> sz then throwM ErrInvalidInput
      else returnM ())"

definition DownloadFileRange :: "nat \<Rightarrow> nat \<Rightarrow> int \<Rightarrow> int \<Rightarrow> (byte list \<times> File) W" where
  "DownloadFileRange bucketID fileID start en =
     bindM (CheckFileDownload bucketID fileID) (\<lambda>(b, f).
     thenM (checkRange start en (fil_FileSize f))
     (bindM (objectOf (storageGetRange (BucketEncoder (fil_BucketID f)) (objectKeyForFile (fil_ID f)) start en)) (\<lambda>rc.
     returnM (rc, f))))"

definition GetFolderMeta :: "nat \<Rightarrow> nat \<Rightarrow> Folder W" where
  "GetFolderMeta bucketID folderID =
     bindM (CheckBucketUsable bucketID) (\<lambda>_.
     bindM (loadFolder bucketID folderID) (\<lambda>f.
     thenM (checkAncestorsUsable bucketID (fld_ID f)) (returnM f)))"

section \<open>The rows of a directory\<close>

definition file_in :: "nat \<Rightarrow> nat \<Rightarrow> File \<Rightarrow> bool" where
  "file_in bucketID folderID r \<longleftrightarrow> live_fil r \<and> fil_BucketID r = bucketID \<and> fil_FolderID r = folderID"

definition folder_in :: "nat \<Rightarrow> nat \<Rightarrow> Folder \<Rightarrow> bool" where
  "folder_in bucketID folderID r \<longleftrightarrow>
     live_fld r \<and> fld_BucketID r = bucketID \<and> fld_ParentID r = folderID \<and> fld_Isable r \<noteq> 0"

record unionRow =
  uro_ID :: nat
  uro_CreatedAt :: time
  uro_Kind :: string

definition file_row :: "File \<Rightarrow> unionRow" where
  "file_row f = \<lparr>uro_ID = fil_ID f, uro_CreatedAt = fil_CreatedAt f, uro_Kind = ''file''\<rparr>"

definition folder_row :: "Folder \<Rightarrow> unionRow" where
  "folder_row f = \<lparr>uro_ID = fld_ID f, uro_CreatedAt = fld_CreatedAt f, uro_Kind = ''folder''\<rparr>"

text \<open>The two branches of the UNION ALL under a condition on lower-case name and visibility column.\<close>

definition union_rows :: "nat \<Rightarrow> nat \<Rightarrow> (string \<Rightarrow> string \<Rightarrow> bool) \<Rightarrow> db \<Rightarrow> unionRow list" where
  "union_rows bucketID folderID cond d =
     map file_row (tfind (\<lambda>r. file_in bucketID folderID r \<and> cond (fil_NameLower r) (fil_VisibleToGroups r)) (files d)) @
     map folder_row (tfind (\<lambda>r. folder_in bucketID folderID r \<and> cond (fld_NameLower r) (fld_VisibleToGroups r)) (folders d))"

text \<open>ORDER BY created_at dir, id DESC.\<close>

definition order_rows :: "string \<Rightarrow> unionRow list \<Rightarrow> unionRow list" where
  "order_rows dir rs =
     sort_key (\<lambda>r. if dir = ''ASC'' then int (uro_CreatedAt r) else - int (uro_CreatedAt r))
       (sort_key (\<lambda>r. - int (uro_ID r)) rs)"

definition listBase :: "(string \<Rightarrow> nat list option) \<Rightarrow> nat \<Rightarrow> nat \<Rightarrow> string \<Rightarrow> (nat \<times> (string \<Rightarrow> bool)) W" where
  "listBase json_ints userID bucketID dirPath =
     bindM (CheckBucketUsable bucketID) (\<lambda>_.
     bindM (liftM (NormalizeDirPath dirPath)) (\<lambda>dir.
     bindM (ResolveDirPathStrict bucketID dir) (\<lambda>folderID.
     thenM (checkAncestorsAccessTree userID bucketID folderID)
     (bindM (listVisibilityPredicate json_ints userID) (\<lambda>vis.
     returnM (folderID, vis))))))"

text \<open>The rows of the ids, in the order of the ids; ids without a row are left out.\<close>

fun by_id :: "('r \<Rightarrow> nat) \<Rightarrow> 'r list \<Rightarrow> nat list \<Rightarrow> 'r list" where
  "by_id idOf rs [] = []"
| "by_id idOf rs (i # is) = (case find (\<lambda>r. idOf r = i) rs of None \<Rightarrow> by_id idOf rs is | Some r \<Rightarrow> r # by_id idOf rs is)"

definition loadFileRows :: "nat \<Rightarrow> nat list \<Rightarrow> File list W" where
  "loadFileRows bucketID ids =
     (if ids = [] then returnM []
      else bindM (queryDB (\<lambda>d. tfind (\<lambda>r. live_fil r \<and> fil_ID r \<in> set ids \<and> fil_BucketID r = bucketID) (files d)))
        (\<lambda>fs. returnM (by_id fil_ID fs ids)))"

definition loadFolderRows :: "nat \<Rightarrow> nat list \<Rightarrow> Folder list W" where
  "loadFolderRows bucketID ids =
     (if ids = [] then returnM []
      else bindM (queryDB (\<lambda>d. tfind (\<lambda>r. live_fld r \<and> fld_ID r \<in> set ids \<and> fld_BucketID r = bucketID) (folders d)))
        (\<lambda>fs. returnM (by_id fld_ID fs ids)))"

definition loadListRows :: "nat \<Rightarrow> unionRow list \<Rightarrow> (File list \<times> Folder list) W" where
  "loadListRows bucketID rs =
     bindM (loadFileRows bucketID (map uro_ID (filter (\<lambda>r. uro_Kind r = ''file'') rs))) (\<lambda>fs.
     bindM (loadFolderRows bucketID (map uro_ID (filter (\<lambda>r. uro_Kind r \<noteq> ''file'') rs))) (\<lambda>ds.
     returnM (fs, ds)))"

definition countListRows :: "nat \<Rightarrow> nat \<Rightarrow> (string \<Rightarrow> string \<Rightarrow> bool) \<Rightarrow> nat W" where
  "countListRows bucketID folderID cond =
     bindM (queryDB (\<lambda>d. tcount (\<lambda>r. file_in bucketID folderID r \<and> cond (fil_NameLower r) (fil_VisibleToGroups r)) (files d))) (\<lambda>n1.
     bindM (queryDB (\<lambda>d. tcount (\<lambda>r. folder_in bucketID folderID r \<and> cond (fld_NameLower r) (fld_VisibleToGroups r)) (folders d))) (\<lambda>n2.
     returnM (n1 + n2)))"

definition listPageSize :: "int \<Rightarrow> int" where
  "listPageSize n = (let m = (if n \<le> 0 then 50 else n) in if m > 500 then 500 else m)"

record ListFilesArg =
  lfa_UserID :: nat
  lfa_BucketID :: nat
  lfa_DirPath :: string
  lfa_Page :: int
  lfa_PageSize :: int
  lfa_Key :: string
  lfa_Order :: string

definition key_cond :: "(string \<Rightarrow> string \<Rightarrow> bool) \<Rightarrow> string \<Rightarrow> string \<Rightarrow> bool" where
  "key_cond likes key name \<longleftrightarrow> key = [] \<or> likes (ToLower key @ ''%'') name"

definition ListFiles ::
  "(string \<Rightarrow> string \<Rightarrow> bool) \<Rightarrow> (string \<Rightarrow> nat list option) \<Rightarrow> ListFilesArg \<Rightarrow> (File list \<times> Folder list \<times> nat) W" where
  "ListFiles likes json_ints a =
     bindM (listBase json_ints (lfa_UserID a) (lfa_BucketID a) (lfa_DirPath a)) (\<lambda>(folderID, vis).
     let cond = (\<lambda>name col. key_cond likes (lfa_Key a) name \<and> vis col) in
     bindM (queryDB (\<lambda>d. page_of (normPage (lfa_Page a)) (listPageSize (lfa_PageSize a))
       (order_rows (direction (lfa_Order a)) (union_rows (lfa_BucketID a) folderID cond d)))) (\<lambda>rs.
     bindM (loadListRows (lfa_BucketID a) rs) (\<lambda>(fs, ds).
     bindM (countListRows (lfa_BucketID a) folderID cond) (\<lambda>total.
     returnM (fs, ds, total)))))"

section \<open>Deep listings by cursor\<close>

record ListFilesCursorArg =
  lca_UserID :: nat
  lca_BucketID :: nat
  lca_DirPath :: string
  lca_FileCursor :: string
  lca_FolderCursor :: string
  lca_PageSize :: int

text \<open>The keys of one page and one more, in descending order.\<close>

definition cursor_ids :: "string \<Rightarrow> int \<Rightarrow> nat list \<Rightarrow> nat list" where
  "cursor_ids cursor n ids = take (Suc (nat n)) (rev (sort (filter (KeysetIDCond cursor) ids)))"

text \<open>
  loadCursorFiles and loadCursorFolders: the rows of a page and the cursor of the next one, empty when
  there is none.  A failing query is logged only, and the page comes back empty and without a cursor.
\<close>

definition loadCursor :: "(nat list \<Rightarrow> 'r list W) \<Rightarrow> nat list \<Rightarrow> int \<Rightarrow> ('r list \<times> string) W" where
  "loadCursor load ids n =
     (let hasMore = length ids > nat n;
          shown = (if hasMore then take (nat n) ids else ids) in
      bindM (tryM (load shown)) (\<lambda>r.
      case r of
        Inl _ \<Rightarrow> returnM ([], [])
      | Inr rs \<Rightarrow> returnM (rs, if hasMore \<and> shown \<noteq> [] then EncodeKeysetID (last shown) else [])))"

definition ListFilesCursor ::
  "(string \<Rightarrow> nat list option) \<Rightarrow> ListFilesCursorArg \<Rightarrow> (File list \<times> Folder list \<times> string \<times> string) W" where
  "ListFilesCursor json_ints a =
     bindM (listBase json_ints (lca_UserID a) (lca_BucketID a) (lca_DirPath a)) (\<lambda>(folderID, vis).
     let n = listPageSize (lca_PageSize a) in
     bindM (queryDB (\<lambda>d. cursor_ids (lca_FileCursor a) n (map fil_ID
       (tfind (\<lambda>r. file_in (lca_BucketID a) folderID r \<and> vis (fil_VisibleToGroups r)) (files d))))) (\<lambda>fileIDs.
     bindM (queryDB (\<lambda>d. cursor_ids (lca_FolderCursor a) n (map fld_ID
       (tfind (\<lambda>r. folder_in (lca_BucketID a) folderID r \<and> vis (fld_VisibleToGroups r)) (folders d))))) (\<lambda>folderIDs.
     bindM (loadCursor (loadFileRows (lca_BucketID a)) fileIDs n) (\<lambda>(fs, nextFile).
     bindM (loadCursor (loadFolderRows (lca_BucketID a)) folderIDs n) (\<lambda>(ds, nextFolder).
     returnM (fs, ds, nextFile, nextFolder))))))"

section \<open>Search\<close>

record SearchArg =
  sea_UserID :: nat
  sea_BucketID :: nat
  sea_Path :: string
  sea_FolderID :: nat
  sea_Key :: string
  sea_Page :: int
  sea_PageSize :: int

definition searchTarget :: "(string \<Rightarrow> nat list option) \<Rightarrow> SearchArg \<Rightarrow> (nat \<times> (string \<Rightarrow> bool)) W" where
  "searchTarget json_ints a =
     bindM (CheckBucketUsable (sea_BucketID a)) (\<lambda>_.
     bindM (if sea_Path a = [] then returnM (sea_FolderID a)
            else bindM (liftM (NormalizeDirPath (sea_Path a))) (ResolveDirPathStrict (sea_BucketID a))) (\<lambda>target.
     thenM (whenM (target \<noteq> 0) (checkAncestorsAccessTree (sea_UserID a) (sea_BucketID a) target))
     (bindM (listVisibilityPredicate json_ints (sea_UserID a)) (\<lambda>vis.
     returnM (target, vis)))))"

text \<open>Rows created last come first; rows created at the same time are ordered by key.\<close>

definition search_page :: "SearchArg \<Rightarrow> ('r \<Rightarrow> time) \<Rightarrow> 'r list \<Rightarrow> 'r list" where
  "search_page a createdAt rs =
     page_of (normPage (sea_Page a)) (listPageSize (sea_PageSize a)) (sort_key (\<lambda>r. - int (createdAt r)) rs)"

definition FileSearch ::
  "(string \<Rightarrow> string \<Rightarrow> bool) \<Rightarrow> (string \<Rightarrow> nat list option) \<Rightarrow> SearchArg \<Rightarrow> File list W" where
  "FileSearch likes json_ints a =
     bindM (searchTarget json_ints a) (\<lambda>(target, vis).
     queryDB (\<lambda>d. search_page a fil_CreatedAt (tfind
       (\<lambda>r. file_in (sea_BucketID a) target r \<and> likes (ToLower (sea_Key a) @ ''%'') (fil_NameLower r) \<and>
         vis (fil_VisibleToGroups r)) (files d))))"

definition FolderSearch ::
  "(string \<Rightarrow> string \<Rightarrow> bool) \<Rightarrow> (string \<Rightarrow> nat list option) \<Rightarrow> SearchArg \<Rightarrow> Folder list W" where
  "FolderSearch likes json_ints a =
     bindM (searchTarget json_ints a) (\<lambda>(target, vis).
     queryDB (\<lambda>d. search_page a fld_CreatedAt (tfind
       (\<lambda>r. folder_in (sea_BucketID a) target r \<and> likes (ToLower (sea_Key a) @ ''%'') (fld_NameLower r) \<and>
         vis (fld_VisibleToGroups r)) (folders d))))"

section \<open>Lemmas\<close>

lemma pres_downloads [pres]:
  "preserves (onDB J) (CheckFileDownload b f)" "preserves (onDB J) (DownloadFile b f)"
  "preserves (onDB J) (DownloadFileRange b f s e)" "preserves (onDB J) (GetFolderMeta b g)"
  unfolding CheckFileDownload_def DownloadFile_def DownloadFileRange_def GetFolderMeta_def objectOf_def checkRange_def
  by (intro pres)+

lemma pres_listVisibility [pres]: "preserves (onDB J) (listVisibilityPredicate ji u)"
  unfolding listVisibilityPredicate_def userForVisibility_def by (intro pres)

lemma pres_listBase [pres]: "preserves (onDB J) (listBase ji u b p)"
  unfolding listBase_def by (intro pres)

lemma pres_loadRows [pres]: "preserves (onDB J) (loadFileRows b is)" "preserves (onDB J) (loadFolderRows b is)"
  "preserves (onDB J) (loadListRows b rs)"
  unfolding loadFileRows_def loadFolderRows_def loadListRows_def by (intro pres)+

lemma pres_loadCursor: "(\<And>is. preserves (onDB J) (ld is)) \<Longrightarrow> preserves (onDB J) (loadCursor ld is n)"
  unfolding loadCursor_def Let_def by (intro pres)

lemma pres_lists [pres]:
  "preserves (onDB J) (ListFiles lk ji a)" "preserves (onDB J) (ListFilesCursor ji c)"
  "preserves (onDB J) (FileSearch lk ji s)" "preserves (onDB J) (FolderSearch lk ji s)"
  unfolding ListFiles_def ListFilesCursor_def FileSearch_def FolderSearch_def searchTarget_def countListRows_def Let_def
  by (intro pres pres_loadCursor)+


section \<open>Reads in a world without faults\<close>

text \<open>
  steady d m: over the database d, with no call failing, m has one result and leaves the database as
  it is.  Two reads of the same database then see the same.
\<close>

definition calm :: "world \<Rightarrow> bool" where
  "calm w \<longleftrightarrow> (\<forall>t. \<not> fault w t)"

definition reads :: "db \<Rightarrow> 'a W \<Rightarrow> 'a outcome \<Rightarrow> bool" where
  "reads d m r \<longleftrightarrow> (\<forall>w. calm w \<and> wdb w = d \<longrightarrow> (\<exists>w'. m w = (r, w') \<and> calm w' \<and> wdb w' = d))"

definition steady :: "db \<Rightarrow> 'a W \<Rightarrow> bool" where
  "steady d m \<longleftrightarrow> (\<exists>r. reads d m r)"

named_theorems steady_rules \<open>reads whose result is the database's\<close>

lemma reads_query: "reads d (queryDB f) (Ok (f d))"
  by (auto simp: reads_def calm_def run)

lemma reads_return: "reads d (returnM x) (Ok x)"
  by (auto simp: reads_def run)

lemma reads_bind: "reads d m (Ok x) \<Longrightarrow> reads d (f x) r \<Longrightarrow> reads d (bindM m f) r"
  unfolding reads_def by (metis bindM_Ok)

lemma reads_bind_Err: "reads d m (Err e) \<Longrightarrow> reads d (bindM m f) (Err e)"
  unfolding reads_def by (metis bindM_Err)

lemma reads_bind_Hang: "reads d m Hang \<Longrightarrow> reads d (bindM m f) Hang"
  unfolding reads_def bindM_def by fastforce

lemma reads_try: "reads d m (Ok x) \<Longrightarrow> reads d (tryM m) (Ok (Inr x))"
  unfolding reads_def tryM_def by fastforce

lemma reads_unique: "reads d m r \<Longrightarrow> calm w \<Longrightarrow> wdb w = d \<Longrightarrow> m w = (r', w') \<Longrightarrow> r' = r"
  unfolding reads_def by fastforce

lemma reads_readsI: "steady d m \<Longrightarrow> calm w \<Longrightarrow> wdb w = d \<Longrightarrow> m w = (r, w') \<Longrightarrow> reads d m r"
  unfolding steady_def using reads_unique by metis

lemma steady_basic [steady_rules]:
  "steady d (queryDB f)" "steady d (returnM x)" "steady d (throwM e)" "steady d hangM"
  by (auto simp: steady_def reads_def calm_def run)

lemma steady_lift [steady_rules]: "steady d (liftM r)"
  by (cases r) (simp_all add: liftM_def steady_rules)

lemma steady_bind [steady_rules]: "steady d m \<Longrightarrow> (\<And>x. steady d (f x)) \<Longrightarrow> steady d (bindM m f)"
  unfolding steady_def by (metis outcome.exhaust reads_bind reads_bind_Err reads_bind_Hang)

lemma steady_then [steady_rules]: "steady d m \<Longrightarrow> steady d k \<Longrightarrow> steady d (thenM m k)"
  unfolding thenM_def by (intro steady_rules)

lemma steady_cases [steady_rules]:
  "steady d m \<Longrightarrow> steady d k \<Longrightarrow> steady d (if b then m else k)"
  "steady d m \<Longrightarrow> (\<And>x. steady d (f x)) \<Longrightarrow> steady d (case opt of None \<Rightarrow> m | Some x \<Rightarrow> f x)"
  "(\<And>e. steady d (g e)) \<Longrightarrow> (\<And>x. steady d (f x)) \<Longrightarrow> steady d (case r of Inl e \<Rightarrow> g e | Inr x \<Rightarrow> f x)"
  "(\<And>x y. steady d (h x y)) \<Longrightarrow> steady d (case p of (x, y) \<Rightarrow> h x y)"
  by (cases b; cases opt; cases r; cases p; simp)+

lemma steady_gets: "(\<And>w. f w = g (wdb w)) \<Longrightarrow> steady d (getsM f)"
  by (auto simp: steady_def reads_def run)

lemma steady_reads [steady_rules]:
  "steady d (orNotFound x)" "steady d (GetUser u)" "steady d (GetBucket b)" "steady d (UserGroupIDs u)"
  "steady d (CheckBucketUsable b)" "steady d (loadFolder b i)" "steady d folderCount"
  by (auto simp: orNotFound_def GetUser_def GetBucket_def UserGroupIDs_def CheckBucketUsable_def loadFolder_def
      folderCount_def intro!: steady_rules steady_gets split: option.splits)

lemma steady_item [steady_rules]: "steady d (checkItemAccessTree u g v)"
  unfolding checkItemAccessTree_def by (intro steady_rules)

lemma steady_walk [steady_rules]: "steady d (accessTree_loop n u b c seen us g)"
proof (induction n arbitrary: c seen us g)
  case 0
  show ?case by (subst accessTree_loop.simps) (auto intro: steady_rules)
next
  case (Suc n)
  show ?case by (subst accessTree_loop.simps) (auto intro!: steady_rules Suc)
qed

lemma steady_resolve: "steady d (resolve_strict b p ss)"
  by (induction ss arbitrary: p) (auto intro!: steady_rules)

lemma steady_listBase: "steady d (listBase ji u b p)"
  unfolding listBase_def checkAncestorsAccessTree_def ResolveDirPathStrict_def listVisibilityPredicate_def userForVisibility_def
    Let_def
  by (intro steady_rules steady_resolve)

section \<open>Pages by cursor\<close>

text \<open>The files of a directory that a list shows, the newest key first.\<close>

definition shown_files :: "nat \<Rightarrow> nat \<Rightarrow> (string \<Rightarrow> bool) \<Rightarrow> db \<Rightarrow> File list" where
  "shown_files b fid vis d =
     rev (sort_key fil_ID (tfind (\<lambda>r. file_in b fid r \<and> vis (fil_VisibleToGroups r)) (files d)))"

lemma filter_rev_sort: "filter P (rev (sort_key f xs)) = rev (sort_key f (filter P xs))"
  by (simp add: filter_sort rev_filter[symmetric])

lemma map_sort_key: "map f (sort_key f xs) = sort (map f xs)"
  by (rule properties_for_sort[symmetric]) simp_all

lemma cursor_ids_map:
  "cursor_ids c n (map idOf xs) = map idOf (take (Suc (nat n)) (filter (\<lambda>r. KeysetIDCond c (idOf r)) (rev (sort_key idOf xs))))"
  unfolding cursor_ids_def filter_map filter_rev_sort
  by (simp add: map_sort_key[symmetric] rev_map take_map comp_def)

lemma by_id_rows:
  assumes "distinct (map idOf rs)" "set xs \<subseteq> set rs"
  shows "by_id idOf rs (map idOf xs) = xs"
  using assms(2)
proof (induction xs)
  case (Cons x xs)
  then have "find (\<lambda>r. idOf r = idOf x) rs = Some x"
    using assms(1) by (auto simp: find_Some_iff in_set_conv_nth distinct_conv_nth) 
  with Cons show ?case by simp
qed simp

lemma shown_files_desc:
  assumes "files_ok d"
  shows "sorted_wrt (\<lambda>x y. fil_ID y < fil_ID x) (shown_files b fid vis d)"
proof -
  have "distinct (map fil_ID (tfind P (files d)))" for P
    using assms by (auto simp: files_ok_def tfind_def distinct_map_filter)
  then show ?thesis
    by (auto simp: shown_files_def sorted_wrt_rev map_sort_key sorted_wrt_map[symmetric] strict_sorted_iff)
qed

lemma below_last:
  assumes "sorted_wrt (\<lambda>x y. idOf y < (idOf x :: nat)) xs" "0 < n" "n \<le> length xs"
  shows "filter (\<lambda>r. idOf r < idOf (last (take n xs))) xs = drop n xs"
proof -
  have a: "sorted_wrt (\<lambda>x y. idOf y < idOf x) (take n xs @ drop n xs)" "take n xs \<noteq> []"
    using assms by auto
  obtain ys z where t: "take n xs = ys @ [z]" using a(2) by (cases "take n xs" rule: rev_cases) auto
  have "filter (\<lambda>r. idOf r < idOf z) (take n xs) = []" "filter (\<lambda>r. idOf r < idOf z) (drop n xs) = drop n xs"
    using a(1) unfolding t by (auto simp: sorted_wrt_append filter_empty_conv intro!: filter_True)
  then have "filter (\<lambda>r. idOf r < idOf z) (take n xs) @ filter (\<lambda>r. idOf r < idOf z) (drop n xs) = drop n xs"
    by simp
  then show ?thesis by (metis append_take_drop_id filter_append last_snoc t)
qed

lemma last_take_nth: "n < length xs \<Longrightarrow> 0 < n \<Longrightarrow> last (take n xs) = xs ! (n - Suc 0)"
  by (subst last_conv_nth) (auto simp: min_def)

lemma reads_loadCursor:
  assumes "reads d (ld (take n ids)) (Ok rs)"
  shows "reads d (loadCursor ld (take (Suc n) ids) (int n))
    (Ok (rs, if n < length ids \<and> 0 < n then EncodeKeysetID (ids ! (n - 1)) else []))"
proof -
  have shown: "(if n < length (take (Suc n) ids) then take n (take (Suc n) ids) else take (Suc n) ids) = take n ids"
    by (cases "n < length ids") (auto simp: min_def)
  show ?thesis
    unfolding loadCursor_def Let_def nat_int shown
    by (rule reads_bind[OF reads_try[OF assms]]) (auto simp: last_take_nth intro: reads_return)
qed

lemma reads_loadFileRows:
  assumes "files_ok d" "set xs \<subseteq> {r\<in>set (rows (files d)). live_fil r \<and> fil_BucketID r = b}"
  shows "reads d (loadFileRows b (map fil_ID xs)) (Ok xs)"
proof (cases "xs = []")
  case False
  let ?rs = "tfind (\<lambda>r. live_fil r \<and> fil_ID r \<in> set (map fil_ID xs) \<and> fil_BucketID r = b) (files d)"
  have "by_id fil_ID ?rs (map fil_ID xs) = xs"
    using assms by (intro by_id_rows) (auto simp: tfind_def files_ok_def distinct_map_filter)
  then show ?thesis
    using False reads_return[of d xs] by (auto simp: loadFileRows_def intro!: reads_bind[OF reads_query])
qed (simp add: loadFileRows_def reads_return)

lemma reads_loadFolderRows: "\<exists>ds. reads d (loadFolderRows b ids) (Ok ds)"
  unfolding loadFolderRows_def by (auto intro!: exI reads_bind[OF reads_query] reads_return)

lemma listPageSize_bounds [simp]: "0 < listPageSize n" "listPageSize n \<le> 500" "int (nat (listPageSize n)) = listPageSize n"
  by (auto simp: listPageSize_def Let_def)

lemma listPageSize_nonneg [simp]: "0 \<le> listPageSize n"
  using listPageSize_bounds(1) less_imp_le by blast

lemma reads_cursorFolders:
  "\<exists>ds nd. reads d (loadCursor (loadFolderRows b) (cursor_ids c (int n) is) (int n)) (Ok (ds, nd))"
proof -
  let ?s = "rev (sort (filter (KeysetIDCond c) is))"
  obtain ds where "reads d (loadFolderRows b (take n ?s)) (Ok ds)" using reads_loadFolderRows by blast
  from reads_loadCursor[of d "loadFolderRows b" n ?s ds, OF this] show ?thesis unfolding cursor_ids_def nat_int by blast
qed

lemma reads_ListFilesCursor:
  assumes "files_ok d" "reads d (listBase ji (lca_UserID a) (lca_BucketID a) (lca_DirPath a)) (Ok (fid, vis))"
  defines "D \<equiv> filter (\<lambda>r. KeysetIDCond (lca_FileCursor a) (fil_ID r)) (shown_files (lca_BucketID a) fid vis d)"
    and "n \<equiv> nat (listPageSize (lca_PageSize a))"
  shows "\<exists>ds nd. reads d (ListFilesCursor ji a)
    (Ok (take n D, ds, if n < length D then dec (fil_ID (last (take n D))) else [], nd))"
proof -
  have n: "0 < n" "int n = listPageSize (lca_PageSize a)" by (simp_all add: n_def)
  have sub: "set (take n D) \<subseteq> {r\<in>set (rows (files d)). live_fil r \<and> fil_BucketID r = lca_BucketID a}"
    using set_take_subset[of n D] by (auto simp: D_def shown_files_def tfind_def file_in_def)
  have page: "reads d (loadCursor (loadFileRows (lca_BucketID a)) (take (Suc n) (map fil_ID D)) (int n))
      (Ok (take n D, if n < length D then dec (fil_ID (last (take n D))) else []))"
    using reads_loadCursor[of d "loadFileRows (lca_BucketID a)" n "map fil_ID D" "take n D"]
      reads_loadFileRows[OF assms(1) sub] n(1)
    by (auto simp: take_map EncodeKeysetID_def last_take_nth split: if_splits)
  have ids: "cursor_ids (lca_FileCursor a) (listPageSize (lca_PageSize a)) (map fil_ID (tfind
      (\<lambda>r. file_in (lca_BucketID a) fid r \<and> vis (fil_VisibleToGroups r)) (files d))) = take (Suc n) (map fil_ID D)"
    unfolding cursor_ids_map D_def shown_files_def n_def by (simp add: take_map)
  obtain ds nd where fold: "reads d (loadCursor (loadFolderRows (lca_BucketID a)) (cursor_ids (lca_FolderCursor a)
      (int n) (map fld_ID (tfind (\<lambda>r. folder_in (lca_BucketID a) fid r \<and>
      vis (fld_VisibleToGroups r)) (folders d)))) (int n)) (Ok (ds, nd))"
    using reads_cursorFolders by blast
  show ?thesis
    unfolding ListFilesCursor_def Let_def
    apply (rule exI[of _ ds], rule exI[of _ nd], rule reads_bind[OF assms(2)], unfold prod.case)
    apply (rule reads_bind[OF reads_query], unfold ids, rule reads_bind[OF reads_query])
    apply (rule reads_bind[OF page[unfolded n(2)]], unfold prod.case)
    apply (rule reads_bind[OF fold[unfolded n(2)]], unfold prod.case, rule reads_return)
    done
qed

section \<open>What a list shows\<close>

text \<open>The directory a path names, for a user who may see it and every folder above it.\<close>

definition open_dir :: "nat \<Rightarrow> nat \<Rightarrow> string \<Rightarrow> nat \<Rightarrow> db \<Rightarrow> bool" where
  "open_dir u b p fid d \<longleftrightarrow>
     (\<exists>dir fs. NormalizeDirPath p = Inr dir \<and> denotes d b 0 (path_segs dir) fid \<and> ancestors d b fid = Some fs \<and>
        (\<forall>g\<in>set fs. fld_Isable g \<noteq> FolderUnusable \<and> walk_visible u d (fld_VisibleToGroups g)))"

definition list_filter :: "(string \<Rightarrow> nat list option) \<Rightarrow> nat \<Rightarrow> db \<Rightarrow> string \<Rightarrow> bool" where
  "list_filter ji u d col \<longleftrightarrow> (\<exists>v. the_user u d = Some v \<and> visibilitySQL ji (Some v) (member_groups u d) col)"

lemma listVisibility_OkD:
  "listVisibilityPredicate ji u w = (Ok vis, w') \<Longrightarrow> wdb w' = wdb w \<and> vis = list_filter ji u (wdb w)"
  by (auto simp: listVisibilityPredicate_def userForVisibility_def list_filter_def fun_eq_iff dest: sym
      elim!: bindM_OkE dest!: okD orNotFound_OkD UserGroupIDs_OkD)

lemma ResolveDirPathStrict_OkD:
  assumes "ResolveDirPathStrict b p w = (Ok fid, w')"
  shows "wdb w' = wdb w \<and> denotes (wdb w) b 0 (path_segs p) fid"
proof -
  have "resolve_strict b 0 (split_on (CHR ''/'') p) w = (Ok fid, w')"
    using assms by (auto simp: ResolveDirPathStrict_def Let_def throwM_def split: if_splits)
  from valid_db_OkD[OF valid_resolve_strict[where J = "\<lambda>d. d = wdb w"] this]
  show ?thesis unfolding path_segs_def by metis
qed

lemma listBase_OkD:
  assumes "listBase ji u b p w = (Ok (fid, vis), w')" "acyclic (parent_rel (wdb w))"
  shows "wdb w' = wdb w \<and> open_dir u b p fid (wdb w) \<and> vis = list_filter ji u (wdb w)"
proof -
  from assms(1) obtain bk w1 dir w2 w3 x w4 where s: "CheckBucketUsable b w = (Ok bk, w1)"
    "liftM (NormalizeDirPath p) w1 = (Ok dir, w2)" "ResolveDirPathStrict b dir w2 = (Ok fid, w3)"
    "checkAncestorsAccessTree u b fid w3 = (Ok x, w4)" "listVisibilityPredicate ji u w4 = (Ok vis, w')"
    unfolding listBase_def by (auto elim!: bindM_OkE thenM_OkE dest!: return_OkD)
  have d: "wdb w1 = wdb w" by (rule keep_OkD[OF pres_CheckBucketUsable s(1)])
  have n: "NormalizeDirPath p = Inr dir" "w2 = w1" using liftM_OkD[OF s(2)] by auto
  have r: "wdb w3 = wdb w" "denotes (wdb w) b 0 (path_segs dir) fid"
    using ResolveDirPathStrict_OkD[OF s(3)] d n(2) by auto
  have c: "wdb w4 = wdb w" "\<exists>fs. ancestors (wdb w) b fid = Some fs \<and>
      (\<forall>g\<in>set fs. fld_Isable g \<noteq> FolderUnusable \<and> walk_visible u (wdb w) (fld_VisibleToGroups g))"
    using checkAncestorsAccessTree_Ok[OF s(4)] assms(2) r(1) by auto
  show ?thesis
    using listVisibility_OkD[OF s(5)] n(1) r(2) c unfolding open_dir_def by auto
qed

text \<open>The rows loaded for projected keys are the projected rows.\<close>

lemma by_id_sub: "set (by_id idOf rs is) \<subseteq> {r\<in>set rs. idOf r \<in> set is}"
  by (induction idOf rs "is" rule: by_id.induct) (auto simp: find_Some_iff split: option.splits)

lemma length_by_id: "length (by_id idOf rs is) \<le> length is"
  by (induction idOf rs "is" rule: by_id.induct) (auto split: option.splits)

lemma loadFileRows_OkD:
  "loadFileRows b is w = (Ok fs, w') \<Longrightarrow> wdb w' = wdb w \<and> length fs \<le> length is \<and>
     set fs \<subseteq> {r\<in>set (rows (files (wdb w))). live_fil r \<and> fil_ID r \<in> set is \<and> fil_BucketID r = b}"
  using by_id_sub[of fil_ID] length_by_id[of fil_ID]
  by (fastforce simp: loadFileRows_def tfind_def elim!: bindM_OkE dest!: okD split: if_splits)

lemma loadFolderRows_OkD:
  "loadFolderRows b is w = (Ok fs, w') \<Longrightarrow> wdb w' = wdb w \<and> length fs \<le> length is \<and>
     set fs \<subseteq> {r\<in>set (rows (folders (wdb w))). live_fld r \<and> fld_ID r \<in> set is \<and> fld_BucketID r = b}"
  using by_id_sub[of fld_ID] length_by_id[of fld_ID]
  by (fastforce simp: loadFolderRows_def tfind_def elim!: bindM_OkE dest!: okD split: if_splits)

lemma key_unique: "distinct (map k xs) \<Longrightarrow> x \<in> set xs \<Longrightarrow> y \<in> set xs \<Longrightarrow> k x = k y \<Longrightarrow> x = y"
  by (simp add: distinct_map inj_on_def)

lemma tree_keys: "db_inv d \<Longrightarrow> distinct (map fld_ID (rows (folders d))) \<and> distinct (map fil_ID (rows (files d)))"
  by (simp add: inv_defs)

text \<open>The keys that a list projects from the union of the two tables.\<close>

definition projects :: "nat \<Rightarrow> nat \<Rightarrow> (string \<Rightarrow> string \<Rightarrow> bool) \<Rightarrow> db \<Rightarrow> unionRow list \<Rightarrow> bool" where
  "projects b fid cond d rs \<longleftrightarrow> set rs \<subseteq> set (union_rows b fid cond d)"

lemma loadListRows_OkD:
  assumes "loadListRows b rs w = (Ok (fs, ds), w')" "projects b fid cond (wdb w) rs" "db_inv (wdb w)"
  shows "wdb w' = wdb w \<and> length fs + length ds \<le> length rs \<and>
    (\<forall>f\<in>set fs. f \<in> set (rows (files (wdb w))) \<and> file_in b fid f \<and> cond (fil_NameLower f) (fil_VisibleToGroups f)) \<and>
    (\<forall>g\<in>set ds. g \<in> set (rows (folders (wdb w))) \<and> folder_in b fid g \<and> cond (fld_NameLower g) (fld_VisibleToGroups g))"
proof -
  let ?fi = "map uro_ID (filter (\<lambda>r. uro_Kind r = ''file'') rs)" and ?di = "map uro_ID (filter (\<lambda>r. uro_Kind r \<noteq> ''file'') rs)"
  from assms(1) obtain w1 where f: "loadFileRows b ?fi w = (Ok fs, w1)" and g: "loadFolderRows b ?di w1 = (Ok ds, w')"
    by (auto simp: loadListRows_def elim!: bindM_OkE dest!: return_OkD)
  note f' = loadFileRows_OkD[OF f] and g' = loadFolderRows_OkD[OF g]
  have fi: "\<exists>r\<in>set (rows (files (wdb w))). fil_ID r = i \<and> file_in b fid r \<and> cond (fil_NameLower r) (fil_VisibleToGroups r)"
    if "i \<in> set ?fi" for i
    using that assms(2) by (fastforce simp: projects_def union_rows_def file_row_def folder_row_def tfind_def)
  have di: "\<exists>r\<in>set (rows (folders (wdb w))). fld_ID r = i \<and> folder_in b fid r \<and> cond (fld_NameLower r) (fld_VisibleToGroups r)"
    if "i \<in> set ?di" for i
    using that assms(2) by (fastforce simp: projects_def union_rows_def file_row_def folder_row_def tfind_def)
  have "f \<in> set (rows (files (wdb w))) \<and> file_in b fid f \<and> cond (fil_NameLower f) (fil_VisibleToGroups f)" if "f \<in> set fs" for f
  proof -
    have m: "f \<in> set (rows (files (wdb w)))" "fil_ID f \<in> set ?fi" using f' that by auto
    from fi[OF m(2)] m(1) tree_keys[OF assms(3)] show ?thesis using key_unique[of fil_ID] by metis
  qed
  moreover have "g \<in> set (rows (folders (wdb w))) \<and> folder_in b fid g \<and> cond (fld_NameLower g) (fld_VisibleToGroups g)"
    if "g \<in> set ds" for g
  proof -
    have m: "g \<in> set (rows (folders (wdb w)))" "fld_ID g \<in> set ?di" using f' g' that by auto
    from di[OF m(2)] m(1) tree_keys[OF assms(3)] show ?thesis using key_unique[of fld_ID] by metis
  qed
  moreover have "length ?fi + length ?di = length rs" by (simp add: sum_length_filter_compl)
  ultimately show ?thesis using f' g' by auto
qed

lemma set_page_of: "set (page_of p n xs) \<subseteq> set xs"
  unfolding page_of_def using set_take_subset set_drop_subset by (metis subset_trans)

lemma countListRows_OkD:
  "countListRows b fid cond w = (Ok n, w') \<Longrightarrow> wdb w' = wdb w \<and> n = length (union_rows b fid cond (wdb w))"
  by (auto simp: countListRows_def union_rows_def tcount_def tfind_def elim!: bindM_OkE dest!: okD)

section \<open>Properties\<close>

text \<open>A client that follows the file cursor to the end, in at most k calls.\<close>

fun walkFiles :: "nat \<Rightarrow> (string \<Rightarrow> nat list option) \<Rightarrow> ListFilesCursorArg \<Rightarrow> File list W" where
  "walkFiles 0 ji a = hangM"
| "walkFiles (Suc k) ji a =
     bindM (ListFilesCursor ji a) (\<lambda>(fs, ds, nf, nd).
     if nf = [] then returnM fs
     else bindM (walkFiles k ji (a\<lparr>lca_FileCursor := nf\<rparr>)) (\<lambda>rest. returnM (fs @ rest)))"

lemma KeysetIDCond_below: "KeysetIDCond c i \<Longrightarrow> j < i \<Longrightarrow> KeysetIDCond c j"
  by (auto simp: KeysetIDCond_def Let_def)

lemma reads_walkFiles:
  assumes ok: "files_ok d" "\<forall>r\<in>set (rows (files d)). fil_ID r < 2 ^ 64"
    and base: "reads d (listBase ji (lca_UserID a) (lca_BucketID a) (lca_DirPath a)) (Ok (fid, vis))"
  defines "F \<equiv> shown_files (lca_BucketID a) fid vis d"
  shows "length (filter (\<lambda>r. KeysetIDCond c (fil_ID r)) F) < k \<Longrightarrow>
    reads d (walkFiles k ji (a\<lparr>lca_FileCursor := c\<rparr>)) (Ok (filter (\<lambda>r. KeysetIDCond c (fil_ID r)) F))"
proof (induction k arbitrary: c)
  case (Suc k)
  let ?D = "filter (\<lambda>r. KeysetIDCond c (fil_ID r)) F" and ?n = "nat (listPageSize (lca_PageSize a))"
  obtain ds nd where pg: "reads d (ListFilesCursor ji (a\<lparr>lca_FileCursor := c\<rparr>))
      (Ok (take ?n ?D, ds, if ?n < length ?D then dec (fil_ID (last (take ?n ?D))) else [], nd))"
    using reads_ListFilesCursor[OF ok(1), of ji "a\<lparr>lca_FileCursor := c\<rparr>" fid vis] base unfolding F_def by fastforce
  show ?case
  proof (cases "?n < length ?D")
    case False
    then show ?thesis
      unfolding walkFiles.simps by (intro reads_bind[OF pg]) (simp add: reads_return)
  next
    case True
    let ?l = "last (take ?n ?D)"
    have n: "0 < ?n" by simp
    have srt: "sorted_wrt (\<lambda>x y. fil_ID y < fil_ID x) ?D"
      using shown_files_desc[OF ok(1)] by (auto simp: F_def intro: sorted_wrt_filter)
    have "?l \<in> set ?D"
      using True n by (metis in_set_takeD last_in_set length_0_conv length_take list.size(3) min.absorb3 not_less0 take_eq_Nil)
    then have l: "?l \<in> set (rows (files d))" "KeysetIDCond c (fil_ID ?l)"
      by (auto simp: F_def shown_files_def tfind_def)
    then have "0 < fil_ID ?l" "fil_ID ?l < 2 ^ 64" using ok by (auto simp: files_ok_def)
    then have cond: "KeysetIDCond (dec (fil_ID ?l)) i \<longleftrightarrow> i < fil_ID ?l" for i
      by (simp add: KeysetIDCond_def DecodeKeysetID_dec)
    have "filter (\<lambda>r. KeysetIDCond (dec (fil_ID ?l)) (fil_ID r)) F = filter (\<lambda>r. fil_ID r < fil_ID ?l) ?D"
      unfolding filter_filter cond by (rule filter_cong[OF refl]) (use KeysetIDCond_below[OF l(2)] in blast)
    also have "\<dots> = drop ?n ?D" using below_last[OF srt n] True by simp
    finally have rest: "filter (\<lambda>r. KeysetIDCond (dec (fil_ID ?l)) (fil_ID r)) F = drop ?n ?D" .
    have "reads d (walkFiles k ji (a\<lparr>lca_FileCursor := dec (fil_ID ?l)\<rparr>)) (Ok (drop ?n ?D))"
    proof -
      have "length (drop ?n ?D) < k" unfolding length_drop using Suc.prems True n by linarith
      from Suc.IH[of "dec (fil_ID ?l)", unfolded rest, OF this] show ?thesis .
    qed
    from reads_bind[OF this, of "\<lambda>rest. returnM (take ?n ?D @ rest)", OF reads_return] show ?thesis
      using True unfolding walkFiles.simps by (intro reads_bind[OF pg]) simp
  qed
qed simp

text \<open>C28: a client that follows the file cursors of a directory listing to the end, in an installation
  at rest, gets every live file of the directory that its user may see, each exactly once, the newest
  key first, whatever page size it asks for, and needs at most one call per file and one more.\<close>

theorem ListFilesCursor_complete:
  assumes "\<forall>t. \<not> fault w t" "files_ok (wdb w)" "\<forall>r\<in>set (rows (files (wdb w))). fil_ID r < 2 ^ 64"
    and "listBase ji (lca_UserID a) (lca_BucketID a) (lca_DirPath a) w = (Ok (fid, vis), w1)"
    and "lca_FileCursor a = []"
  shows "\<exists>fs. fst (walkFiles (Suc (length fs)) ji a w) = Ok fs \<and> sorted_wrt (\<lambda>x y. fil_ID y < fil_ID x) fs \<and>
    set fs = {f\<in>set (rows (files (wdb w))). file_in (lca_BucketID a) fid f \<and> vis (fil_VisibleToGroups f)}"
proof -
  have c: "calm w" using assms(1) by (simp add: calm_def)
  let ?fs = "shown_files (lca_BucketID a) fid vis (wdb w)"
  have all: "filter (\<lambda>r. KeysetIDCond [] (fil_ID r)) ?fs = ?fs"
    by (simp add: KeysetIDCond_def DecodeKeysetID_def TrimSpace_one)
  have "reads (wdb w) (walkFiles (Suc (length ?fs)) ji (a\<lparr>lca_FileCursor := []\<rparr>)) (Ok ?fs)"
    using reads_walkFiles[OF assms(2,3) reads_readsI[OF steady_listBase c refl assms(4)], of "[]" "Suc (length ?fs)"]
    by (simp add: all)
  then have "fst (walkFiles (Suc (length ?fs)) ji a w) = Ok ?fs"
    using c assms(5) by (cases a) (auto simp: reads_def)
  then show ?thesis
    using shown_files_desc[OF assms(2)] by (intro exI[of _ ?fs]) (simp add: shown_files_def tfind_def conj_commute)
qed

text \<open>C27: a directory listing shows only live entries of the directory the path names that carry the
  searched prefix and that the list filter admits for the user, who may see the whole chain of folders;
  a page is no longer than asked for, and the total counts exactly the entries that satisfy these
  conditions.\<close>

theorem ListFiles_shows:
  assumes "ListFiles likes ji a w = (Ok (fs, ds, tot), w')" "db_inv (wdb w)"
  defines "d \<equiv> wdb w"
    and "ok \<equiv> \<lambda>name col. key_cond likes (lfa_Key a) name \<and> list_filter ji (lfa_UserID a) (wdb w) col"
  shows "wdb w' = d \<and> (\<exists>fid. open_dir (lfa_UserID a) (lfa_BucketID a) (lfa_DirPath a) fid d \<and>
    (\<forall>f\<in>set fs. f \<in> set (rows (files d)) \<and> file_in (lfa_BucketID a) fid f \<and> ok (fil_NameLower f) (fil_VisibleToGroups f)) \<and>
    (\<forall>g\<in>set ds. g \<in> set (rows (folders d)) \<and> folder_in (lfa_BucketID a) fid g \<and> ok (fld_NameLower g) (fld_VisibleToGroups g)) \<and>
    int (length fs + length ds) \<le> listPageSize (lfa_PageSize a) \<and>
    tot = length (union_rows (lfa_BucketID a) fid ok d))"
proof -
  from assms(1) obtain fid vis w1 rs w2 w3 where s:
    "listBase ji (lfa_UserID a) (lfa_BucketID a) (lfa_DirPath a) w = (Ok (fid, vis), w1)"
    "queryDB (\<lambda>d. page_of (normPage (lfa_Page a)) (listPageSize (lfa_PageSize a)) (order_rows (direction (lfa_Order a))
       (union_rows (lfa_BucketID a) fid (\<lambda>name col. key_cond likes (lfa_Key a) name \<and> vis col) d))) w1 = (Ok rs, w2)"
    "loadListRows (lfa_BucketID a) rs w2 = (Ok (fs, ds), w3)"
    "countListRows (lfa_BucketID a) fid (\<lambda>name col. key_cond likes (lfa_Key a) name \<and> vis col) w3 = (Ok tot, w')"
    unfolding ListFiles_def Let_def by (auto elim!: bindM_OkE dest!: return_OkD)
  have b: "wdb w1 = d" "open_dir (lfa_UserID a) (lfa_BucketID a) (lfa_DirPath a) fid d"
    "(\<lambda>name col. key_cond likes (lfa_Key a) name \<and> vis col) = ok"
    using listBase_OkD[OF s(1) db_inv_acyclic[OF assms(2)]] by (auto simp: d_def ok_def)
  have q: "wdb w2 = d" "projects (lfa_BucketID a) fid ok (wdb w2) rs" "length rs \<le> nat (listPageSize (lfa_PageSize a))"
    using queryDB_OkD[OF s(2)] b(1,3) set_page_of by (fastforce simp: projects_def order_rows_def page_of_def)+
  have "db_inv (wdb w2)" using assms(2) q(1) by (simp add: d_def)
  note l = loadListRows_OkD[OF s(3) q(2) this]
  have len: "int (length fs + length ds) \<le> listPageSize (lfa_PageSize a)"
    using l q(3) listPageSize_bounds(3)[of "lfa_PageSize a"] by linarith
  show ?thesis
    using l countListRows_OkD[OF s(4)] q(1,3) b(2,3) len by (intro conjI exI[of _ fid]) auto
qed

theorem ListFiles_shows_witness:
  "\<exists>ds w'. ListFiles (\<lambda>p n. True) json_uints
     \<lparr>lfa_UserID = 3, lfa_BucketID = 1, lfa_DirPath = [], lfa_Page = 1, lfa_PageSize = 50, lfa_Key = [], lfa_Order = []\<rparr> sample =
     (Ok ([], ds, 0), w') \<and> open_dir 3 1 [] 0 sample_db"
proof -
  let ?a = "\<lparr>lfa_UserID = 3, lfa_BucketID = 1, lfa_DirPath = [], lfa_Page = 1, lfa_PageSize = 50, lfa_Key = [], lfa_Order = []\<rparr>"
  have "fst (ListFiles (\<lambda>p n. True) json_uints ?a sample) = Ok ([], [], 0)" by code_simp
  then obtain w' where r: "ListFiles (\<lambda>p n. True) json_uints ?a sample = (Ok ([], [], 0), w')" by (metis prod.collapse)
  obtain fid where o: "open_dir 3 1 [] fid sample_db"
    using ListFiles_shows[OF r] sample_inv by auto
  moreover have "NormalizeDirPath [] = Inr ''/''" "path_segs ''/'' = []" by code_simp+
  ultimately have "open_dir 3 1 [] 0 sample_db" by (auto simp: open_dir_def)
  with r show ?thesis by blast
qed

text \<open>Files 7 and 9 of user 1 in the root of the bucket, and file 5 in the recycle bin.\<close>

definition list_world :: world where
  "list_world = calm_world (sample_db\<lparr>files := \<lparr>rows = [sample_file\<lparr>fil_ID := 7, fil_FolderID := 0\<rparr>,
     sample_file\<lparr>fil_ID := 9, fil_FolderID := 0, fil_Name := ''z'', fil_NameLower := ''z''\<rparr>,
     sample_file\<lparr>fil_ID := 5, fil_FolderID := 0, fil_DeletedAt := Some 1\<rparr>], seq = 10\<rparr>\<rparr>) (\<lambda>_. None)"

definition list_arg :: ListFilesCursorArg where
  "list_arg = \<lparr>lca_UserID = 1, lca_BucketID = 1, lca_DirPath = ''/'', lca_FileCursor = [], lca_FolderCursor = [],
     lca_PageSize = 1\<rparr>"

lemma image_filter_set: "f ` {x\<in>set xs. P x} = set (map f (filter P xs))"
  by auto

theorem ListFilesCursor_complete_witness:
  "\<exists>fs. fst (walkFiles (Suc (length fs)) json_uints list_arg list_world) = Ok fs \<and> fil_ID ` set fs = {7, 9}"
proof -
  have "map_outcome (\<lambda>_. ()) (fst (listBase json_uints 1 1 ''/'' list_world)) = Ok ()" by code_simp
  then obtain fid vis w1 where b: "listBase json_uints 1 1 ''/'' list_world = (Ok (fid, vis), w1)"
    by (cases "listBase json_uints 1 1 ''/'' list_world"; cases "fst (listBase json_uints 1 1 ''/'' list_world)") auto
  have "map_outcome (\<lambda>(i, v). (i, v [])) (fst (listBase json_uints 1 1 ''/'' list_world)) = Ok (0, True)" by code_simp
  with b have fv: "fid = 0" "vis []" by auto
  have ok: "files_ok (wdb list_world)" "\<forall>r\<in>set (rows (files (wdb list_world))). fil_ID r < 2 ^ 64"
    by (simp_all add: list_world_def files_ok_def sample_file_def)
  obtain fs where fs: "fst (walkFiles (Suc (length fs)) json_uints list_arg list_world) = Ok fs"
    "set fs = {f\<in>set (rows (files (wdb list_world))). file_in 1 fid f \<and> vis (fil_VisibleToGroups f)}"
    using ListFilesCursor_complete[OF _ ok, of json_uints list_arg fid vis w1] b
    by (auto simp: list_arg_def list_world_def calm_world_def)
  moreover have "fil_ID ` set fs = {7, 9}"
    unfolding fs(2) image_filter_set using fv by (simp add: list_world_def file_in_def live_fil_def sample_file_def)
  ultimately show ?thesis by blast
qed

end
