(* ===== verification/Sharing.thy ===== *)
theory Sharing
  imports UserGroups Listing DeleteTasks
begin

text \<open>
  Share links (server/share.go) and the public access through them (server/share_access.go).  An
  expiry of None is the zero time of the code, and means for ever.
\<close>

section \<open>Tokens and loads by key\<close>

definition digit62 :: "nat \<Rightarrow> char" where
  "digit62 k = ''0123456789abcdefghijklmnopqrstuvwxyzABCDEFGHIJKLMNOPQRSTUVWXYZ'' ! k"

fun base62 :: "nat \<Rightarrow> string" where
  "base62 n = (if n < 62 then [digit62 n] else base62 (n div 62) @ [digit62 (n mod 62)])"

declare base62.simps [simp del]

definition big_endian :: "byte list \<Rightarrow> nat" where
  "big_endian bs = foldl (\<lambda>a b. a * 256 + unat b) 0 bs"

definition generateShareToken :: "crypto \<Rightarrow> string W" where
  "generateShareToken cr =
     bindM (drawM (cr_Rand cr)) (\<lambda>r.
     case r of None \<Rightarrow> throwM ErrInternal | Some bs \<Rightarrow> returnM (base62 (big_endian (take 8 bs))))"

definition loadFileByID :: "nat \<Rightarrow> File W" where
  "loadFileByID fileID =
     bindM (queryDB (\<lambda>d. tfirst (\<lambda>r. live_fil r \<and> fil_ID r = fileID) (files d))) orNotFound"

section \<open>Share links\<close>

record CreateShareArg =
  csh_UserID :: nat
  csh_FileID :: nat
  csh_ExpiresAt :: "time option"
  csh_MaxDownloads :: int
  csh_Password :: string

text \<open>The table of the shared key: folders before files, and an error of a query is a miss.\<close>

definition itemTypeOf :: "nat \<Rightarrow> string W" where
  "itemTypeOf i =
     bindM (tryM (loadFolderByID i)) (\<lambda>r.
     case r of
       Inr _ \<Rightarrow> returnM ItemKindFolder
     | Inl _ \<Rightarrow>
         bindM (tryM (loadFileByID i)) (\<lambda>r.
         case r of Inr _ \<Rightarrow> returnM ItemKindFile | Inl _ \<Rightarrow> throwM ErrNotFound))"

text \<open>At most n draws of a token that no live share has.\<close>

fun unusedToken :: "nat \<Rightarrow> crypto \<Rightarrow> string W" where
  "unusedToken 0 cr = throwM ErrInternal"
| "unusedToken (Suc n) cr =
     bindM (generateShareToken cr) (\<lambda>t.
     bindM (queryDB (\<lambda>d. tcount (\<lambda>r. live_shr r \<and> shr_Token r = t) (shares d))) (\<lambda>cnt.
     if cnt = 0 then returnM t else unusedToken n cr))"

definition sharePassword :: "crypto \<Rightarrow> string \<Rightarrow> string W" where
  "sharePassword cr pw = (if pw = [] then returnM [] else hashPassword cr pw)"

definition new_share :: "CreateShareArg \<Rightarrow> string \<Rightarrow> string \<Rightarrow> string \<Rightarrow> time \<Rightarrow> nat \<Rightarrow> ShareLink" where
  "new_share a kind token hash now i =
     \<lparr>shr_ID = i, shr_CreatedAt = now, shr_DeletedAt = None, shr_BucketItemID = csh_FileID a, shr_ItemType = kind,
      shr_CreatorID = csh_UserID a, shr_Token = token, shr_Permission = ''read'', shr_ExpiresAt = csh_ExpiresAt a,
      shr_MaxDownloads = csh_MaxDownloads a, shr_DownloadCount = 0, shr_Password = hash\<rparr>"

text \<open>The token is unique over all rows, the deleted ones too.\<close>

definition createShareRow :: "(nat \<Rightarrow> ShareLink) \<Rightarrow> ShareLink option W" where
  "createShareRow mk = tryExecDB (\<lambda>d.
     let t = tcreate mk (shares d) in
     if distinct (map shr_Token (rows t)) then Some (mk (seq (shares d)), d\<lparr>shares := t\<rparr>) else None)"

definition CreateShare :: "crypto \<Rightarrow> CreateShareArg \<Rightarrow> ShareLink W" where
  "CreateShare cr a =
     (if csh_FileID a = 0 then throwM ErrInvalidInput
      else if csh_MaxDownloads a < 0 then throwM ErrInvalidInput
      else if length (csh_Password a) > 32 then throwM ErrInvalidInput
      else
        bindM (itemTypeOf (csh_FileID a)) (\<lambda>kind.
        bindM (unusedToken 5 cr) (\<lambda>token.
        bindM (sharePassword cr (csh_Password a)) (\<lambda>hash.
        bindM (getsM clock) (\<lambda>now.
        bindM (createShareRow (new_share a kind token hash now)) (\<lambda>r.
        case r of None \<Rightarrow> throwM ErrInternal | Some s \<Rightarrow> returnM (s\<lparr>shr_Password := []\<rparr>)))))))"

definition GetShareByToken :: "string \<Rightarrow> ShareLink W" where
  "GetShareByToken token =
     (if TrimSpace token = [] then throwM ErrInvalidInput
      else bindM (queryDB (\<lambda>d. tfirst (\<lambda>r. live_shr r \<and> shr_Token r = token) (shares d))) orNotFound)"

definition ListShares ::
  "(string \<Rightarrow> string \<Rightarrow> bool) \<Rightarrow> (string \<Rightarrow> ShareLink list \<Rightarrow> ShareLink list) \<Rightarrow> nat \<Rightarrow> int \<Rightarrow> int \<Rightarrow>
   (nat \<times> ShareLink list) W" where
  "ListShares likes orderby userID page pageSize =
     bindM (PageQuery likes orderby (\<lambda>d. tfind live_shr (shares d)) shr_ID shr_CreatedAt
       [\<lambda>r. shr_CreatorID r = userID] [] (newest_first page pageSize) None) (\<lambda>res.
     returnM (pr_Total res, map (\<lambda>s. s\<lparr>shr_Password := []\<rparr>) (pr_List res)))"

definition the_share :: "nat \<Rightarrow> db \<Rightarrow> ShareLink option" where
  "the_share i d = tfirst (\<lambda>r. live_shr r \<and> shr_ID r = i) (shares d)"

definition LoadShare :: "nat \<Rightarrow> ShareLink W" where
  "LoadShare shareID = bindM (queryDB (the_share shareID)) orNotFound"

record UpdateShareInput =
  ush_Permission :: "string option"
  ush_ExpiresAt :: "time option option"
  ush_MaxDownloads :: "int option"
  ush_Password :: "string option"

definition set_shr_permission :: "ShareLink \<Rightarrow> ShareLink" where "set_shr_permission s = s\<lparr>shr_Permission := ''read''\<rparr>"
definition set_shr_expires :: "time option \<Rightarrow> ShareLink \<Rightarrow> ShareLink" where "set_shr_expires e s = s\<lparr>shr_ExpiresAt := e\<rparr>"
definition set_shr_max :: "int \<Rightarrow> ShareLink \<Rightarrow> ShareLink" where "set_shr_max n s = s\<lparr>shr_MaxDownloads := n\<rparr>"
definition set_shr_password :: "string \<Rightarrow> ShareLink \<Rightarrow> ShareLink" where "set_shr_password h s = s\<lparr>shr_Password := h\<rparr>"

definition set_given :: "'a option \<Rightarrow> ('a \<Rightarrow> 'r \<Rightarrow> 'r) \<Rightarrow> ('r \<Rightarrow> 'r) list" where
  "set_given v f = (case v of None \<Rightarrow> [] | Some x \<Rightarrow> [f x])"

definition shareUpdates :: "crypto \<Rightarrow> UpdateShareInput \<Rightarrow> (ShareLink \<Rightarrow> ShareLink) list W" where
  "shareUpdates cr i =
     bindM (set_checked (ush_MaxDownloads i) (\<lambda>n. \<not> n < 0) set_shr_max) (\<lambda>u1.
     bindM (case ush_Password i of
         None \<Rightarrow> returnM []
       | Some pw \<Rightarrow> bindM (sharePassword cr pw) (\<lambda>h. returnM [set_shr_password h])) (\<lambda>u2.
     returnM (set_given (ush_Permission i) (\<lambda>_. set_shr_permission) @
       set_given (ush_ExpiresAt i) set_shr_expires @ u1 @ u2)))"

definition update_share :: "nat \<Rightarrow> (ShareLink \<Rightarrow> ShareLink) \<Rightarrow> db \<Rightarrow> db" where
  "update_share i f d = d\<lparr>shares := tupdate (\<lambda>r. live_shr r \<and> shr_ID r = i) f (shares d)\<rparr>"

text \<open>The error of the last query is handed on as it is: a deleted share is not ErrNotFound here.\<close>

definition UpdateShare :: "crypto \<Rightarrow> nat \<Rightarrow> UpdateShareInput \<Rightarrow> ShareLink W" where
  "UpdateShare cr shareID i =
     bindM (LoadShare shareID) (\<lambda>_.
     bindM (shareUpdates cr i) (\<lambda>upd.
     if upd = [] then throwM ErrInvalidInput
     else
       thenM (execDB (update_share shareID (fold (\<lambda>f. f) upd)))
       (bindM (queryDB (the_share shareID)) (\<lambda>r.
        case r of None \<Rightarrow> throwM ErrInternal | Some s \<Rightarrow> returnM (s\<lparr>shr_Password := []\<rparr>)))))"

definition delete_share :: "nat \<Rightarrow> time \<Rightarrow> db \<Rightarrow> nat \<times> db" where
  "delete_share i now d =
     (tcount (\<lambda>r. live_shr r \<and> shr_ID r = i) (shares d), update_share i (\<lambda>r. r\<lparr>shr_DeletedAt := Some now\<rparr>) d)"

definition DeleteShare :: "nat \<Rightarrow> unit W" where
  "DeleteShare shareID =
     bindM (LoadShare shareID) (\<lambda>_.
     bindM (getsM clock) (\<lambda>now.
     bindM (execRet (delete_share shareID now)) (\<lambda>n.
     if n = 0 then throwM ErrNotFound else returnM ())))"

section \<open>Access\<close>

definition shareExpired :: "ShareLink \<Rightarrow> time \<Rightarrow> bool" where
  "shareExpired s now \<longleftrightarrow> (case shr_ExpiresAt s of None \<Rightarrow> False | Some e \<Rightarrow> e < now)"

text \<open>The shared item is a file or a folder; whatever error its load ends with is ErrNotFound.\<close>

definition sharedItem :: "ShareLink \<Rightarrow> (File + Folder) W" where
  "sharedItem s =
     bindM (tryM (if shr_ItemType s = ItemKindFolder
                  then bindM (loadFolderByID (shr_BucketItemID s)) (\<lambda>g. returnM (Inr g))
                  else bindM (loadFileByID (shr_BucketItemID s)) (\<lambda>f. returnM (Inl f)))) (\<lambda>r.
     case r of Inl _ \<Rightarrow> throwM ErrNotFound | Inr x \<Rightarrow> returnM x)"

definition checkShare :: "crypto \<Rightarrow> string \<Rightarrow> string \<Rightarrow> (ShareLink \<times> (File + Folder)) W" where
  "checkShare cr token password =
     bindM (GetShareByToken token) (\<lambda>s.
     bindM (getsM clock) (\<lambda>now.
     if shareExpired s now then throwM ErrNotFound
     else if shr_Password s \<noteq> [] \<and> \<not> cr_Compare cr (shr_Password s) password then throwM ErrUnauthorized
     else bindM (sharedItem s) (\<lambda>x. returnM (s, x))))"

definition ResolveShare :: "crypto \<Rightarrow> string \<Rightarrow> string \<Rightarrow> (File + Folder) W" where
  "ResolveShare cr token password = bindM (checkShare cr token password) (\<lambda>(s, x). returnM x)"

definition relPathOf :: "string \<Rightarrow> string" where
  "relPathOf p = trim_char (CHR ''/'') (TrimSpace p)"

fun locate_segs :: "nat \<Rightarrow> nat \<Rightarrow> string list \<Rightarrow> File W" where
  "locate_segs bucketID cur [] = throwM ErrNotFound"
| "locate_segs bucketID cur [name] =
     bindM (queryDB (\<lambda>d. tfirst (file_named bucketID cur (ToLower name)) (files d))) orNotFound"
| "locate_segs bucketID cur (seg # rest) =
     bindM (queryDB (child_named bucketID cur seg)) (\<lambda>r.
     bindM (orNotFound r) (\<lambda>sub. locate_segs bucketID (fld_ID sub) rest))"

definition locateSharedFileNew :: "Folder \<Rightarrow> string \<Rightarrow> File W" where
  "locateSharedFileNew root relPath =
     (let p = relPathOf relPath; segs = split_on (CHR ''/'') p in
      if p = [] then throwM ErrInvalidInput
      else bindM (liftM (ValidateItemName (last segs))) (\<lambda>_. locate_segs (fld_BucketID root) (fld_ID root) segs))"

definition resolveSharedFile :: "crypto \<Rightarrow> string \<Rightarrow> string \<Rightarrow> string \<Rightarrow> (ShareLink \<times> File) W" where
  "resolveSharedFile cr token password relPath =
     bindM (checkShare cr token password) (\<lambda>(s, x).
     bindM (case x of Inl f \<Rightarrow> returnM f | Inr g \<Rightarrow> locateSharedFileNew g relPath) (\<lambda>f.
     thenM (checkAncestorsUsable (fil_BucketID f) (fil_FolderID f)) (returnM (s, f))))"

definition DownloadSharedFile :: "crypto \<Rightarrow> string \<Rightarrow> string \<Rightarrow> string \<Rightarrow> (byte list \<times> File) W" where
  "DownloadSharedFile cr token password relPath =
     bindM (resolveSharedFile cr token password relPath) (\<lambda>(s, f).
     bindM (GetBucket (fil_BucketID f)) (\<lambda>b.
     bindM (objectOf (storageGet (BucketEncoder (bkt_ID b)) (objectKeyForFile (fil_ID f)))) (\<lambda>rc.
     returnM (rc, f))))"

definition SharedFileMeta :: "crypto \<Rightarrow> string \<Rightarrow> string \<Rightarrow> string \<Rightarrow> File W" where
  "SharedFileMeta cr token password relPath =
     bindM (resolveSharedFile cr token password relPath) (\<lambda>(s, f). returnM f)"

definition DownloadSharedFileRange ::
  "crypto \<Rightarrow> string \<Rightarrow> string \<Rightarrow> string \<Rightarrow> int \<Rightarrow> int \<Rightarrow> (byte list \<times> File) W" where
  "DownloadSharedFileRange cr token password relPath start en =
     bindM (resolveSharedFile cr token password relPath) (\<lambda>(s, f).
     thenM (checkRange start en (fil_FileSize f))
     (bindM (GetBucket (fil_BucketID f)) (\<lambda>b.
      bindM (objectOf (storageGetRange (BucketEncoder (bkt_ID b)) (objectKeyForFile (fil_ID f)) start en)) (\<lambda>rc.
      returnM (rc, f)))))"

fun descend :: "nat \<Rightarrow> nat \<Rightarrow> string list \<Rightarrow> nat W" where
  "descend bucketID cur [] = returnM cur"
| "descend bucketID cur (seg # rest) =
     bindM (queryDB (child_named bucketID cur seg)) (\<lambda>r.
     bindM (orNotFound r) (\<lambda>sub. descend bucketID (fld_ID sub) rest))"

record ListSharedDirArg =
  lsd_Token :: string
  lsd_Password :: string
  lsd_RelPath :: string
  lsd_Page :: int
  lsd_PageSize :: int

text \<open>ORDER BY created_at DESC: entries created at the same time are in the order of the union.\<close>

definition ListSharedDir :: "crypto \<Rightarrow> ListSharedDirArg \<Rightarrow> (File list \<times> Folder list \<times> nat) W" where
  "ListSharedDir cr a =
     bindM (checkShare cr (lsd_Token a) (lsd_Password a)) (\<lambda>(s, x).
     case x of
       Inl _ \<Rightarrow> throwM ErrInvalidInput
     | Inr root \<Rightarrow>
         let b = fld_BucketID root; p = relPathOf (lsd_RelPath a); all = (\<lambda>name col. True) in
         bindM (if p = [] then returnM (fld_ID root) else descend b (fld_ID root) (split_on (CHR ''/'') p)) (\<lambda>target.
         thenM (checkAncestorsUsable b target)
         (bindM (queryDB (\<lambda>d. page_of (normPage (lsd_Page a)) (listPageSize (lsd_PageSize a))
             (sort_key (\<lambda>r. - int (uro_CreatedAt r)) (union_rows b target all d)))) (\<lambda>rs.
          bindM (countListRows b target all) (\<lambda>tot.
          bindM (loadListRows b rs) (\<lambda>(fs, ds).
          returnM (fs, ds, tot)))))))"

section \<open>Lemmas\<close>

lemma pres_share_reads [pres]:
  "preserves (onDB J) (loadFileByID i)" "preserves (onDB J) (itemTypeOf i)" "preserves (onDB J) (generateShareToken cr)"
  "preserves (onDB J) (sharePassword cr pw)" "preserves (onDB J) (GetShareByToken t)" "preserves (onDB J) (LoadShare i)"
  "preserves (onDB J) (ListShares lk ob u p n)" "preserves (onDB J) (sharedItem s)"
  unfolding loadFileByID_def itemTypeOf_def generateShareToken_def sharePassword_def GetShareByToken_def LoadShare_def
    ListShares_def sharedItem_def
  by (intro pres)+

lemma pres_unusedToken [pres]: "preserves (onDB J) (unusedToken n cr)"
  by (induction n) (auto intro!: pres)

lemma pres_shareUpdates [pres]: "preserves (onDB J) (shareUpdates cr i)"
  unfolding shareUpdates_def set_checked_def by (intro pres)

lemma pres_locate [pres]: "preserves (onDB J) (locate_segs b c ss)" "preserves (onDB J) (descend b c ss)"
proof -
  show "preserves (onDB J) (locate_segs b c ss)"
    by (induction b c ss rule: locate_segs.induct) (auto intro!: pres)
  show "preserves (onDB J) (descend b c ss)"
    by (induction b c ss rule: descend.induct) (auto intro!: pres)
qed

lemma pres_share_access [pres]:
  "preserves (onDB J) (checkShare cr t p)" "preserves (onDB J) (ResolveShare cr t p)"
  "preserves (onDB J) (locateSharedFileNew g q)" "preserves (onDB J) (resolveSharedFile cr t p q)"
  "preserves (onDB J) (DownloadSharedFile cr t p q)" "preserves (onDB J) (SharedFileMeta cr t p q)"
  "preserves (onDB J) (DownloadSharedFileRange cr t p q i j)" "preserves (onDB J) (ListSharedDir cr a)"
  unfolding checkShare_def ResolveShare_def locateSharedFileNew_def resolveSharedFile_def DownloadSharedFile_def
    SharedFileMeta_def DownloadSharedFileRange_def ListSharedDir_def objectOf_def checkRange_def countListRows_def Let_def
  by (intro pres)+

lemma pres_shares [pres]:
  "preserves (onDB db_inv) (CreateShare cr a)" "preserves (onDB db_inv) (UpdateShare cr i inp)"
  "preserves (onDB db_inv) (DeleteShare i)"
proof -
  have "preserves (onDB db_inv) (createShareRow mk)" for mk
    unfolding createShareRow_def by (rule pres_tryExec) (auto simp: Let_def split: if_splits)
  then show "preserves (onDB db_inv) (CreateShare cr a)" unfolding CreateShare_def by (intro pres)
  show "preserves (onDB db_inv) (UpdateShare cr i inp)"
    unfolding UpdateShare_def by (intro pres pres_exec) (simp add: update_share_def)
  show "preserves (onDB db_inv) (DeleteShare i)"
    unfolding DeleteShare_def by (intro pres pres_execRet) (simp add: delete_share_def update_share_def)
qed

lemma usable_loop_Ok:
  "checkAncestorsUsable_loop n b c w = (Ok x, w') \<Longrightarrow>
   \<exists>fs. chain n (wdb w) b c = Some fs \<and> (\<forall>g\<in>set fs. fld_Isable g \<noteq> FolderUnusable)"
proof (induction n arbitrary: c w)
  case 0
  then show ?case
    by (subst (asm) checkAncestorsUsable_loop.simps) (auto simp: hangM_def split: if_splits)
next
  case (Suc n)
  show ?case
  proof (cases "c = 0")
    case False
    with Suc.prems obtain f w1 where f: "loadFolder b c w = (Ok f, w1)" "fld_Isable f \<noteq> FolderUnusable"
      and l: "checkAncestorsUsable_loop n b (fld_ParentID f) w1 = (Ok x, w')"
      by (subst (asm) checkAncestorsUsable_loop.simps) (auto elim!: bindM_OkE dest: throw_OkD split: if_splits)
    have d: "the_folder b c (wdb w) = Some f" "wdb w1 = wdb w" using loadFolder_OkD[OF f(1)] by auto
    from Suc.IH[OF l] obtain fs where "chain n (wdb w) b (fld_ParentID f) = Some fs" "\<forall>g\<in>set fs. fld_Isable g \<noteq> FolderUnusable"
      using d(2) by auto
    then show ?thesis using chain_step[OF False d(1)] f(2) by auto
  qed simp
qed

lemma checkAncestorsUsable_OkD:
  assumes "checkAncestorsUsable b c w = (Ok x, w')"
  shows "\<exists>fs. ancestors (wdb w) b c = Some fs \<and> (\<forall>g\<in>set fs. fld_Isable g \<noteq> FolderUnusable)"
proof -
  have "checkAncestorsUsable_loop (Suc (length (rows (folders (wdb w))))) b c w = (Ok x, w')"
    using assms by (simp add: checkAncestorsUsable_def folderCount_def bindM_def getsM_def)
  from usable_loop_Ok[OF this] show ?thesis by (simp add: ancestors_def)
qed

lemma denotes_below: "denotes d b p ss i \<Longrightarrow> (i, p) \<in> (parent_rel d)\<^sup>*"
proof (induction ss arbitrary: p)
  case (Cons s ss)
  then obtain f where f: "child_named b p s d = Some f" "denotes d b (fld_ID f) ss i" by (auto split: option.splits)
  have "f \<in> set (rows (folders d)) \<and> fld_ParentID f = p" using child_named_row[OF f(1)] by (auto simp: folder_named_def)
  then have "(fld_ID f, p) \<in> parent_rel d" by (auto simp: parent_rel_def)
  with Cons.IH[OF f(2)] show ?case by (rule rtrancl_into_rtrancl)
qed simp

lemma descend_OkD: "descend b c ss w = (Ok i, w') \<Longrightarrow> wdb w' = wdb w \<and> denotes (wdb w) b c ss i"
proof (induction ss arbitrary: c w)
  case (Cons s ss)
  then obtain f w1 where q: "queryDB (child_named b c s) w = (Ok (Some f), w1)" "descend b (fld_ID f) ss w1 = (Ok i, w')"
    by (auto elim!: bindM_OkE dest!: orNotFound_OkD)
  have "child_named b c s (wdb w) = Some f" "wdb w1 = wdb w" using queryDB_OkD[OF q(1)] by auto
  then show ?case using Cons.IH[OF q(2)] by simp
qed (auto dest!: return_OkD)

lemma locate_segs_OkD:
  "locate_segs b c ss w = (Ok f, w') \<Longrightarrow> wdb w' = wdb w \<and> f \<in> set (rows (files (wdb w))) \<and> live_fil f \<and> fil_BucketID f = b \<and>
     denotes (wdb w) b c (butlast ss) (fil_FolderID f)"
proof (induction b c ss arbitrary: w rule: locate_segs.induct)
  case (1 b c)
  then show ?case by (auto dest: throw_OkD)
next
  case (2 b c nm)
  then obtain w1 where "queryDB (\<lambda>d. tfirst (file_named b c (ToLower nm)) (files d)) w = (Ok (Some f), w1)" "w' = w1"
    by (auto elim!: bindM_OkE dest!: orNotFound_OkD)
  then show ?case by (auto dest!: queryDB_OkD dest: tfirst_Some[OF sym] simp: file_named_def)
next
  case (3 b c s t ss)
  from 3(2) obtain g w1 where q: "queryDB (child_named b c s) w = (Ok (Some g), w1)" "locate_segs b (fld_ID g) (t # ss) w1 = (Ok f, w')"
    by (auto elim!: bindM_OkE dest!: orNotFound_OkD)
  have "child_named b c s (wdb w) = Some g" "wdb w1 = wdb w" using queryDB_OkD[OF q(1)] by auto
  then show ?case using 3(1)[OF q(2)] by simp
qed

section \<open>What a share gives access to\<close>

definition share_admits :: "crypto \<Rightarrow> string \<Rightarrow> string \<Rightarrow> time \<Rightarrow> db \<Rightarrow> ShareLink \<Rightarrow> bool" where
  "share_admits cr token password now d s \<longleftrightarrow>
     s \<in> set (rows (shares d)) \<and> live_shr s \<and> shr_Token s = token \<and> (\<forall>e. shr_ExpiresAt s = Some e \<longrightarrow> now \<le> e) \<and>
     (shr_Password s = [] \<or> cr_Compare cr (shr_Password s) password)"

definition shared_root :: "db \<Rightarrow> ShareLink \<Rightarrow> Folder \<Rightarrow> bool" where
  "shared_root d s g \<longleftrightarrow> shr_ItemType s = ItemKindFolder \<and> g \<in> set (rows (folders d)) \<and> live_fld g \<and> fld_ID g = shr_BucketItemID s"

text \<open>The shared file itself, or a file in the shared folder or at any depth below it.\<close>

definition within_share :: "db \<Rightarrow> ShareLink \<Rightarrow> File \<Rightarrow> bool" where
  "within_share d s f \<longleftrightarrow> f \<in> set (rows (files d)) \<and> live_fil f \<and>
     (if shr_ItemType s = ItemKindFolder
      then \<exists>g. shared_root d s g \<and> fil_BucketID f = fld_BucketID g \<and> (fil_FolderID f, fld_ID g) \<in> (parent_rel d)\<^sup>*
      else fil_ID f = shr_BucketItemID s)"

lemma loadByID_OkD:
  "loadFileByID i w = (Ok f, w') \<Longrightarrow> wdb w' = wdb w \<and> f \<in> set (rows (files (wdb w))) \<and> live_fil f \<and> fil_ID f = i"
  "loadFolderByID i w = (Ok g, w') \<Longrightarrow> wdb w' = wdb w \<and> g \<in> set (rows (folders (wdb w))) \<and> live_fld g \<and> fld_ID g = i"
  by (auto simp: loadFileByID_def loadFolderByID_def elim!: bindM_OkE dest!: orNotFound_OkD queryDB_OkD
      dest: tfirst_Some)

lemma sharedItem_OkD:
  assumes "sharedItem s w = (Ok x, w')"
  shows "wdb w' = wdb w \<and> (case x of
      Inl f \<Rightarrow> shr_ItemType s \<noteq> ItemKindFolder \<and> f \<in> set (rows (files (wdb w))) \<and> live_fil f \<and> fil_ID f = shr_BucketItemID s
    | Inr g \<Rightarrow> shared_root (wdb w) s g)"
proof (cases "shr_ItemType s = ItemKindFolder")
  case True
  with assms obtain g where "loadFolderByID (shr_BucketItemID s) w = (Ok g, w')" "x = Inr g"
    by (auto simp: sharedItem_def split: sum.splits elim!: bindM_OkE dest!: tryM_InrD return_OkD dest: throw_OkD)
  then show ?thesis using True loadByID_OkD(2) by (fastforce simp: shared_root_def)
next
  case False
  with assms obtain f where "loadFileByID (shr_BucketItemID s) w = (Ok f, w')" "x = Inl f"
    by (auto simp: sharedItem_def split: sum.splits elim!: bindM_OkE dest!: tryM_InrD return_OkD dest: throw_OkD)
  then show ?thesis using False loadByID_OkD(1) by fastforce
qed

lemma checkShare_OkD:
  assumes "checkShare cr t p w = (Ok (s, x), w')"
  shows "wdb w' = wdb w \<and> share_admits cr t p (clock w) (wdb w) s \<and> (case x of
      Inl f \<Rightarrow> shr_ItemType s \<noteq> ItemKindFolder \<and> f \<in> set (rows (files (wdb w))) \<and> live_fil f \<and> fil_ID f = shr_BucketItemID s
    | Inr g \<Rightarrow> shared_root (wdb w) s g)"
proof -
  from assms obtain w1 where q: "queryDB (\<lambda>d. tfirst (\<lambda>r. live_shr r \<and> shr_Token r = t) (shares d)) w = (Ok (Some s), w1)"
    and ok: "\<not> shareExpired s (clock w1)" "shr_Password s = [] \<or> cr_Compare cr (shr_Password s) p"
    and i: "sharedItem s w1 = (Ok x, w')"
    by (auto simp: checkShare_def GetShareByToken_def split: if_splits elim!: bindM_OkE
        dest!: return_OkD orNotFound_OkD gets_OkD dest: throw_OkD)
  have d: "tfirst (\<lambda>r. live_shr r \<and> shr_Token r = t) (shares (wdb w)) = Some s" "wdb w1 = wdb w" "clock w1 = clock w"
    using queryDB_OkD[OF q] queryDB_clock[OF q] by auto
  have "share_admits cr t p (clock w) (wdb w) s"
    using tfirst_Some[OF d(1)] ok d(3) by (auto simp: share_admits_def shareExpired_def split: option.splits)
  then show ?thesis using sharedItem_OkD[OF i, unfolded d(2)] by simp
qed

lemma resolveSharedFile_OkD:
  assumes "resolveSharedFile cr t p q w = (Ok (s, f), w')"
  shows "wdb w' = wdb w \<and> share_admits cr t p (clock w) (wdb w) s \<and> within_share (wdb w) s f \<and>
    (\<exists>fs. ancestors (wdb w) (fil_BucketID f) (fil_FolderID f) = Some fs \<and> (\<forall>g\<in>set fs. fld_Isable g \<noteq> FolderUnusable))"
proof -
  from assms obtain x w1 w2 u where s: "checkShare cr t p w = (Ok (s, x), w1)"
    "(case x of Inl f \<Rightarrow> returnM f | Inr g \<Rightarrow> locateSharedFileNew g q) w1 = (Ok f, w2)"
    "checkAncestorsUsable (fil_BucketID f) (fil_FolderID f) w2 = (Ok u, w')"
    by (auto simp: resolveSharedFile_def elim!: bindM_OkE thenM_OkE dest!: return_OkD)
  note c = checkShare_OkD[OF s(1)]
  have f: "wdb w2 = wdb w \<and> within_share (wdb w) s f"
  proof (cases x)
    case (Inl f')
    with s(2) c show ?thesis by (auto simp: within_share_def dest!: return_OkD)
  next
    case (Inr g)
    with s(2) obtain ss w3 where "locate_segs (fld_BucketID g) (fld_ID g) ss w3 = (Ok f, w2)" "w3 = w1"
      by (auto simp: locateSharedFileNew_def Let_def split: if_splits elim!: bindM_OkE dest!: liftM_OkD dest: throw_OkD)
    from locate_segs_OkD[OF this(1)] this(2) c Inr show ?thesis
      by (auto simp: within_share_def shared_root_def dest!: denotes_below intro!: exI[of _ g])
  qed
  show ?thesis
    using c f checkAncestorsUsable_OkD[OF s(3)] keep_OkD[OF pres_checkAncestorsUsable s(3)] by auto
qed

lemma disk_locate: "preserves (onDisk D) (locate_segs b c ss)"
  by (induction b c ss rule: locate_segs.induct) (auto simp: orNotFound_def intro!: pres)

lemma disk_share [pres]: "preserves (onDisk D) (resolveSharedFile cr t p q)"
  unfolding resolveSharedFile_def checkShare_def GetShareByToken_def sharedItem_def loadFileByID_def loadFolderByID_def
    locateSharedFileNew_def orNotFound_def Let_def
  by (intro pres disk_locate)

lemma objectOf_OkD: "objectOf m w = (Ok x, w') \<Longrightarrow> m w = (Ok x, w')"
  by (auto simp: objectOf_def split: sum.splits elim!: bindM_OkE dest!: tryM_InrD return_OkD dest: throw_OkD)

lemma itemTypeOf_OkD:
  "itemTypeOf i w = (Ok k, w') \<Longrightarrow> wdb w' = wdb w \<and>
     (k = ItemKindFolder \<and> (\<exists>g\<in>set (rows (folders (wdb w))). live_fld g \<and> fld_ID g = i) \<or>
      k = ItemKindFile \<and> (\<exists>f\<in>set (rows (files (wdb w))). live_fil f \<and> fil_ID f = i))"
  using keep_OkD[of "itemTypeOf i" w k w', OF pres_share_reads(2)]
  by (fastforce simp: itemTypeOf_def tryM_def loadFolderByID_def loadFileByID_def bindM_def queryDB_def faulty_cases getsM_def
      orNotFound_def returnM_def throwM_def split: if_splits option.splits dest: tfirst_Some)

lemma unusedToken_OkD:
  "unusedToken n cr w = (Ok t, w') \<Longrightarrow> wdb w' = wdb w \<and> (\<forall>r\<in>set (rows (shares (wdb w))). live_shr r \<longrightarrow> shr_Token r \<noteq> t)"
proof (induction n arbitrary: w)
  case (Suc n)
  then obtain t0 w1 c w2 where s: "generateShareToken cr w = (Ok t0, w1)"
    "queryDB (\<lambda>d. tcount (\<lambda>r. live_shr r \<and> shr_Token r = t0) (shares d)) w1 = (Ok c, w2)"
    "(if c = 0 then returnM t0 else unusedToken n cr) w2 = (Ok t, w')"
    by (auto elim!: bindM_OkE)
  have d: "wdb w1 = wdb w" "wdb w2 = wdb w" "c = tcount (\<lambda>r. live_shr r \<and> shr_Token r = t0) (shares (wdb w))"
    using keep_OkD[OF pres_share_reads(3) s(1)] queryDB_OkD[OF s(2)] by auto
  show ?case
    using s(3) d Suc.IH[of w2] by (auto split: if_splits dest!: return_OkD simp: tcount_0)
qed (auto dest: throw_OkD)

section \<open>Properties\<close>

text \<open>C29: a shared download hands out the bytes of a live file only, and only to a caller with the token of a
  live share that has not expired and, if the share has one, its password; the file is the shared one, or
  lies in the shared folder or below it, whatever the relative path says, and no folder above it is
  deleted.\<close>

theorem DownloadSharedFile_confined:
  assumes "DownloadSharedFile cr t p q w = (Ok (bs, f), w')"
  shows "wdb w' = wdb w \<and> (\<exists>s. share_admits cr t p (clock w) (wdb w) s \<and> within_share (wdb w) s f) \<and>
    (\<exists>fs. ancestors (wdb w) (fil_BucketID f) (fil_FolderID f) = Some fs \<and> (\<forall>g\<in>set fs. fld_Isable g \<noteq> FolderUnusable)) \<and>
    localGet storageRoot (BucketEncoder (fil_BucketID f)) (objectKeyForFile (fil_ID f)) (disk w) = Inr bs"
proof -
  from assms obtain s w1 b w2 where r: "resolveSharedFile cr t p q w = (Ok (s, f), w1)"
    and b: "GetBucket (fil_BucketID f) w1 = (Ok b, w2)"
    and g: "storageGet (BucketEncoder (bkt_ID b)) (objectKeyForFile (fil_ID f)) w2 = (Ok bs, w')"
    by (auto simp: DownloadSharedFile_def elim!: bindM_OkE dest!: return_OkD objectOf_OkD)
  have "bkt_ID b = fil_BucketID f" using GetBucket_OkD[OF b] by (auto dest: tfirst_Some)
  moreover have "disk w2 = disk w" using GetBucket_OkD[OF b] disk_OkD[OF disk_share r] by simp
  ultimately show ?thesis
    using resolveSharedFile_OkD[OF r] GetBucket_OkD[OF b] storageGet_OkD[OF g] by auto
qed

text \<open>Folder 1 of the sample shared until time 5, and the object of the file in it.\<close>

definition share_arg :: CreateShareArg where
  "share_arg = \<lparr>csh_UserID = 2, csh_FileID = 1, csh_ExpiresAt = Some 5, csh_MaxDownloads = 0, csh_Password = []\<rparr>"

definition share_world :: world where
  "share_world = snd (storagePut (BucketEncoder 1) ''1'' [104, 105] (calm_world (sample_db\<lparr>shares :=
     \<lparr>rows = [new_share share_arg ItemKindFolder ''tok'' [] 0 1], seq = 2\<rparr>\<rparr>) (\<lambda>_. None)))"

theorem DownloadSharedFile_confined_witness:
  "\<exists>f w'. DownloadSharedFile test_crypto ''tok'' [] ''/in/A.txt'' share_world = (Ok ([104, 105], f), w') \<and>
     (\<exists>s. within_share (wdb share_world) s f)"
proof -
  have "map_outcome fst (fst (DownloadSharedFile test_crypto ''tok'' [] ''/in/A.txt'' share_world)) = Ok [104, 105]" by code_simp
  then obtain f w' where r: "DownloadSharedFile test_crypto ''tok'' [] ''/in/A.txt'' share_world = (Ok ([104, 105], f), w')"
    by (cases "DownloadSharedFile test_crypto ''tok'' [] ''/in/A.txt'' share_world"; cases "fst (DownloadSharedFile test_crypto ''tok'' [] ''/in/A.txt'' share_world)") auto
  from DownloadSharedFile_confined[OF r] r show ?thesis by blast
qed

text \<open>C30: creating a share adds one row and nothing else: the row is of an existing live folder or file, for
  reading, with a token that no other row has; the password comes back blank.\<close>

theorem CreateShare_effect:
  assumes "CreateShare cr a w = (Ok s, w')"
  shows "\<exists>kind token hash now. s = (new_share a kind token hash now (seq (shares (wdb w))))\<lparr>shr_Password := []\<rparr> \<and>
    wdb w' = (wdb w)\<lparr>shares := tcreate (new_share a kind token hash now) (shares (wdb w))\<rparr> \<and>
    token \<notin> shr_Token ` set (rows (shares (wdb w))) \<and> (hash = [] \<or> csh_Password a \<noteq> []) \<and>
    csh_FileID a \<noteq> 0 \<and> 0 \<le> csh_MaxDownloads a \<and>
    (kind = ItemKindFolder \<and> (\<exists>g\<in>set (rows (folders (wdb w))). live_fld g \<and> fld_ID g = csh_FileID a) \<or>
     kind = ItemKindFile \<and> (\<exists>f\<in>set (rows (files (wdb w))). live_fil f \<and> fil_ID f = csh_FileID a))"
proof -
  from assms obtain kind w1 token w2 hash w3 s' where k: "itemTypeOf (csh_FileID a) w = (Ok kind, w1)"
    and t: "unusedToken 5 cr w1 = (Ok token, w2)" and h: "sharePassword cr (csh_Password a) w2 = (Ok hash, w3)"
    and c: "createShareRow (new_share a kind token hash (clock w3)) w3 = (Ok (Some s'), w')" and s: "s = s'\<lparr>shr_Password := []\<rparr>"
    and ok: "csh_FileID a \<noteq> 0" "\<not> csh_MaxDownloads a < 0"
    by (auto simp: CreateShare_def split: if_splits option.splits elim!: bindM_OkE dest!: gets_OkD return_OkD dest: throw_OkD)
  have d: "wdb w1 = wdb w" "wdb w2 = wdb w" "wdb w3 = wdb w"
    using itemTypeOf_OkD[OF k] unusedToken_OkD[OF t] keep_OkD[OF pres_share_reads(4) h] by auto
  have hp: "hash = [] \<or> csh_Password a \<noteq> []"
    using h by (auto simp: sharePassword_def dest!: return_OkD split: if_splits)
  have row: "wdb w' = (wdb w)\<lparr>shares := tcreate (new_share a kind token hash (clock w3)) (shares (wdb w))\<rparr>"
    "s' = new_share a kind token hash (clock w3) (seq (shares (wdb w)))"
    "token \<notin> shr_Token ` set (rows (shares (wdb w)))"
    using tryExecDB_OkD[OF c[unfolded createShareRow_def]] d(3)
    by (auto simp: Let_def tcreate_def new_share_def split: if_splits option.splits)
  show ?thesis
    using itemTypeOf_OkD[OF k] ok hp row s by (intro exI[of _ kind] exI[of _ token] exI[of _ hash] exI[of _ "clock w3"]) auto
qed

text \<open>A file and a folder have the key 1: what is shared is the folder.\<close>

theorem CreateShare_effect_witness:
  "\<exists>s w'. CreateShare test_crypto share_arg sample = (Ok s, w') \<and> shr_ItemType s = ItemKindFolder \<and>
     length (rows (shares (wdb w'))) = 1"
proof -
  have "map_outcome shr_ItemType (fst (CreateShare test_crypto share_arg sample)) = Ok ItemKindFolder" by code_simp
  then obtain s w' where r: "CreateShare test_crypto share_arg sample = (Ok s, w')" "shr_ItemType s = ItemKindFolder"
    by (cases "CreateShare test_crypto share_arg sample"; cases "fst (CreateShare test_crypto share_arg sample)") auto
  from CreateShare_effect[OF r(1)] r show ?thesis by (auto simp: tcreate_def empty_tbl_def)
qed

end
