(* ===== verification/Perm.thy ===== *)
theory Perm
  imports Accounts
begin

text \<open>
  The checks of rights that the handlers make before they call the service layer (api/perm.go), with
  the user and the groups that one request loads at most once.
\<close>

section \<open>Checks\<close>

definition canAccess :: "int \<Rightarrow> int \<Rightarrow> bool" where
  "canAccess userPerm needPerm \<longleftrightarrow> userPerm \<le> needPerm"

definition permUserActive :: "nat \<Rightarrow> User W" where
  "permUserActive userID =
     bindM (GetUser userID) (\<lambda>u. if usr_Status u \<noteq> 1 then throwM ErrForbidden else returnM u)"

text \<open>What a request has loaded so far: its user and the groups of the user.\<close>

type_synonym pcache = "User option \<times> nat list option"

definition ensurePermUser :: "nat \<Rightarrow> pcache \<Rightarrow> (User \<times> pcache) W" where
  "ensurePermUser userID c =
     (case fst c of
        Some u \<Rightarrow> returnM (u, c)
      | None \<Rightarrow> bindM (permUserActive userID) (\<lambda>u. returnM (u, (Some u, snd c))))"

definition permBucketAccessWith :: "nat \<Rightarrow> pcache \<Rightarrow> Bucket \<Rightarrow> unit W" where
  "permBucketAccessWith userID c b =
     bindM (ensurePermUser userID c) (\<lambda>(u, _).
     if \<not> canAccess (usr_PermissionLevel u) (bkt_PermissionLevel b) then throwM ErrForbidden else returnM ())"

definition permBucketAccess :: "nat \<Rightarrow> Bucket \<Rightarrow> unit W" where
  "permBucketAccess userID b = permBucketAccessWith userID (None, None) b"

definition permItemAccessWith :: "nat \<Rightarrow> pcache \<Rightarrow> string \<Rightarrow> pcache W" where
  "permItemAccessWith userID c visibleToGroups =
     (if TrimSpace visibleToGroups = [] then returnM c
      else
        bindM (ensurePermUser userID c) (\<lambda>(u, c').
        if IsAdmin (usr_PermissionLevel u) then returnM c'
        else
          bindM (case snd c' of None \<Rightarrow> UserGroupIDs userID | Some gs \<Rightarrow> returnM gs) (\<lambda>gs.
          bindM (liftM (ItemVisibleRule visibleToGroups (Some u) gs)) (\<lambda>_.
          returnM (fst c', Some gs)))))"

text \<open>The walk stops at a folder seen before, so one step per folder row and one more is enough.\<close>

fun permAncestors_loop :: "nat \<Rightarrow> nat \<Rightarrow> nat \<Rightarrow> nat \<Rightarrow> nat list \<Rightarrow> pcache \<Rightarrow> pcache W" where
  "permAncestors_loop fuel userID bucketID cur seen c =
     (if cur = 0 \<or> cur \<in> set seen then returnM c
      else (case fuel of 0 \<Rightarrow> hangM
        | Suc n \<Rightarrow>
            bindM (loadFolder bucketID cur) (\<lambda>f.
            if fld_Isable f = FolderUnusable then throwM ErrNotFound
            else
              bindM (permItemAccessWith userID c (fld_VisibleToGroups f)) (\<lambda>c'.
              permAncestors_loop n userID bucketID (fld_ParentID f) (cur # seen) c'))))"

declare permAncestors_loop.simps [simp del]

definition permAncestorsAccessWith :: "nat \<Rightarrow> pcache \<Rightarrow> nat \<Rightarrow> nat \<Rightarrow> pcache W" where
  "permAncestorsAccessWith userID c bucketID folderID =
     bindM folderCount (\<lambda>n. permAncestors_loop (Suc n) userID bucketID folderID [] c)"

definition permOwnerOrAdmin :: "nat \<Rightarrow> nat \<Rightarrow> unit W" where
  "permOwnerOrAdmin userID ownerID =
     (if userID = ownerID then returnM ()
      else
        bindM (permUserActive userID) (\<lambda>u.
        if IsAdmin (usr_PermissionLevel u) then returnM () else throwM ErrForbidden))"

definition permCanManageBucket :: "nat \<Rightarrow> Bucket \<Rightarrow> unit W" where
  "permCanManageBucket operatorID b =
     (if bkt_OwnerID b = operatorID then returnM ()
      else
        bindM (permUserActive operatorID) (\<lambda>u.
        if IsAdmin (usr_PermissionLevel u) then returnM ()
        else
          let need = (if bkt_ManagePermissionLevel b \<le> SuperAdmin then bkt_PermissionLevel b else bkt_ManagePermissionLevel b) in
          if \<not> canAccess (usr_PermissionLevel u) need then throwM ErrForbidden else returnM ()))"

definition permGroupVisible :: "nat \<Rightarrow> nat \<Rightarrow> unit W" where
  "permGroupVisible userID groupID =
     bindM (permUserActive userID) (\<lambda>u.
     if IsAdmin (usr_PermissionLevel u) then returnM ()
     else
       bindM (UserGroupIDs userID) (\<lambda>gs.
       if groupID \<in> set gs then returnM () else throwM ErrForbidden))"

definition precheckFileRead :: "nat \<Rightarrow> nat \<Rightarrow> nat \<Rightarrow> File W" where
  "precheckFileRead userID bucketID fileID =
     bindM (CheckBucketUsable bucketID) (\<lambda>b.
     bindM (loadFile bucketID fileID) (\<lambda>f.
     bindM (permAncestorsAccessWith userID (None, None) bucketID (fil_FolderID f)) (\<lambda>c.
     bindM (permItemAccessWith userID c (fil_VisibleToGroups f)) (\<lambda>c'.
     thenM (permBucketAccessWith userID c' b) (returnM f)))))"

definition precheckFolderRead :: "nat \<Rightarrow> nat \<Rightarrow> nat \<Rightarrow> Folder W" where
  "precheckFolderRead userID bucketID folderID =
     bindM (CheckBucketUsable bucketID) (\<lambda>b.
     bindM (loadFolder bucketID folderID) (\<lambda>f.
     bindM (permAncestorsAccessWith userID (None, None) bucketID (fld_ParentID f)) (\<lambda>c.
     bindM (permItemAccessWith userID c (fld_VisibleToGroups f)) (\<lambda>c'.
     thenM (permBucketAccessWith userID c' b) (returnM f)))))"

definition precheckBucketWrite :: "nat \<Rightarrow> nat \<Rightarrow> Bucket W" where
  "precheckBucketWrite userID bucketID =
     bindM (CheckBucketUsable bucketID) (\<lambda>b.
     thenM (permBucketAccess userID b) (returnM b))"

definition precheckBucketRead :: "nat \<Rightarrow> nat \<Rightarrow> Bucket W" where
  "precheckBucketRead userID bucketID = precheckBucketWrite userID bucketID"

section \<open>Lemmas: the checks read only, and end\<close>

lemma pres_perm_items [pres]:
  "preserves (onDB J) (permUserActive u)" "preserves (onDB J) (ensurePermUser u c)" "preserves (onDB J) (permBucketAccessWith u c b)"
  "preserves (onDB J) (permBucketAccess u b)" "preserves (onDB J) (permItemAccessWith u c v)" "preserves (onDB J) (permOwnerOrAdmin u i)"
  "preserves (onDB J) (permCanManageBucket u b)" "preserves (onDB J) (permGroupVisible u g)"
  unfolding permUserActive_def ensurePermUser_def permBucketAccessWith_def permBucketAccess_def permItemAccessWith_def
    permOwnerOrAdmin_def permCanManageBucket_def permGroupVisible_def Let_def
  by (intro pres)+

lemma pres_permAncestors_loop: "preserves (onDB J) (permAncestors_loop n u b c seen pc)"
proof (induction n arbitrary: c seen pc)
  case 0
  show ?case by (subst permAncestors_loop.simps) (simp add: pres)
next
  case (Suc n)
  then show ?case by (subst permAncestors_loop.simps) (auto intro!: pres)
qed

lemma pres_prechecks [pres]:
  "preserves (onDB J) (permAncestorsAccessWith u c b f)" "preserves (onDB J) (precheckFileRead u b f)"
  "preserves (onDB J) (precheckFolderRead u b f)" "preserves (onDB J) (precheckBucketWrite u b)"
  "preserves (onDB J) (precheckBucketRead u b)"
  unfolding permAncestorsAccessWith_def precheckFileRead_def precheckFolderRead_def precheckBucketWrite_def
    precheckBucketRead_def
  by (intro pres pres_permAncestors_loop)+

lemma total_perm_items [ends_rules]:
  "total (permUserActive u)" "total (ensurePermUser u c)" "total (permBucketAccessWith u c b)"
  "total (permBucketAccess u b)" "total (permItemAccessWith u c v)" "total (permOwnerOrAdmin u i)"
  "total (permCanManageBucket u b)" "total (permGroupVisible u g)"
  unfolding permUserActive_def ensurePermUser_def permBucketAccessWith_def permBucketAccess_def permItemAccessWith_def
    permOwnerOrAdmin_def permCanManageBucket_def permGroupVisible_def Let_def
  by (intro ends_rules)+

lemma permAncestors_loop_ends:
  "card (folder_ids d - set seen) < n \<Longrightarrow> ends (onDB (\<lambda>e. e = d)) (permAncestors_loop n u b c seen pc)"
proof (induction n arbitrary: c seen pc)
  case (Suc n)
  let ?P = "\<lambda>f. onDB (\<lambda>e. e = d \<and> the_folder b c e = Some f)"
  have step: "ends (?P f) (permAncestors_loop n u b (fld_ParentID f) (c # seen) pc')" if "c \<notin> set seen" for f pc'
  proof (cases "the_folder b c d = Some f")
    case True
    then have "card (folder_ids d - set (c # seen)) < n"
      using Suc.prems that the_folder_edge folder_ids_shrink[of c d "set seen"] by fastforce
    from Suc.IH[OF this] show ?thesis by (rule ends_pre) (auto simp: onDB_def)
  qed (auto simp: ends_def onDB_def)
  have body: "ends (?P f) (bindM (permItemAccessWith u pc (fld_VisibleToGroups f))
      (permAncestors_loop n u b (fld_ParentID f) (c # seen)))" if "c \<notin> set seen" for f
    by (rule ends_keep_bind[OF ends_total[OF total_perm_items(5)] pres_perm_items(5) step[OF that]])
  show ?case
    by (subst permAncestors_loop.simps)
      (auto intro!: ends_rules body ends_bind[where R = ?P]
        intro: valid_weaken[OF valid_loadFolder[where J = "\<lambda>e. e = d"]])
qed simp

lemma total_permAncestors [ends_rules]: "total (permAncestorsAccessWith u c b f)"
proof -
  have "fst (permAncestors_loop (Suc (length (rows (folders (wdb w))))) u b f [] c w) \<noteq> Hang" for w
    using permAncestors_loop_ends[of "wdb w" "[]" "Suc (length (rows (folders (wdb w))))" u b f c]
      folder_ids_card[of "wdb w"] by (auto simp: ends_def onDB_def)
  then show ?thesis
    by (auto simp: ends_def permAncestorsAccessWith_def folderCount_def bindM_def getsM_def)
qed

lemma total_loadFile: "total (loadFile b f)"
  unfolding loadFile_def by (intro ends_rules)

lemma total_prechecks [ends_rules]:
  "total (precheckFileRead u b f)" "total (precheckFolderRead u b f)" "total (precheckBucketWrite u b)"
  "total (precheckBucketRead u b)"
  unfolding precheckFileRead_def precheckFolderRead_def precheckBucketWrite_def precheckBucketRead_def
  by (intro ends_rules total_loadFile)+

section \<open>What a passed check says\<close>

text \<open>A live, enabled account, and one that reaches the level of a bucket in use.\<close>

definition active :: "nat \<Rightarrow> db \<Rightarrow> User \<Rightarrow> bool" where
  "active userID d u \<longleftrightarrow> the_user userID d = Some u \<and> usr_Status u = 1"

definition may_use :: "nat \<Rightarrow> nat \<Rightarrow> db \<Rightarrow> bool" where
  "may_use userID bucketID d \<longleftrightarrow> (\<exists>u b. active userID d u \<and> b \<in> set (rows (buckets d)) \<and> live_bkt b \<and>
     bkt_ID b = bucketID \<and> bkt_Status b = 1 \<and> usr_PermissionLevel u \<le> bkt_PermissionLevel b)"

text \<open>A user whose way from the bucket root to a folder is open.\<close>

definition may_walk :: "nat \<Rightarrow> nat \<Rightarrow> nat \<Rightarrow> db \<Rightarrow> bool" where
  "may_walk userID bucketID folderID d \<longleftrightarrow> (\<exists>fs. ancestors d bucketID folderID = Some fs \<and>
     (\<forall>g\<in>set fs. fld_Isable g \<noteq> FolderUnusable \<and> walk_visible userID d (fld_VisibleToGroups g)))"

definition cache_ok :: "nat \<Rightarrow> db \<Rightarrow> pcache \<Rightarrow> bool" where
  "cache_ok userID d c \<longleftrightarrow> (\<forall>u. fst c = Some u \<longrightarrow> user_agrees userID d u \<and> (\<exists>v. active userID d v)) \<and>
     (\<forall>gs. snd c = Some gs \<longrightarrow> gs = member_groups userID d)"

lemma cache_ok_empty [simp]: "cache_ok u d (None, None)"
  by (simp add: cache_ok_def)

lemma permUserActive_OkD:
  assumes "permUserActive i w = (Ok u, w')"
  shows "wdb w' = wdb w \<and> user_agrees i (wdb w) u \<and>
    (\<exists>v. active i (wdb w) v \<and> usr_PermissionLevel v = usr_PermissionLevel u)"
proof -
  have g: "GetUser i w = (Ok u, w')" "usr_Status u = 1"
    using assms by (auto simp: permUserActive_def throwM_def split: if_splits elim!: bindM_OkE dest!: return_OkD)
  then obtain v where "the_user i (wdb w) = Some v" "u = v\<lparr>usr_Password := [], usr_NtHash := []\<rparr>" "wdb w' = wdb w"
    using GetUser_OkD[OF g(1)] by (auto simp: the_user_def)
  then show ?thesis using g(2) the_user_ID[of i "wdb w" v] by (auto simp: user_agrees_def active_def)
qed

lemma user_agrees_level: "user_agrees i d u \<Longrightarrow> active i d v \<Longrightarrow> usr_PermissionLevel v = usr_PermissionLevel u"
  by (auto simp: user_agrees_def active_def)

lemma ensurePermUser_OkD:
  assumes "ensurePermUser i c w = (Ok (u, c'), w')" "cache_ok i (wdb w) c"
  shows "wdb w' = wdb w \<and> cache_ok i (wdb w) c' \<and> user_agrees i (wdb w) u \<and>
    (\<exists>v. active i (wdb w) v \<and> usr_PermissionLevel v = usr_PermissionLevel u)"
proof (cases "fst c")
  case None
  with assms(1) have "permUserActive i w = (Ok u, w')" "c' = (Some u, snd c)"
    by (auto simp: ensurePermUser_def elim!: bindM_OkE dest!: return_OkD)
  then show ?thesis using permUserActive_OkD[of i w u w'] assms(2) by (auto simp: cache_ok_def)
next
  case (Some x)
  with assms show ?thesis
    using user_agrees_level by (fastforce simp: ensurePermUser_def cache_ok_def dest!: return_OkD)
qed

lemma permItemAccessWith_OkD:
  assumes "permItemAccessWith i c col w = (Ok c', w')" "cache_ok i (wdb w) c"
  shows "wdb w' = wdb w \<and> cache_ok i (wdb w) c' \<and> walk_visible i (wdb w) col"
proof (cases "TrimSpace col = []")
  case True
  with assms show ?thesis
    by (auto simp: permItemAccessWith_def walk_visible_def visible_to_def dest!: return_OkD)
next
  case False
  with assms(1) obtain u c1 w1 where e: "ensurePermUser i c w = (Ok (u, c1), w1)"
    and k: "(if IsAdmin (usr_PermissionLevel u) then returnM c1
        else bindM (case snd c1 of None \<Rightarrow> UserGroupIDs i | Some gs \<Rightarrow> returnM gs) (\<lambda>gs.
          bindM (liftM (ItemVisibleRule col (Some u) gs)) (\<lambda>_. returnM (fst c1, Some gs)))) w1 = (Ok c', w')"
    by (auto simp: permItemAccessWith_def elim!: bindM_OkE)
  note u = ensurePermUser_OkD[OF e assms(2)]
  show ?thesis
  proof (cases "IsAdmin (usr_PermissionLevel u)")
    case True
    with k u show ?thesis by (auto simp: walk_visible_def user_agrees_def dest!: return_OkD)
  next
    case False
    with k obtain gs w2 where g: "(case snd c1 of None \<Rightarrow> UserGroupIDs i | Some gs \<Rightarrow> returnM gs) w1 = (Ok gs, w2)"
      and v: "ItemVisibleRule col (Some u) gs = Inr ()" "c' = (fst c1, Some gs)" "w' = w2"
      by (auto elim!: bindM_OkE dest!: liftM_OkD return_OkD)
    have gs: "gs = member_groups i (wdb w) \<and> wdb w2 = wdb w"
      using g u by (auto simp: cache_ok_def split: option.splits dest!: UserGroupIDs_OkD return_OkD)
    with v(1) u have "visible_to i (wdb w) col"
      by (auto simp: visible_to_def user_agrees_def) (metis ItemVisibleRule_level)
    with gs v u show ?thesis by (auto simp: walk_visible_def cache_ok_def)
  qed
qed

lemma permAncestors_loop_OkD:
  assumes "acyclic (parent_rel d)"
  shows "permAncestors_loop n i b c seen pc w = (Ok pc', w') \<Longrightarrow> wdb w = d \<Longrightarrow>
    \<forall>v\<in>set seen. (v, c) \<in> (parent_rel d)\<^sup>+ \<and> (c = 0 \<or> v \<noteq> c) \<Longrightarrow> cache_ok i d pc \<Longrightarrow>
    \<exists>fs. chain n d b c = Some fs \<and> wdb w' = d \<and> cache_ok i d pc' \<and>
      (\<forall>f\<in>set fs. fld_Isable f \<noteq> FolderUnusable \<and> walk_visible i d (fld_VisibleToGroups f))"
proof (induction n arbitrary: c seen pc w)
  case 0
  then show ?case
    by (subst (asm) permAncestors_loop.simps) (auto simp: hangM_def returnM_def split: if_splits)
next
  case (Suc n)
  show ?case
  proof (cases "c = 0")
    case True
    with Suc.prems(1,2,4) show ?thesis by (subst (asm) permAncestors_loop.simps) (simp add: returnM_def)
  next
    case False
    have ns: "c \<notin> set seen" using Suc.prems(3) False by auto
    from Suc.prems(1) False ns obtain f w2 pc1 w3 where l: "loadFolder b c w = (Ok f, w2)"
      and us: "fld_Isable f \<noteq> FolderUnusable"
      and v: "permItemAccessWith i pc (fld_VisibleToGroups f) w2 = (Ok pc1, w3)"
      and r: "permAncestors_loop n i b (fld_ParentID f) (c # seen) pc1 w3 = (Ok pc', w')"
      by (subst (asm) permAncestors_loop.simps) (auto elim!: bindM_OkE simp: throwM_def split: if_splits)
    have w2: "wdb w2 = d" and tf: "the_folder b c d = Some f"
      using loadFolder_OkD[OF l] Suc.prems(2) by auto
    have w3: "wdb w3 = d" "cache_ok i d pc1" "walk_visible i d (fld_VisibleToGroups f)"
      using permItemAccessWith_OkD[OF v] w2 Suc.prems(4) by auto
    have "\<forall>v\<in>set (c # seen). (v, fld_ParentID f) \<in> (parent_rel d)\<^sup>+ \<and> (fld_ParentID f = 0 \<or> v \<noteq> fld_ParentID f)"
      using Suc.prems(3) the_folder_edge[OF tf] assms by (auto intro: trancl_into_trancl simp: acyclic_def)
    from Suc.IH[OF r w3(1) this w3(2)] obtain fs where
      "chain n d b (fld_ParentID f) = Some fs" "wdb w' = d" "cache_ok i d pc'"
      "\<forall>f\<in>set fs. fld_Isable f \<noteq> FolderUnusable \<and> walk_visible i d (fld_VisibleToGroups f)" by auto
    with chain_step[OF False tf] us w3(3) show ?thesis by (intro exI[of _ "f # fs"]) auto
  qed
qed

lemma permAncestors_OkD:
  assumes "permAncestorsAccessWith i c b f w = (Ok c', w')" "cache_ok i (wdb w) c" "acyclic (parent_rel (wdb w))"
  shows "wdb w' = wdb w \<and> cache_ok i (wdb w) c' \<and> may_walk i b f (wdb w)"
proof -
  have "permAncestors_loop (Suc (length (rows (folders (wdb w))))) i b f [] c w = (Ok c', w')"
    using assms(1) by (simp add: permAncestorsAccessWith_def folderCount_def bindM_def getsM_def)
  from permAncestors_loop_OkD[OF assms(3) this refl _ assms(2)] show ?thesis
    by (auto simp: may_walk_def ancestors_def)
qed

lemma CheckBucketUsable_OkD:
  "CheckBucketUsable b w = (Ok x, w') \<Longrightarrow> wdb w' = wdb w \<and> x \<in> set (rows (buckets (wdb w))) \<and> live_bkt x \<and>
     bkt_ID x = b \<and> bkt_Status x = 1"
  by (auto simp: CheckBucketUsable_def throwM_def split: if_splits elim!: bindM_OkE dest!: GetBucket_OkD return_OkD
      dest: tfirst_Some)

lemma permBucketAccessWith_OkD:
  assumes "permBucketAccessWith i c b w = (Ok x, w')" "cache_ok i (wdb w) c"
  shows "wdb w' = wdb w \<and> (\<exists>u. active i (wdb w) u \<and> usr_PermissionLevel u \<le> bkt_PermissionLevel b)"
proof -
  from assms(1) obtain u c' where e: "ensurePermUser i c w = (Ok (u, c'), w')" "usr_PermissionLevel u \<le> bkt_PermissionLevel b"
    by (auto simp: permBucketAccessWith_def canAccess_def throwM_def split: if_splits elim!: bindM_OkE dest!: return_OkD)
  then show ?thesis using ensurePermUser_OkD[OF e(1) assms(2)] by auto
qed

lemma precheckBucketWrite_OkD:
  assumes "precheckBucketWrite i b w = (Ok x, w')"
  shows "wdb w' = wdb w \<and> may_use i b (wdb w)"
proof -
  from assms obtain w1 u where c: "CheckBucketUsable b w = (Ok x, w1)"
    and p: "permBucketAccessWith i (None, None) x w1 = (Ok u, w')"
    by (auto simp: precheckBucketWrite_def permBucketAccess_def elim!: bindM_OkE thenM_OkE dest!: return_OkD)
  show ?thesis
    using CheckBucketUsable_OkD[OF c] permBucketAccessWith_OkD[OF p] by (auto simp: may_use_def)
qed

text \<open>What both prechecks of an item share, for its folder and its column.\<close>

lemma precheck_OkD:
  assumes "CheckBucketUsable b w = (Ok bk, w1)" "wdb w2 = wdb w1"
    "permAncestorsAccessWith i (None, None) b g w2 = (Ok c, w3)"
    "permItemAccessWith i c col w3 = (Ok c', w4)" "permBucketAccessWith i c' bk w4 = (Ok u, w')" "acyclic (parent_rel (wdb w))"
  shows "wdb w' = wdb w \<and> may_use i b (wdb w) \<and> may_walk i b g (wdb w) \<and> walk_visible i (wdb w) col"
proof -
  have 1: "wdb w2 = wdb w" using CheckBucketUsable_OkD[OF assms(1)] assms(2) by simp
  have 2: "wdb w3 = wdb w \<and> cache_ok i (wdb w) c \<and> may_walk i b g (wdb w)"
    using permAncestors_OkD[OF assms(3)] assms(6) 1 by simp
  then have 3: "wdb w4 = wdb w \<and> cache_ok i (wdb w) c' \<and> walk_visible i (wdb w) col"
    using permItemAccessWith_OkD[OF assms(4)] by simp
  then show ?thesis
    using permBucketAccessWith_OkD[OF assms(5)] CheckBucketUsable_OkD[OF assms(1)] 2 by (auto simp: may_use_def)
qed

lemma precheckFileRead_OkD:
  assumes "precheckFileRead i b f w = (Ok x, w')" "acyclic (parent_rel (wdb w))"
  shows "wdb w' = wdb w \<and> the_file b f (wdb w) = Some x \<and> may_use i b (wdb w) \<and>
    may_walk i b (fil_FolderID x) (wdb w) \<and> walk_visible i (wdb w) (fil_VisibleToGroups x)"
proof -
  from assms(1) obtain bk w1 w2 c w3 c' w4 u where s: "CheckBucketUsable b w = (Ok bk, w1)" "loadFile b f w1 = (Ok x, w2)"
    "permAncestorsAccessWith i (None, None) b (fil_FolderID x) w2 = (Ok c, w3)"
    "permItemAccessWith i c (fil_VisibleToGroups x) w3 = (Ok c', w4)" "permBucketAccessWith i c' bk w4 = (Ok u, w')"
    by (auto simp: precheckFileRead_def elim!: bindM_OkE thenM_OkE dest!: return_OkD)
  have l: "wdb w2 = wdb w1" "the_file b f (wdb w1) = Some x" using loadFile_OkD[OF s(2)] by auto
  from precheck_OkD[OF s(1) l(1) s(3-5) assms(2)] show ?thesis
    using l(2) CheckBucketUsable_OkD[OF s(1)] by auto
qed

lemma precheckFolderRead_OkD:
  assumes "precheckFolderRead i b f w = (Ok x, w')" "acyclic (parent_rel (wdb w))"
  shows "wdb w' = wdb w \<and> the_folder b f (wdb w) = Some x \<and> may_use i b (wdb w) \<and>
    may_walk i b (fld_ParentID x) (wdb w) \<and> walk_visible i (wdb w) (fld_VisibleToGroups x)"
proof -
  from assms(1) obtain bk w1 w2 c w3 c' w4 u where s: "CheckBucketUsable b w = (Ok bk, w1)" "loadFolder b f w1 = (Ok x, w2)"
    "permAncestorsAccessWith i (None, None) b (fld_ParentID x) w2 = (Ok c, w3)"
    "permItemAccessWith i c (fld_VisibleToGroups x) w3 = (Ok c', w4)" "permBucketAccessWith i c' bk w4 = (Ok u, w')"
    by (auto simp: precheckFolderRead_def elim!: bindM_OkE thenM_OkE dest!: return_OkD)
  have l: "wdb w2 = wdb w1" "the_folder b f (wdb w1) = Some x" using loadFolder_OkD[OF s(2)] by auto
  from precheck_OkD[OF s(1) l(1) s(3-5) assms(2)] show ?thesis
    using l(2) CheckBucketUsable_OkD[OF s(1)] by auto
qed

lemma permOwnerOrAdmin_OkD:
  "permOwnerOrAdmin i j w = (Ok x, w') \<Longrightarrow> wdb w' = wdb w \<and>
     (i = j \<or> (\<exists>u. active i (wdb w) u \<and> IsAdmin (usr_PermissionLevel u)))"
  by (auto simp: permOwnerOrAdmin_def throwM_def split: if_splits elim!: bindM_OkE dest!: return_OkD permUserActive_OkD)

text \<open>Who may manage a bucket.\<close>

definition may_manage :: "nat \<Rightarrow> Bucket \<Rightarrow> db \<Rightarrow> bool" where
  "may_manage userID b d \<longleftrightarrow> bkt_OwnerID b = userID \<or> (\<exists>u. active userID d u \<and>
     (IsAdmin (usr_PermissionLevel u) \<or>
      usr_PermissionLevel u \<le> (if bkt_ManagePermissionLevel b \<le> SuperAdmin then bkt_PermissionLevel b else bkt_ManagePermissionLevel b)))"

lemma permCanManageBucket_OkD:
  assumes "permCanManageBucket i b w = (Ok x, w')"
  shows "wdb w' = wdb w \<and> may_manage i b (wdb w)"
proof (cases "bkt_OwnerID b = i")
  case True
  with assms show ?thesis by (auto simp: permCanManageBucket_def may_manage_def dest!: return_OkD)
next
  case False
  with assms obtain u where u: "permUserActive i w = (Ok u, w')" and
    l: "IsAdmin (usr_PermissionLevel u) \<or>
      usr_PermissionLevel u \<le> (if bkt_ManagePermissionLevel b \<le> SuperAdmin then bkt_PermissionLevel b else bkt_ManagePermissionLevel b)"
    by (auto simp: permCanManageBucket_def Let_def canAccess_def throwM_def split: if_splits elim!: bindM_OkE dest!: return_OkD)
  from permUserActive_OkD[OF u] l show ?thesis unfolding may_manage_def by metis
qed

end
