(* ===== verification/Batches.thy ===== *)
theory Batches
  imports CopyMove Recycle Sharing
begin

text \<open>
  Batches of copies, moves, deletions and uploads (server/batch.go) and the download tasks
  (server/download_task.go).  Every entry of a batch runs on its own; its error ends in its result.
\<close>

section \<open>Results\<close>

definition batchMaxItems :: int where
  "batchMaxItems = 100"

datatype batchError = Failed err | InvalidKind string

datatype itemData = FileData File | FolderData Folder

record BatchResultItem =
  brs_Kind :: string
  brs_ID :: nat
  brs_Name :: string
  brs_Data :: "itemData option"
  brs_Error :: "batchError option"
  brs_TaskID :: nat

definition CheckBatchItems :: "int \<Rightarrow> unit W" where
  "CheckBatchItems n =
     (if n = 0 then throwM ErrInvalidInput
      else if n > batchMaxItems then throwM ErrInvalidInput
      else returnM ())"

definition failedItem :: "string \<Rightarrow> nat \<Rightarrow> string \<Rightarrow> batchError \<Rightarrow> BatchResultItem" where
  "failedItem kind i name e =
     \<lparr>brs_Kind = kind, brs_ID = i, brs_Name = name, brs_Data = None, brs_Error = Some e, brs_TaskID = 0\<rparr>"

definition doneFile :: "nat \<Rightarrow> File \<Rightarrow> BatchResultItem" where
  "doneFile i f = \<lparr>brs_Kind = ItemKindFile, brs_ID = i, brs_Name = fil_Name f, brs_Data = Some (FileData f),
     brs_Error = None, brs_TaskID = 0\<rparr>"

definition doneFolder :: "nat \<Rightarrow> Folder \<Rightarrow> BatchResultItem" where
  "doneFolder i f = \<lparr>brs_Kind = ItemKindFolder, brs_ID = i, brs_Name = fld_Name f, brs_Data = Some (FolderData f),
     brs_Error = None, brs_TaskID = 0\<rparr>"

section \<open>Copies and moves\<close>

text \<open>One instruction to copy or to move; CopyItem and MoveItem have the same fields.\<close>

record CopyItem =
  cit_SrcBucketID :: nat
  cit_Kind :: string
  cit_SrcID :: nat
  cit_DstBucketID :: "nat option"
  cit_DstDir :: "string option"
  cit_DstName :: "string option"

record CopyItemsArg =
  cis_UserID :: nat
  cis_SrcBucketID :: nat
  cis_DstBucketID :: nat
  cis_DstDir :: string
  cis_Items :: "CopyItem list"

definition srcBucketOf :: "CopyItemsArg \<Rightarrow> CopyItem \<Rightarrow> nat" where
  "srcBucketOf a it = (if cit_SrcBucketID it \<noteq> 0 then cit_SrcBucketID it else cis_SrcBucketID a)"

definition dstBucketOf :: "CopyItemsArg \<Rightarrow> CopyItem \<Rightarrow> nat" where
  "dstBucketOf a it = (case cit_DstBucketID it of None \<Rightarrow> cis_DstBucketID a | Some b \<Rightarrow> b)"

definition dstDirOf :: "CopyItemsArg \<Rightarrow> CopyItem \<Rightarrow> string" where
  "dstDirOf a it = (case cit_DstDir it of None \<Rightarrow> cis_DstDir a | Some d \<Rightarrow> d)"

definition dstNameOf :: "CopyItem \<Rightarrow> string" where
  "dstNameOf it = (case cit_DstName it of None \<Rightarrow> [] | Some n \<Rightarrow> n)"

definition copyItem :: "nat \<Rightarrow> CopyItemsArg \<Rightarrow> CopyItem \<Rightarrow> BatchResultItem W" where
  "copyItem fuel a it =
     (if cit_Kind it = ItemKindFile then
        bindM (tryM (CopyFile \<lparr>cpf_UserID = cis_UserID a, cpf_SrcBucketID = srcBucketOf a it, cpf_SrcFileID = cit_SrcID it,
            cpf_DstBucketID = dstBucketOf a it, cpf_DstDirPath = dstDirOf a it, cpf_DstFilename = dstNameOf it,
            cpf_DstFolderID = 0\<rparr>)) (\<lambda>r.
        case r of
          Inl e \<Rightarrow> returnM (failedItem ItemKindFile (cit_SrcID it) [] (Failed e))
        | Inr f \<Rightarrow> returnM (doneFile (cit_SrcID it) f))
      else if cit_Kind it = ItemKindFolder then
        bindM (tryM (CopyFolder fuel \<lparr>cpd_UserID = cis_UserID a, cpd_SrcBucketID = srcBucketOf a it,
            cpd_SrcFolderID = cit_SrcID it, cpd_DstBucketID = dstBucketOf a it, cpd_DstDirPath = dstDirOf a it,
            cpd_DstName = dstNameOf it\<rparr>)) (\<lambda>r.
        case r of
          Inl e \<Rightarrow> returnM (failedItem ItemKindFolder (cit_SrcID it) [] (Failed e))
        | Inr f \<Rightarrow> returnM (doneFolder (cit_SrcID it) f))
      else returnM (failedItem (cit_Kind it) (cit_SrcID it) [] (InvalidKind (cit_Kind it))))"

definition CopyItems :: "nat \<Rightarrow> CopyItemsArg \<Rightarrow> BatchResultItem list W" where
  "CopyItems fuel a = mapM (copyItem fuel a) (cis_Items a)"

definition moveItem :: "nat \<Rightarrow> CopyItemsArg \<Rightarrow> CopyItem \<Rightarrow> BatchResultItem W" where
  "moveItem fuel a it =
     (let arg = \<lparr>mov_UserID = cis_UserID a, mov_SrcBucketID = srcBucketOf a it, mov_SrcID = cit_SrcID it,
         mov_DstBucketID = dstBucketOf a it, mov_DstDirPath = dstDirOf a it, mov_DstName = dstNameOf it\<rparr> in
      if cit_Kind it = ItemKindFile then
        bindM (tryM (MoveFile fuel arg)) (\<lambda>r.
        case r of
          Inl e \<Rightarrow> returnM (failedItem ItemKindFile (cit_SrcID it) [] (Failed e))
        | Inr f \<Rightarrow> returnM (doneFile (cit_SrcID it) f))
      else if cit_Kind it = ItemKindFolder then
        bindM (tryM (MoveFolder arg)) (\<lambda>r.
        case r of
          Inl e \<Rightarrow> returnM (failedItem ItemKindFolder (cit_SrcID it) [] (Failed e))
        | Inr f \<Rightarrow> returnM (doneFolder (cit_SrcID it) f))
      else returnM (failedItem (cit_Kind it) (cit_SrcID it) [] (InvalidKind (cit_Kind it))))"

definition MoveItems :: "nat \<Rightarrow> CopyItemsArg \<Rightarrow> BatchResultItem list W" where
  "MoveItems fuel a = mapM (moveItem fuel a) (cis_Items a)"

section \<open>Deletions and uploads\<close>

record DeleteItem =
  dit_Kind :: string
  dit_ID :: nat

definition deleteItem :: "nat \<Rightarrow> nat \<Rightarrow> DeleteItem \<Rightarrow> BatchResultItem W" where
  "deleteItem userID bucketID it =
     (if dit_Kind it = ItemKindFile then
        bindM (tryM (DeleteFile userID bucketID (dit_ID it))) (\<lambda>r.
        case r of
          Inl e \<Rightarrow> returnM (failedItem ItemKindFile (dit_ID it) [] (Failed e))
        | Inr _ \<Rightarrow> returnM \<lparr>brs_Kind = ItemKindFile, brs_ID = dit_ID it, brs_Name = [], brs_Data = None,
            brs_Error = None, brs_TaskID = 0\<rparr>)
      else if dit_Kind it = ItemKindFolder then
        bindM (tryM (DeleteDir userID bucketID (dit_ID it))) (\<lambda>r.
        case r of
          Inl e \<Rightarrow> returnM (failedItem ItemKindFolder (dit_ID it) [] (Failed e))
        | Inr taskID \<Rightarrow> returnM \<lparr>brs_Kind = ItemKindFolder, brs_ID = dit_ID it, brs_Name = [], brs_Data = None,
            brs_Error = None, brs_TaskID = taskID\<rparr>)
      else returnM (failedItem (dit_Kind it) (dit_ID it) [] (InvalidKind (dit_Kind it))))"

definition DeleteItems :: "nat \<Rightarrow> nat \<Rightarrow> DeleteItem list \<Rightarrow> BatchResultItem list W" where
  "DeleteItems userID bucketID items = mapM (deleteItem userID bucketID) items"

text \<open>
  The names on the way up from a folder.  The loop has no guard against a cycle; more steps than
  there are rows mean that it never ends.
\<close>

fun pathTo_loop :: "nat \<Rightarrow> nat \<Rightarrow> nat \<Rightarrow> string list \<Rightarrow> string list W" where
  "pathTo_loop fuel bucketID cur segs =
     (if cur = 0 then returnM segs
      else (case fuel of 0 \<Rightarrow> hangM
        | Suc n \<Rightarrow>
            bindM (loadFolder bucketID cur) (\<lambda>f.
            pathTo_loop n bucketID (fld_ParentID f) (fld_Name f # segs))))"

declare pathTo_loop.simps [simp del]

definition folderIDToPath :: "nat \<Rightarrow> nat \<Rightarrow> nat \<Rightarrow> string W" where
  "folderIDToPath userID bucketID folderID =
     bindM (if folderID \<noteq> 0 then checkAncestorsAccessTree userID bucketID folderID else returnM ()) (\<lambda>_.
     bindM folderCount (\<lambda>n.
     bindM (pathTo_loop (Suc n) bucketID folderID []) (\<lambda>segs.
     if segs = [] then returnM ''/'' else returnM (''/'' @ join_with (CHR ''/'') segs))))"

record UploadFilesArg =
  ups_UserID :: nat
  ups_BucketID :: nat
  ups_DirPath :: string
  ups_FolderID :: nat
  ups_Items :: "(string \<times> byte list) list"

definition uploadItem :: "(byte list \<Rightarrow> string) \<Rightarrow> (string \<Rightarrow> string) \<Rightarrow> UploadFilesArg \<Rightarrow> string \<times> byte list \<Rightarrow>
    BatchResultItem W" where
  "uploadItem md5 mimeOf a it =
     bindM (if ups_FolderID a \<noteq> 0 then tryM (folderIDToPath (ups_UserID a) (ups_BucketID a) (ups_FolderID a))
            else returnM (Inr (ups_DirPath a))) (\<lambda>p.
     case p of
       Inl e \<Rightarrow> returnM (failedItem ItemKindFile 0 (fst it) (Failed e))
     | Inr dirPath \<Rightarrow>
         bindM (tryM (UploadFile md5 mimeOf \<lparr>upl_UserID = ups_UserID a, upl_BucketID = ups_BucketID a,
             upl_DirPath = dirPath, upl_Filename = fst it, upl_FileType = [], upl_Reader = snd it\<rparr>)) (\<lambda>r.
         case r of
           Inl e \<Rightarrow> returnM (failedItem ItemKindFile 0 (fst it) (Failed e))
         | Inr f \<Rightarrow> returnM (doneFile (fil_ID f) f)))"

definition UploadFiles :: "(byte list \<Rightarrow> string) \<Rightarrow> (string \<Rightarrow> string) \<Rightarrow> UploadFilesArg \<Rightarrow> BatchResultItem list W" where
  "UploadFiles md5 mimeOf a = mapM (uploadItem md5 mimeOf a) (ups_Items a)"

section \<open>Download tasks\<close>

definition new_dltask :: "nat \<Rightarrow> nat \<Rightarrow> nat \<Rightarrow> string \<Rightarrow> time \<Rightarrow> nat \<Rightarrow> DownloadTask" where
  "new_dltask userID bucketID folderID path now i =
     \<lparr>dlt_ID = i, dlt_CreatedAt = now, dlt_DeletedAt = None, dlt_UserID = userID, dlt_BucketID = bucketID,
      dlt_FolderID = folderID, dlt_FilePath = path\<rparr>"

definition CreateDownloadTask :: "nat \<Rightarrow> nat \<Rightarrow> nat \<Rightarrow> DownloadTask W" where
  "CreateDownloadTask userID bucketID folderID =
     bindM (GetFolderMeta bucketID folderID) (\<lambda>_.
     bindM (folderIDToPath userID bucketID folderID) (\<lambda>path.
     bindM (getsM clock) (\<lambda>now.
     execRet (\<lambda>d. (new_dltask userID bucketID folderID path now (seq (downloads d)),
       d\<lparr>downloads := tcreate (new_dltask userID bucketID folderID path now) (downloads d)\<rparr>)))))"

definition the_dltask :: "nat \<Rightarrow> db \<Rightarrow> DownloadTask option" where
  "the_dltask i d = tfirst (\<lambda>r. live_dlt r \<and> dlt_ID r = i) (downloads d)"

definition LoadDownloadTask :: "nat \<Rightarrow> DownloadTask W" where
  "LoadDownloadTask taskID = bindM (queryDB (the_dltask taskID)) orNotFound"

definition DeleteDownloadTask :: "nat \<Rightarrow> unit W" where
  "DeleteDownloadTask taskID =
     bindM (LoadDownloadTask taskID) (\<lambda>_.
     execDB (\<lambda>d. d\<lparr>downloads := tdelete (\<lambda>r. dlt_ID r = taskID) (downloads d)\<rparr>))"

section \<open>Lemmas\<close>

lemma pres_pathTo_loop: "preserves (onDB J) (pathTo_loop n b c ss)"
proof (induction n arbitrary: c ss)
  case 0
  show ?case by (subst pathTo_loop.simps) (simp add: pres)
next
  case (Suc n)
  then show ?case by (subst pathTo_loop.simps) (auto intro!: pres)
qed

lemma pres_folderIDToPath [pres]: "preserves (onDB J) (folderIDToPath u b f)"
  unfolding folderIDToPath_def by (intro pres pres_pathTo_loop)

lemma pres_item_batches [pres]:
  "preserves (onDB db_inv) (CopyItems n a)" "preserves (onDB db_inv) (MoveItems n a)"
  "preserves (onDB db_inv) (DeleteItems u b ds)" "preserves (onDB db_inv) (UploadFiles md5 mimeOf ua)"
  unfolding CopyItems_def copyItem_def MoveItems_def moveItem_def DeleteItems_def deleteItem_def UploadFiles_def
    uploadItem_def Let_def
  by (intro pres)+

lemma pres_check_batch [pres]: "preserves I (CheckBatchItems k)"
  unfolding CheckBatchItems_def by (intro pres)

lemma pres_download_tasks [pres]:
  "preserves (onDB J) (LoadDownloadTask i)" "preserves (onDB db_inv) (CreateDownloadTask u b f)"
  "preserves (onDB db_inv) (DeleteDownloadTask i)"
  unfolding LoadDownloadTask_def CreateDownloadTask_def DeleteDownloadTask_def
  by (intro pres pres_exec pres_execRet; simp)+

lemma total_batches [ends_rules]: "total (CheckBatchItems k)" "total (LoadDownloadTask i)" "total (DeleteDownloadTask i)"
  unfolding CheckBatchItems_def LoadDownloadTask_def DeleteDownloadTask_def by (intro ends_rules)+

text \<open>The names on the way up lead down again.\<close>

definition names_valid :: "nat \<Rightarrow> db \<Rightarrow> bool" where
  "names_valid b d \<longleftrightarrow> (\<forall>f\<in>set (rows (folders d)). live_fld f \<and> fld_BucketID f = b \<longrightarrow>
     ValidateItemName (fld_Name f) = Inr () \<and> fld_NameLower f = ToLower (fld_Name f))"

lemma denotes_append: "denotes d b p (ss @ ts) i \<longleftrightarrow> (\<exists>j. denotes d b p ss j \<and> denotes d b j ts i)"
  by (induction ss arbitrary: p) (auto split: option.splits)

lemma denotes_unique: "denotes d b p ss i \<Longrightarrow> denotes d b p ss j \<Longrightarrow> i = j"
  by (induction ss arbitrary: p) (auto split: option.splits)

lemma denotes_ext: "denotes d b p ss i \<Longrightarrow> folders_ext d e \<Longrightarrow> denotes e b p ss i"
  by (induction ss arbitrary: p) (auto split: option.splits dest: child_named_ext)

lemma child_named_self:
  assumes "the_folder b i d = Some f" "names_ok d" "names_valid b d"
  shows "child_named b (fld_ParentID f) (fld_Name f) d = Some f"
proof -
  note r = the_folder_row[OF assms(1)]
  then have n: "folder_named b (fld_ParentID f) (ToLower (fld_Name f)) f"
    using assms(3) by (auto simp: folder_named_def names_valid_def)
  have d: "distinct (map folder_key (filter live_fld (rows (folders d))))"
    using assms(2) by (simp add: names_ok_def unique_live_def)
  obtain g where g: "child_named b (fld_ParentID f) (fld_Name f) d = Some g"
    using n r by (cases "child_named b (fld_ParentID f) (fld_Name f) d") (auto simp: child_named_def tfirst_None)
  have "folder_key g = folder_key f" "live_fld g"
    using child_named_row[OF g] n by (auto simp: folder_named_def folder_key_def)
  then have "g = f" using d child_named_row[OF g] r by (auto simp: distinct_map dest: inj_onD)
  with g show ?thesis by simp
qed

lemma pathTo_loop_OkD:
  assumes "names_ok d" "names_valid b d"
  shows "pathTo_loop n b c segs w = (Ok ss, w') \<Longrightarrow> wdb w = d \<Longrightarrow>
    \<exists>xs. ss = xs @ segs \<and> denotes d b 0 xs c \<and> (\<forall>s\<in>set xs. ValidateItemName s = Inr ())"
proof (induction n arbitrary: c segs w)
  case 0
  then show ?case by (subst (asm) pathTo_loop.simps) (auto simp: hangM_def returnM_def split: if_splits)
next
  case (Suc n)
  show ?case
  proof (cases "c = 0")
    case True
    with Suc.prems show ?thesis by (subst (asm) pathTo_loop.simps) (auto simp: returnM_def)
  next
    case False
    with Suc.prems(1) obtain f w2 where l: "loadFolder b c w = (Ok f, w2)"
      and r: "pathTo_loop n b (fld_ParentID f) (fld_Name f # segs) w2 = (Ok ss, w')"
      by (subst (asm) pathTo_loop.simps) (auto elim!: bindM_OkE)
    have f: "the_folder b c d = Some f" "wdb w2 = d" using loadFolder_OkD[OF l] Suc.prems(2) by auto
    from Suc.IH[OF r f(2)] obtain xs where xs: "ss = xs @ fld_Name f # segs" "denotes d b 0 xs (fld_ParentID f)"
      "\<forall>s\<in>set xs. ValidateItemName s = Inr ()" by auto
    have "ValidateItemName (fld_Name f) = Inr ()"
      using the_folder_row[OF f(1)] assms(2) by (auto simp: names_valid_def)
    with xs child_named_self[OF f(1) assms] the_folder_row[OF f(1)] show ?thesis
      by (intro exI[of _ "xs @ [fld_Name f]"]) (auto simp: denotes_append)
  qed
qed

text \<open>The segments of an absolute path, before and after its normalisation.\<close>

lemma path_segs_join:
  assumes "good_segs ss"
  shows "path_segs (''/'' @ join_with (CHR ''/'') ss) = ss"
    "NormalizeDirPath (''/'' @ join_with (CHR ''/'') ss) = Inr dir \<Longrightarrow> path_segs dir = ss"
proof -
  let ?q = "join_with (CHR ''/'') ss"
  have s: "split_on (CHR ''/'') ?q = ss" using assms by (intro split_join) (auto simp: good_segs_def)
  have f: "filter (\<lambda>s. s \<noteq> []) ss = ss" using assms by (auto simp: good_segs_def bad_seg_def intro!: filter_True)
  show "path_segs (''/'' @ ?q) = ss" using s f by (simp add: path_segs_def)
  note q = good_segs_hd_last[OF assms]
  have t: "trim_char (CHR ''/'') (''/'' @ ?q) = ?q" using trim_char_id[OF q] by (simp add: trim_char_def)
  assume "NormalizeDirPath (''/'' @ ?q) = Inr dir"
  then have "dir = ?q"
    by (cases rule: NormalizeDirPath_cases) (use t q in auto)
  with s f show "path_segs dir = ss" by (simp add: path_segs_def)
qed

lemma folderIDToPath_OkD:
  assumes "folderIDToPath u b i w = (Ok p, w')" "names_ok (wdb w)" "names_valid b (wdb w)"
  obtains ss where "denotes (wdb w) b 0 ss i" "wdb w' = wdb w" "\<forall>s\<in>set ss. ValidateItemName s = Inr ()"
    "p = ''/'' @ join_with (CHR ''/'') ss"
proof -
  have c: "preserves (onDB J) (if i \<noteq> 0 then checkAncestorsAccessTree u b i else returnM ())" for J
    by (intro pres)
  from assms(1) obtain w1 x n w2 ss w3 where
      1: "(if i \<noteq> 0 then checkAncestorsAccessTree u b i else returnM ()) w = (Ok x, w1)"
    and 2: "folderCount w1 = (Ok n, w2)"
    and 3: "pathTo_loop (Suc n) b i [] w2 = (Ok ss, w3)"
    and 4: "(if ss = [] then returnM ''/'' else returnM (''/'' @ join_with (CHR ''/'') ss)) w3 = (Ok p, w')"
    unfolding folderIDToPath_def by (elim bindM_OkE) blast
  have d: "wdb w2 = wdb w" using keep_OkD[OF c 1] keep_OkD[OF pres_folderCount 2] by simp
  have w': "wdb w' = wdb w" using keep_OkD[OF pres_folderIDToPath assms(1)] .
  have p: "p = ''/'' @ join_with (CHR ''/'') ss" using 4 by (cases ss) (auto simp: returnM_def)
  show thesis using pathTo_loop_OkD[OF assms(2,3) 3 d] p w' that by auto
qed

lemma good_names: "ss \<noteq> [] \<Longrightarrow> \<forall>s\<in>set ss. ValidateItemName s = Inr () \<Longrightarrow> good_segs ss"
  using valid_name_seg by (auto simp: good_segs_def)

section \<open>Properties\<close>

text \<open>C37: an upload to a folder given by its id lands in exactly that folder, in spite of the detour over its
  path, and under the name given or a numbered form of it.\<close>

theorem uploadItem_lands:
  assumes "uploadItem md5 mimeOf a it w = (Ok r, w')" "brs_Data r = Some (FileData f)" "ups_FolderID a \<noteq> 0"
    and "db_inv (wdb w)" "names_valid (ups_BucketID a) (wdb w)"
  shows "fil_FolderID f = ups_FolderID a \<and> fil_BucketID f = ups_BucketID a \<and>
    f \<in> set (rows (files (wdb w'))) \<and> live_fil f \<and> candidate (TrimSpace (fst it)) (fil_Name f) \<and>
    localGet storageRoot (BucketEncoder (ups_BucketID a)) (objectKeyForFile (fil_ID f)) (disk w') = Inr (snd it)"
proof -
  let ?b = "ups_BucketID a" and ?i = "ups_FolderID a"
  let ?arg = "\<lambda>p. \<lparr>upl_UserID = ups_UserID a, upl_BucketID = ?b, upl_DirPath = p, upl_Filename = fst it,
    upl_FileType = [], upl_Reader = snd it\<rparr>"
  from assms(1-3) obtain p w1 where 1: "folderIDToPath (ups_UserID a) ?b ?i w = (Ok p, w1)"
    and 2: "UploadFile md5 mimeOf (?arg p) w1 = (Ok f, w')"
    by (auto simp: uploadItem_def failedItem_def doneFile_def elim!: bindM_OkE dest!: return_OkD tryM_InrD split: sum.splits)
  have n: "names_ok (wdb w)" using assms(4) by (simp add: db_inv_def owing_def)
  obtain ss where ss: "denotes (wdb w) ?b 0 ss ?i" "wdb w1 = wdb w" "\<forall>s\<in>set ss. ValidateItemName s = Inr ()"
    "p = ''/'' @ join_with (CHR ''/'') ss"
    by (rule folderIDToPath_OkD[OF 1 n assms(5)])
  have "ss \<noteq> []" using ss(1) assms(3) by auto
  then have g: "good_segs ss" using ss(3) by (rule good_names)
  have i: "db_inv (wdb w1)" using ss(2) assms(4) by simp
  from UploadFile_Ok[OF 2 i] obtain d dir q nm now where
      u: "NormalizeDirPath p = Inr dir" "folders_ext (wdb w) d" "denotes d ?b 0 (path_segs dir) q"
      "candidate (TrimSpace (fst it)) nm"
      "f = new_file ?b q nm (int (length (snd it))) [] (md5 (snd it)) (ups_UserID a) [] now (seq (files (wdb w)))"
      "wdb w' = add_user_used (ups_UserID a) (fil_FileSize f) (add_bucket_used ?b (fil_FileSize f)
          (d\<lparr>files := tcreate (\<lambda>_. f) (files d)\<rparr>))"
      "localGet storageRoot (BucketEncoder ?b) (objectKeyForFile (fil_ID f)) (disk w') = Inr (snd it)"
    by (auto simp: ss(2))
  have "path_segs dir = ss" using path_segs_join(2)[OF g] u(1) ss(4) by simp
  with denotes_ext[OF ss(1) u(2)] u(3) have "q = ?i" using denotes_unique by metis
  moreover have "fil_FolderID f = q \<and> fil_BucketID f = ?b \<and> live_fil f \<and> fil_Name f = nm"
    using u(5) by (simp add: new_file_def live_fil_def)
  moreover have "f \<in> set (rows (files (wdb w')))"
    using u(6) by (simp add: add_user_used_def add_bucket_used_def tcreate_def)
  ultimately show ?thesis using u(4,7) by auto
qed

definition sample_into :: UploadFilesArg where
  "sample_into = \<lparr>ups_UserID = 2, ups_BucketID = 1, ups_DirPath = [], ups_FolderID = 2, ups_Items = [(''A.txt'', [7, 8, 9])]\<rparr>"

theorem uploadItem_lands_witness:
  "\<exists>f w'. uploadItem (\<lambda>_. ''m'') (\<lambda>_. []) sample_into (''A.txt'', [7, 8, 9]) sample = (Ok (doneFile 2 f), w') \<and>
     fil_FolderID f = 2 \<and> f \<in> set (rows (files (wdb w')))"
proof -
  let ?m = "uploadItem (\<lambda>_. ''m'') (\<lambda>_. []) sample_into (''A.txt'', [7, 8, 9])"
  have "map_outcome brs_Data (fst (?m sample)) =
      Ok (Some (FileData (new_file 1 2 ''A (1).txt'' 3 [] ''m'' 2 [] 0 2)))" by code_simp
  then obtain r w' where r: "?m sample = (Ok r, w')"
      and d: "brs_Data r = Some (FileData (new_file 1 2 ''A (1).txt'' 3 [] ''m'' 2 [] 0 2))"
    by (cases "?m sample"; cases "fst (?m sample)") auto
  have b: "ups_BucketID sample_into = 1" "ups_FolderID sample_into \<noteq> 0" by (simp_all add: sample_into_def)
  have "ValidateItemName ''docs'' = Inr ()" "ValidateItemName ''in'' = Inr ()" by code_simp+
  then have "names_valid 1 (wdb sample)" by (simp add: names_valid_def sample_folder_def)
  with uploadItem_lands[OF r d b(2)] b sample_inv
  have "new_file 1 2 ''A (1).txt'' 3 [] ''m'' 2 [] 0 2 \<in> set (rows (files (wdb w')))" by simp
  moreover from r d have "r = doneFile 2 (new_file 1 2 ''A (1).txt'' 3 [] ''m'' 2 [] 0 2)"
    by (auto simp: uploadItem_def doneFile_def failedItem_def new_file_def elim!: bindM_OkE dest!: return_OkD split: sum.splits)
  ultimately show ?thesis using r by (intro exI[of _ "new_file 1 2 ''A (1).txt'' 3 [] ''m'' 2 [] 0 2"] exI[of _ w']) (simp add: new_file_def)
qed

end
