(* ===== verification/Cron.thy ===== *)
theory Cron
  imports Batches
begin

text \<open>
  The periodic jobs (cron/enter.go, cron/resume.go): the cleaning of expired rows in batches, the
  reconciliation of the users' usage, and the resumption of unfinished tasks.  The log tables are not
  modelled, so the cleaning of logs is left out.
\<close>

section \<open>Cleaning\<close>

text \<open>One batch of keys after the cursor, in increasing order, and the next cursor.\<close>

definition nextIDBatch :: "(db \<Rightarrow> 'r tbl) \<Rightarrow> ('r \<Rightarrow> nat) \<Rightarrow> ('r \<Rightarrow> bool) \<Rightarrow> nat \<Rightarrow> int \<Rightarrow> (nat list \<times> nat) W" where
  "nextIDBatch table idOf cond lastID batchSize =
     bindM (queryDB (\<lambda>d. take (nat batchSize) (sort (map idOf
        (tfind (\<lambda>r. cond r \<and> (lastID > 0 \<longrightarrow> idOf r > lastID)) (table d)))))) (\<lambda>ids.
     returnM (ids, if ids \<noteq> [] then last ids else lastID))"

text \<open>
  The loop that the three cleanings share: take a batch of keys, delete their rows, and stop at
  the first batch that is not full.  Every round but the last removes a row from the query.
\<close>

fun cleanBatches :: "nat \<Rightarrow> (nat \<Rightarrow> (nat list \<times> nat) W) \<Rightarrow> (nat list \<Rightarrow> nat W) \<Rightarrow> int \<Rightarrow> nat \<Rightarrow> nat \<Rightarrow> nat W" where
  "cleanBatches 0 batch del batchSize lastID cleaned = hangM"
| "cleanBatches (Suc n) batch del batchSize lastID cleaned =
     bindM (batch lastID) (\<lambda>(ids, lastID').
     if ids = [] then returnM cleaned
     else
       bindM (del ids) (\<lambda>affected.
       if int (length ids) < batchSize then returnM (cleaned + affected)
       else cleanBatches n batch del batchSize lastID' (cleaned + affected)))"

definition batchSizeOr :: "int \<Rightarrow> int" where
  "batchSizeOr batchSize = (if batchSize \<le> 0 then 100 else batchSize)"

definition expiredToken :: "time \<Rightarrow> RefreshToken \<Rightarrow> bool" where
  "expiredToken now r \<longleftrightarrow> rtk_ExpiresAt r < now \<or> rtk_RevokedAt r \<noteq> None"

definition deleteTokens :: "nat list \<Rightarrow> nat W" where
  "deleteTokens ids = execRet (\<lambda>d. (tcount (\<lambda>r. rtk_ID r \<in> set ids) (tokens d),
     d\<lparr>tokens := tdelete (\<lambda>r. rtk_ID r \<in> set ids) (tokens d)\<rparr>))"

definition CleanExpiredTokens :: "int \<Rightarrow> nat W" where
  "CleanExpiredTokens batchSize =
     (let size = batchSizeOr batchSize in
      bindM (getsM clock) (\<lambda>now.
      bindM (getsM (\<lambda>w. length (rows (tokens (wdb w))))) (\<lambda>n.
      cleanBatches (Suc n) (\<lambda>lastID. nextIDBatch tokens rtk_ID (expiredToken now) lastID size) deleteTokens size 0 0)))"

definition expiredShare :: "time \<Rightarrow> ShareLink \<Rightarrow> bool" where
  "expiredShare now r \<longleftrightarrow> live_shr r \<and> (case shr_ExpiresAt r of None \<Rightarrow> False | Some t \<Rightarrow> t < now)"

definition softDeleteShares :: "time \<Rightarrow> nat list \<Rightarrow> nat W" where
  "softDeleteShares now ids = execRet (\<lambda>d. (tcount (\<lambda>r. live_shr r \<and> shr_ID r \<in> set ids) (shares d),
     d\<lparr>shares := tupdate (\<lambda>r. live_shr r \<and> shr_ID r \<in> set ids) (\<lambda>r. r\<lparr>shr_DeletedAt := Some now\<rparr>) (shares d)\<rparr>))"

definition CleanExpiredShares :: "int \<Rightarrow> nat W" where
  "CleanExpiredShares batchSize =
     (let size = batchSizeOr batchSize in
      bindM (getsM clock) (\<lambda>now.
      bindM (getsM (\<lambda>w. length (rows (shares (wdb w))))) (\<lambda>n.
      cleanBatches (Suc n) (\<lambda>lastID. nextIDBatch shares shr_ID (expiredShare now) lastID size)
        (softDeleteShares now) size 0 0)))"

definition daysAgo :: "time \<Rightarrow> int \<Rightarrow> time" where
  "daysAgo now days = now - nat days * 86400"

definition deleteDownloads :: "nat list \<Rightarrow> nat W" where
  "deleteDownloads ids = execRet (\<lambda>d. (tcount (\<lambda>r. dlt_ID r \<in> set ids) (downloads d),
     d\<lparr>downloads := tdelete (\<lambda>r. dlt_ID r \<in> set ids) (downloads d)\<rparr>))"

definition CleanExpiredDownloadTasks :: "int \<Rightarrow> int \<Rightarrow> nat W" where
  "CleanExpiredDownloadTasks retentionDays batchSize =
     (let days = (if retentionDays \<le> 0 then 7 else retentionDays); size = batchSizeOr batchSize in
      bindM (getsM clock) (\<lambda>now.
      bindM (getsM (\<lambda>w. length (rows (downloads (wdb w))))) (\<lambda>n.
      cleanBatches (Suc n) (\<lambda>lastID. nextIDBatch downloads dlt_ID (\<lambda>r. dlt_CreatedAt r < daysAgo now days) lastID size)
        deleteDownloads size 0 0)))"

section \<open>Reconciliation\<close>

definition usageOf :: "nat \<Rightarrow> db \<Rightarrow> int" where
  "usageOf userID d = sum_list (map fil_FileSize (tfind (\<lambda>f. fil_UploadedBy f = userID) (files d)))"

definition set_used :: "nat \<Rightarrow> int \<Rightarrow> db \<Rightarrow> db" where
  "set_used userID n d = d\<lparr>users := tupdate (\<lambda>r. live_usr r \<and> usr_ID r = userID) (\<lambda>r. r\<lparr>usr_UsedSpace := n\<rparr>) (users d)\<rparr>"

fun reconcileEach :: "User list \<Rightarrow> nat \<Rightarrow> nat W" where
  "reconcileEach [] fixed = returnM fixed"
| "reconcileEach (u # us) fixed =
     bindM (queryDB (usageOf (usr_ID u))) (\<lambda>expected.
     if expected \<noteq> usr_UsedSpace u then
       bindM (execDB (set_used (usr_ID u) expected)) (\<lambda>_. reconcileEach us (Suc fixed))
     else reconcileEach us fixed)"

definition ReconcileUserUsages :: "nat W" where
  "ReconcileUserUsages =
     bindM (queryDB (\<lambda>d. tfind live_usr (users d))) (\<lambda>us. reconcileEach us 0)"

section \<open>Resumption\<close>

text \<open>Every task is tried; the first error is the result.\<close>

fun resumeEach :: "(nat \<Rightarrow> unit W) \<Rightarrow> nat list \<Rightarrow> err option \<Rightarrow> unit W" where
  "resumeEach process [] firstErr = (case firstErr of None \<Rightarrow> returnM () | Some e \<Rightarrow> throwM e)"
| "resumeEach process (i # is) firstErr =
     bindM (tryM (process i)) (\<lambda>r.
     resumeEach process is (case r of Inr _ \<Rightarrow> firstErr
       | Inl e \<Rightarrow> (case firstErr of None \<Rightarrow> Some e | Some e' \<Rightarrow> Some e')))"

definition ResumeDeleteTasks :: "unit W" where
  "ResumeDeleteTasks =
     bindM (queryDB (\<lambda>d. map dtk_ID (tfind (\<lambda>r. live_dtk r \<and> dtk_Status r \<noteq> 2) (deleteTasks d)))) (\<lambda>ts.
     resumeEach ProcessDeleteTask ts None)"

definition ResumeCopyTasks :: "nat \<Rightarrow> unit W" where
  "ResumeCopyTasks fuel =
     bindM (queryDB (\<lambda>d. map ctk_ID (tfind (\<lambda>r. live_ctk r \<and> ctk_Status r \<noteq> 2) (copyTasks d)))) (\<lambda>ts.
     resumeEach (ProcessCopyTask fuel) ts None)"

text \<open>The job that runs every hour; the reconciliation is not part of it yet.\<close>

definition hourly :: "nat \<Rightarrow> int \<Rightarrow> unit W" where
  "hourly fuel recycleDays =
     thenM (ignoreM (CleanExpiredTokens 100))
    (thenM (ignoreM (CleanExpiredShares 100))
    (thenM (ignoreM (CleanExpiredDownloadTasks 7 100))
    (thenM (ignoreM ResumeDeleteTasks)
    (thenM (ignoreM (ResumeCopyTasks fuel))
    (bindM (getsM clock) (\<lambda>now.
     if recycleDays > 0 then ignoreM (CleanExpiredRecycleBin (daysAgo now recycleDays)) else returnM ()))))))"

section \<open>Lemmas\<close>

lemma pres_nextIDBatch [pres]: "preserves (onDB J) (nextIDBatch t i c l s)"
  unfolding nextIDBatch_def by (intro pres)

lemma pres_cleanBatches:
  "(\<And>l. preserves I (b l)) \<Longrightarrow> (\<And>ids. preserves I (del ids)) \<Longrightarrow> preserves I (cleanBatches n b del s l k)"
  by (induction n arbitrary: l k) (auto intro!: pres)

lemma pres_cleanings [pres]:
  "preserves (onDB db_inv) (CleanExpiredTokens s)" "preserves (onDB db_inv) (CleanExpiredShares s)"
  "preserves (onDB db_inv) (CleanExpiredDownloadTasks k s)"
  unfolding CleanExpiredTokens_def CleanExpiredShares_def CleanExpiredDownloadTasks_def Let_def
    deleteTokens_def softDeleteShares_def deleteDownloads_def
  by (intro pres pres_cleanBatches pres_execRet; simp)+

lemma usageOf_fsum: "usageOf u d = fsum (\<lambda>f. fil_UploadedBy f = u) d"
  by (simp add: usageOf_def fsum_def tfind_def)

lemma db_inv_set_used:
  assumes "db_inv d"
  shows "db_inv (set_used u (usageOf u d) d)"
  using assms fsum_nonneg[of d]
  by (auto simp: db_inv_def owing_def set_used_def acct_def tupdate_def usageOf_fsum files_ok_def names_ok_def tree_inv_def
      live_usr_def)

lemma pres_reconcileEach: "preserves (onDB db_inv) (reconcileEach us k)"
proof (induction us arbitrary: k)
  case (Cons u us)
  have "preserves (onDB db_inv) (bindM (queryDB (usageOf (usr_ID u))) (\<lambda>e.
      if e \<noteq> usr_UsedSpace u then bindM (execDB (set_used (usr_ID u) e)) (\<lambda>_. reconcileEach us (Suc k))
      else reconcileEach us k))"
    by (intro db_query db_if valid_bind[OF Cons.IH] valid_onDB_pre[OF Cons.IH] db_exec_last)
      (auto simp: onDB_def db_inv_set_used)
  then show ?case by simp
qed (simp add: pres)

lemma pres_resumeEach: "(\<And>i. preserves I (p i)) \<Longrightarrow> preserves I (resumeEach p is e)"
  by (induction "is" arbitrary: e) (auto intro!: pres)

lemma pres_cron [pres]:
  "preserves (onDB db_inv) ReconcileUserUsages" "preserves (onDB db_inv) ResumeDeleteTasks"
  "preserves (onDB db_inv) (ResumeCopyTasks n)" "preserves (onDB db_inv) (hourly n days)"
  unfolding ReconcileUserUsages_def ResumeDeleteTasks_def ResumeCopyTasks_def hourly_def
  by (intro pres pres_reconcileEach pres_resumeEach)+

section \<open>Lemmas: the rounds of a cleaning\<close>

text \<open>A round of a cleaning: it removes the batch, keeps the rest, and moves the cursor.\<close>

lemma batch_of_sorted:
  fixes idOf :: "'r \<Rightarrow> nat"
  assumes "ids = take s (sort (map idOf (filter C rs)))" "distinct (map idOf rs)" "ids \<noteq> []"
  shows "set ids \<subseteq> idOf ` {r \<in> set rs. C r}" "distinct ids"
    "r \<in> set rs \<Longrightarrow> C r \<Longrightarrow> idOf r \<notin> set ids \<Longrightarrow> last ids < idOf r"
proof -
  let ?all = "sort (map idOf (filter C rs))"
  have d: "distinct ?all" using assms(2) by (simp add: distinct_map_filter)
  show "set ids \<subseteq> idOf ` {r \<in> set rs. C r}" using set_take_subset[of s ?all] by (auto simp: assms(1))
  show "distinct ids" using d by (simp add: assms(1))
  assume r: "r \<in> set rs" "C r" "idOf r \<notin> set ids"
  have a: "?all = ids @ drop s ?all" by (simp add: assms(1))
  have "idOf r \<in> set ?all" using r(1,2) by auto
  then have i: "idOf r \<in> set (drop s ?all)" using r(3) a by (metis Un_iff set_append)
  have "sorted_wrt (<) (ids @ drop s ?all)" using d a by (metis sorted_sort strict_sorted_iff)
  then show "last ids < idOf r" using i last_in_set[OF assms(3)] by (auto simp: sorted_wrt_append)
qed

lemma filter_in_ids:
  assumes "distinct (map idOf rs)" "set ids \<subseteq> idOf ` {r \<in> set rs. C r}"
  shows "filter (\<lambda>r. C r \<and> idOf r \<in> set ids) rs = filter (\<lambda>r. idOf r \<in> set ids) rs"
  using assms by (intro filter_cong) (auto simp: distinct_map dest: inj_onD)

lemma count_ids:
  assumes "distinct (map idOf rs)" "set ids \<subseteq> idOf ` set rs" "distinct ids"
  shows "length (filter (\<lambda>r. idOf r \<in> set ids) rs) = length ids"
proof -
  have "set (map idOf (filter (\<lambda>r. idOf r \<in> set ids) rs)) = set ids" using assms(2) by auto
  moreover have "distinct (map idOf (filter (\<lambda>r. idOf r \<in> set ids) rs))" using assms(1) by (simp add: distinct_map_filter)
  ultimately show ?thesis using assms(3) by (metis distinct_card length_map)
qed

lemma length_filter_split: "length (filter C xs) = length (filter (\<lambda>r. C r \<and> Q r) xs) + length (filter C (filter (\<lambda>r. \<not> Q r) xs))"
  by (induction xs) auto

lemma clean_tokens_loop:
  assumes "0 < bs"
  shows "calm w \<Longrightarrow> distinct (map rtk_ID (rows (tokens (wdb w)))) \<Longrightarrow>
    \<forall>r\<in>set (rows (tokens (wdb w))). C r \<and> 0 < l \<longrightarrow> l < rtk_ID r \<Longrightarrow> tcount C (tokens (wdb w)) < n \<Longrightarrow>
    \<exists>w'. cleanBatches n (\<lambda>l. nextIDBatch tokens rtk_ID C l bs) deleteTokens bs l k w =
        (Ok (k + tcount C (tokens (wdb w))), w') \<and>
      wdb w' = (wdb w)\<lparr>tokens := tdelete C (tokens (wdb w))\<rparr> \<and> disk w' = disk w"
proof (induction n arbitrary: l k w)
  case (Suc n)
  let ?t = "tokens (wdb w)"
  let ?rs = "rows ?t"
  define ids where "ids = take (nat bs) (sort (map rtk_ID (filter C ?rs)))"
  have q: "take (nat bs) (sort (map rtk_ID (tfind (\<lambda>r. C r \<and> (0 < l \<longrightarrow> l < rtk_ID r)) ?t))) = ids"
    unfolding ids_def tfind_def using Suc.prems(3) by (metis (mono_tags, lifting) filter_cong)
  have nf: "\<not> fault w (tick w)" "\<And>t. \<not> fault w t" using Suc.prems(1) by (auto simp: calm_def)
  let ?w1 = "w\<lparr>tick := Suc (tick w)\<rparr>"
  have b: "nextIDBatch tokens rtk_ID C l bs w = (Ok (ids, if ids \<noteq> [] then last ids else l), ?w1)"
    using q nf by (simp add: nextIDBatch_def bindM_def db_run returnM_def)
  show ?case
  proof (cases "ids = []")
    case True
    then have "map rtk_ID (filter C ?rs) = []" using assms by (simp add: ids_def) (metis set_empty set_sort list.set_map image_is_empty)
    then have "filter C ?rs = []" by simp
    then have "tcount C ?t = 0" "tdelete C ?t = ?t" by (auto simp: tcount_def tdelete_def filter_empty_conv)
    with True b show ?thesis by (simp add: bindM_def returnM_def)
  next
    case False
    let ?Q = "\<lambda>r. rtk_ID r \<in> set ids"
    let ?w2 = "?w1\<lparr>tick := Suc (Suc (tick w)), wdb := (wdb w)\<lparr>tokens := tdelete ?Q ?t\<rparr>\<rparr>"
    note bt = batch_of_sorted[OF ids_def Suc.prems(2) False]
    have cQ: "filter (\<lambda>r. C r \<and> ?Q r) ?rs = filter ?Q ?rs" by (rule filter_in_ids[OF Suc.prems(2) bt(1)])
    have n: "tcount ?Q ?t = length ids"
      unfolding tcount_def by (rule count_ids[OF Suc.prems(2) _ bt(2)]) (use bt(1) in auto)
    have d: "deleteTokens ids ?w1 = (Ok (length ids), ?w2)"
      using nf by (simp add: deleteTokens_def db_run n)
    have c: "tcount C ?t = length ids + tcount C (tdelete ?Q ?t)"
      using length_filter_split[of C ?rs ?Q] n cQ by (simp add: tcount_def tdelete_def)
    have dd: "tdelete C (tdelete ?Q ?t) = tdelete C ?t"
    proof -
      have "\<forall>r\<in>set ?rs. ?Q r \<longrightarrow> C r" using bt(1) Suc.prems(2) by (auto simp: distinct_map dest: inj_onD)
      then have "filter (\<lambda>r. \<not> ?Q r \<and> \<not> C r) ?rs = filter (\<lambda>r. \<not> C r) ?rs" by (intro filter_cong) auto
      then show ?thesis by (simp add: tdelete_def conj_commute)
    qed
    show ?thesis
    proof (cases "int (length ids) < bs")
      case True
      then have "ids = sort (map rtk_ID (filter C ?rs))" by (auto simp: ids_def min_def split: if_splits)
      then have "set ids = rtk_ID ` {r \<in> set ?rs. C r}" by auto
      then have "tcount C (tdelete ?Q ?t) = 0" by (auto simp: tcount_0 tdelete_def)
      moreover from this have "tdelete C (tdelete ?Q ?t) = tdelete ?Q ?t"
        by (auto simp: tcount_0 tdelete_def intro!: arg_cong[where f = "\<lambda>rs. ?t\<lparr>rows := rs\<rparr>"] filter_cong)
      ultimately show ?thesis using True False b d c dd by (simp add: bindM_def returnM_def)
    next
      case nt: False
      have p: "calm ?w2" "distinct (map rtk_ID (rows (tokens (wdb ?w2))))" "tcount C (tokens (wdb ?w2)) < n"
        using nf Suc.prems(2,4) c False by (auto simp: calm_def tdelete_def distinct_map_filter neq_Nil_conv)
      have "\<forall>r\<in>set (rows (tokens (wdb ?w2))). C r \<and> 0 < last ids \<longrightarrow> last ids < rtk_ID r"
        using bt(3) by (auto simp: tdelete_def)
      from Suc.IH[OF p(1,2) this p(3), of "k + length ids"] show ?thesis
        using False nt b d c dd by (auto simp: bindM_def ac_simps)
    qed
  qed
qed simp

section \<open>Properties\<close>

text \<open>C38: when no call fails, the hourly cleaning of the refresh tokens ends, removes every expired or revoked
  token whatever the size of its batches, and nothing else, and returns how many there were.\<close>

theorem CleanExpiredTokens_complete:
  assumes "calm w" "distinct (map rtk_ID (rows (tokens (wdb w))))"
  shows "\<exists>w'. CleanExpiredTokens batchSize w = (Ok (tcount (expiredToken (clock w)) (tokens (wdb w))), w') \<and>
    wdb w' = (wdb w)\<lparr>tokens := tdelete (expiredToken (clock w)) (tokens (wdb w))\<rparr> \<and> disk w' = disk w"
proof -
  have "0 < batchSizeOr batchSize" by (simp add: batchSizeOr_def)
  from clean_tokens_loop[OF this assms, where l = 0 and n = "Suc (length (rows (tokens (wdb w))))" and k = 0
      and C = "expiredToken (clock w)"]
  show ?thesis
    by (auto simp: CleanExpiredTokens_def Let_def bindM_def getsM_def tcount_def less_Suc_eq_le)
qed

definition old_token :: "nat \<Rightarrow> time \<Rightarrow> time option \<Rightarrow> RefreshToken" where
  "old_token i ex rv = \<lparr>rtk_ID = i, rtk_DeletedAt = None, rtk_UserID = 1, rtk_Token = [], rtk_ExpiresAt = ex,
     rtk_RevokedAt = rv, rtk_UserAgent = [], rtk_IP = []\<rparr>"

theorem CleanExpiredTokens_complete_witness:
  "\<exists>w'. CleanExpiredTokens 1 (calm_world (empty_db\<lparr>tokens :=
      \<lparr>rows = [old_token 1 0 (Some 0), old_token 2 0 None, old_token 3 0 (Some 0)], seq = 4\<rparr>\<rparr>) (\<lambda>_. None)) = (Ok 2, w') \<and>
     rows (tokens (wdb w')) = [old_token 2 0 None]"
proof -
  let ?w = "calm_world (empty_db\<lparr>tokens :=
      \<lparr>rows = [old_token 1 0 (Some 0), old_token 2 0 None, old_token 3 0 (Some 0)], seq = 4\<rparr>\<rparr>) (\<lambda>_. None)"
  have "calm ?w" "distinct (map rtk_ID (rows (tokens (wdb ?w))))" by (simp_all add: calm_def old_token_def)
  moreover have "tcount (expiredToken (clock ?w)) (tokens (wdb ?w)) = 2"
    "rows (tdelete (expiredToken (clock ?w)) (tokens (wdb ?w))) = [old_token 2 0 None]"
    by (simp_all add: tcount_def tdelete_def expiredToken_def old_token_def)
  ultimately show ?thesis using CleanExpiredTokens_complete[of ?w 1] by fastforce
qed

end
