(* ===== verification/Handlers.thy ===== *)
theory Handlers
  imports Ranges Perm Buckets Batches
begin

text \<open>
  The HTTP handlers (api/): each checks the caller's rights and calls the service layer.  The binding of
  paths, queries and JSON bodies is gin's, so a handler takes its typed fields; an error becomes the
  status of common.HTTPStatus in the theory Api.
\<close>

section \<open>Libraries and replies\<close>

text \<open>What the handlers use from outside the repository: hashes and JWT, MD5 and the MIME table, the database's
  LIKE, JSON arrays and orders, and the update times that gorm keeps; with the configuration that they read.
  copyFuel bounds the rounds of a copy task.\<close>

record libs =
  lib_crypto :: crypto
  lib_jwt :: JwtService
  lib_md5 :: "byte list \<Rightarrow> string"
  lib_mime :: "string \<Rightarrow> string"
  lib_likes :: "string \<Rightarrow> string \<Rightarrow> bool"
  lib_json_ints :: "string \<Rightarrow> nat list option"
  lib_updatedAt :: "nat \<Rightarrow> time"
  lib_orderUsers :: "string \<Rightarrow> User list \<Rightarrow> User list"
  lib_orderGroups :: "string \<Rightarrow> UserGroup list \<Rightarrow> UserGroup list"
  lib_orderMembers :: "string \<Rightarrow> UserGroupMember list \<Rightarrow> UserGroupMember list"
  lib_orderShares :: "string \<Rightarrow> ShareLink list \<Rightarrow> ShareLink list"
  lib_orderFiles :: "string \<Rightarrow> File list \<Rightarrow> File list"
  lib_orderFolders :: "string \<Rightarrow> Folder list \<Rightarrow> Folder list"
  lib_adminCreateOnly :: bool
  lib_userLimit :: "(nat \<Rightarrow> bool) option"
  lib_copyFuel :: nat

text \<open>The file stream of a download: status, headers and body.\<close>

record streamed =
  str_Status :: nat
  str_ContentType :: string
  str_Disposition :: string
  str_ContentLength :: int
  str_ContentRange :: "(ByteRange \<times> int) option"
  str_Headers :: "(string \<times> string) list"
  str_Body :: "byte list"

datatype reply =
    NoContent
  | RUser User
  | RUsers nat "User list"
  | RLogin LoginResult
  | RBucket Bucket
  | RBuckets "Bucket list"
  | RGroup UserGroup
  | RGroups nat "UserGroup list"
  | RMyGroups "UserGroup list"
  | RMember nat nat
  | RMembers nat "MemberInfo list"
  | RFile File
  | RFolder Folder
  | RFiles "File list"
  | RFolders "Folder list"
  | RListing "File list" "Folder list" nat
  | RCursors "File list" "Folder list" string string
  | RUploads "File list" "(string \<times> batchError) list"
  | RBatch "(string \<times> nat \<times> string) list" "(string \<times> nat \<times> batchError) list"
  | RStream streamed
  | RVisibility nat "nat list"
  | RRecycledFiles "File PaginatedResult"
  | RRecycledFolders "Folder PaginatedResult"
  | RShare ShareLink
  | RShares nat "ShareLink list"
  | RSharedFolder Folder "File list" "Folder list" nat
  | RDownloadTask DownloadTask
  | RDownloadResume DownloadTask Folder

definition replyM :: "('a \<Rightarrow> reply) \<Rightarrow> 'a W \<Rightarrow> reply W" where
  "replyM f m = bindM m (\<lambda>x. returnM (f x))"

section \<open>Accounts\<close>

definition AuthAPI_Register :: "libs \<Rightarrow> string \<Rightarrow> string \<Rightarrow> int option \<Rightarrow> reply W" where
  "AuthAPI_Register L username password level =
     replyM RUser (Register (lib_crypto L) \<lparr>rga_Username = username, rga_Password = password,
       rga_PermissionLevel = (case level of None \<Rightarrow> NormalUser | Some p \<Rightarrow> p)\<rparr>)"

definition AuthAPI_Login :: "libs \<Rightarrow> string \<Rightarrow> string \<Rightarrow> reply W" where
  "AuthAPI_Login L username password = replyM RLogin (Login (lib_crypto L) (lib_jwt L) username password)"

definition AuthAPI_Refresh :: "libs \<Rightarrow> string \<Rightarrow> reply W" where
  "AuthAPI_Refresh L token = replyM RLogin (Refresh (lib_crypto L) (lib_jwt L) token)"

definition AuthAPI_Logout :: "libs \<Rightarrow> string \<Rightarrow> reply W" where
  "AuthAPI_Logout L token = replyM (\<lambda>_. NoContent) (Logout (lib_crypto L) token)"

definition UserAPI_Me :: "nat \<Rightarrow> reply W" where
  "UserAPI_Me userID = replyM RUser (GetUser userID)"

definition UserAPI_UpdateMe :: "libs \<Rightarrow> nat \<Rightarrow> string \<Rightarrow> string \<Rightarrow> string \<Rightarrow> reply W" where
  "UserAPI_UpdateMe L userID password name email = replyM RUser (UpdateMe (lib_crypto L) userID password name email)"

definition UserAPI_ListUsers :: "libs \<Rightarrow> int \<Rightarrow> int \<Rightarrow> reply W" where
  "UserAPI_ListUsers L page pageSize =
     replyM (\<lambda>(total, us). RUsers total us) (ListUsers (lib_likes L) (lib_orderUsers L) page pageSize)"

text \<open>The operator's level, as the token says, must be strictly higher than the target's.\<close>

definition outranks :: "Claims \<Rightarrow> nat \<Rightarrow> unit W" where
  "outranks c targetID =
     bindM (GetUser targetID) (\<lambda>target.
     if clm_PermissionLevel c \<ge> usr_PermissionLevel target then throwM ErrForbidden else returnM ())"

definition UserAPI_UpdateUser :: "libs \<Rightarrow> Claims \<Rightarrow> nat \<Rightarrow> UpdateUserInput \<Rightarrow> reply W" where
  "UserAPI_UpdateUser L c targetID inp =
     thenM (outranks c targetID) (replyM RUser (UpdateUser (lib_crypto L) targetID inp))"

definition UserAPI_UpdateUserQuota :: "Claims \<Rightarrow> nat \<Rightarrow> int option \<Rightarrow> reply W" where
  "UserAPI_UpdateUserQuota c targetID quota =
     thenM (outranks c targetID) (replyM RUser (UpdateUserQuota targetID quota))"

definition UserAPI_DeleteUser :: "Claims \<Rightarrow> nat \<Rightarrow> reply W" where
  "UserAPI_DeleteUser c targetID =
     thenM (outranks c targetID) (replyM (\<lambda>_. NoContent) (DeleteUser targetID))"

section \<open>Buckets\<close>

definition BucketAPI_CreateBucket :: "libs \<Rightarrow> nat \<Rightarrow> string \<Rightarrow> string \<Rightarrow> int \<Rightarrow> int \<Rightarrow> reply W" where
  "BucketAPI_CreateBucket L userID name description level manageLevel =
     bindM (permUserActive userID) (\<lambda>u.
     if lib_adminCreateOnly L \<and> \<not> IsAdmin (usr_PermissionLevel u) then throwM ErrForbidden
     else if level < 0 then throwM ErrInvalidInput
     else
       let perm = (if level = 0 then usr_PermissionLevel u else level) in
       if perm \<noteq> usr_PermissionLevel u then throwM ErrForbidden
       else if manageLevel < 0 then throwM ErrInvalidInput
       else if manageLevel \<noteq> 0 \<and> manageLevel > perm then throwM ErrInvalidInput
       else replyM RBucket (CreateBucket \<lparr>cba_OwnerID = userID, cba_Name = name, cba_Description = description,
              cba_PermissionLevel = perm, cba_ManagePermissionLevel = (if manageLevel = 0 then perm else manageLevel)\<rparr>))"

definition BucketAPI_ListBuckets :: "libs \<Rightarrow> nat \<Rightarrow> reply W" where
  "BucketAPI_ListBuckets L userID =
     bindM (permUserActive userID) (\<lambda>_. replyM RBuckets (ListBuckets (lib_updatedAt L) userID))"

definition BucketAPI_GetBucket :: "nat \<Rightarrow> reply W" where
  "BucketAPI_GetBucket bucketID = replyM RBucket (GetBucket bucketID)"

definition BucketAPI_UpdateBucket :: "nat \<Rightarrow> nat \<Rightarrow> UpdateBucketInput \<Rightarrow> reply W" where
  "BucketAPI_UpdateBucket userID bucketID inp =
     bindM (GetBucket bucketID) (\<lambda>b.
     thenM (permCanManageBucket userID b)
           (replyM RBucket (UpdateBucket userID bucketID inp)))"

definition BucketAPI_DeleteBucket :: "nat \<Rightarrow> nat \<Rightarrow> reply W" where
  "BucketAPI_DeleteBucket userID bucketID =
     bindM (GetBucket bucketID) (\<lambda>b.
     thenM (permCanManageBucket userID b)
           (replyM (\<lambda>_. NoContent) (DeleteBucket userID bucketID)))"

section \<open>Groups\<close>

definition GroupAPI_CreateGroup :: "nat \<Rightarrow> string \<Rightarrow> string \<Rightarrow> reply W" where
  "GroupAPI_CreateGroup userID name description = replyM RGroup (CreateGroup userID name description)"

definition GroupAPI_ListGroups :: "libs \<Rightarrow> nat \<Rightarrow> int \<Rightarrow> int \<Rightarrow> reply W" where
  "GroupAPI_ListGroups L userID page pageSize =
     replyM (\<lambda>(total, gs). RGroups total gs) (ListGroups (lib_likes L) (lib_orderGroups L) userID page pageSize)"

definition GroupAPI_GetGroup :: "nat \<Rightarrow> nat \<Rightarrow> reply W" where
  "GroupAPI_GetGroup userID groupID =
     bindM (GetGroup groupID) (\<lambda>g. thenM (permGroupVisible userID groupID) (returnM (RGroup g)))"

definition GroupAPI_UpdateGroup :: "nat \<Rightarrow> string \<Rightarrow> string \<Rightarrow> int option \<Rightarrow> reply W" where
  "GroupAPI_UpdateGroup groupID name description status = replyM RGroup (UpdateGroup groupID name description status)"

definition GroupAPI_DeleteGroup :: "nat \<Rightarrow> reply W" where
  "GroupAPI_DeleteGroup groupID = replyM (\<lambda>_. NoContent) (DeleteGroup groupID)"

definition GroupAPI_AddGroupMember :: "nat \<Rightarrow> nat \<Rightarrow> reply W" where
  "GroupAPI_AddGroupMember groupID memberID =
     (if memberID = 0 then throwM ErrInvalidInput
      else replyM (\<lambda>_. RMember groupID memberID) (AddGroupMember groupID memberID))"

definition GroupAPI_RemoveGroupMember :: "nat \<Rightarrow> nat \<Rightarrow> reply W" where
  "GroupAPI_RemoveGroupMember groupID memberID = replyM (\<lambda>_. NoContent) (RemoveGroupMember groupID memberID)"

definition GroupAPI_ListGroupMembers :: "libs \<Rightarrow> nat \<Rightarrow> nat \<Rightarrow> int \<Rightarrow> int \<Rightarrow> reply W" where
  "GroupAPI_ListGroupMembers L userID groupID page pageSize =
     bindM (GetGroup groupID) (\<lambda>_.
     thenM (permGroupVisible userID groupID)
     (replyM (\<lambda>(total, ms). RMembers total ms)
       (ListGroupMembers (lib_likes L) (lib_orderMembers L) groupID page pageSize)))"

definition GroupAPI_ListMyGroups :: "nat \<Rightarrow> reply W" where
  "GroupAPI_ListMyGroups userID = replyM RMyGroups (ListMyGroups userID)"

section \<open>Streams\<close>

definition hexUpper :: "nat \<Rightarrow> char" where
  "hexUpper n = ''0123456789ABCDEF'' ! n"

text \<open>url.QueryEscape, byte by byte.\<close>

definition escapeByte :: "char \<Rightarrow> string" where
  "escapeByte c =
     (let n = of_char c :: nat in
      if 48 \<le> n \<and> n \<le> 57 \<or> 65 \<le> n \<and> n \<le> 90 \<or> 97 \<le> n \<and> n \<le> 122 \<or> c \<in> set ''-_.~'' then [c]
      else if c = CHR '' '' then ''+''
      else [CHR ''%'', hexUpper (n div 16), hexUpper (n mod 16)])"

definition QueryEscape :: "string \<Rightarrow> string" where
  "QueryEscape s = concat (map escapeByte s)"

definition attachment :: "File \<Rightarrow> string" where
  "attachment f = ''attachment; filename*=UTF-8'' @ [char_of (39 :: nat), char_of (39 :: nat)] @ QueryEscape (fil_Name f)"

definition contains :: "string \<Rightarrow> string \<Rightarrow> bool" where
  "contains s p \<longleftrightarrow> list_ex (\<lambda>n. take (length p) (drop n s) = p) [0..<Suc (length s)]"

definition has_prefix :: "string \<Rightarrow> string \<Rightarrow> bool" where
  "has_prefix s p \<longleftrightarrow> take (length p) s = p"

definition previewContentType :: "File \<Rightarrow> string \<times> string" where
  "previewContentType f =
     (let t = ToLower (TrimSpace (fil_FileType f)) in
      if t = ''application/pdf'' \<or> t = ''application/json'' \<or>
         has_prefix t ''image/'' \<and> t \<noteq> ''image/svg+xml'' \<or>
         has_prefix t ''audio/'' \<or> has_prefix t ''video/'' \<or>
         t = ''text/plain'' \<or> t = ''text/markdown'' \<or> t = ''text/csv'' then (t, ''inline'')
      else if has_prefix t ''text/'' then (''text/plain; charset=utf-8'', ''inline'')
      else if t = ''image/svg+xml'' \<or> t = ''application/xhtml+xml'' \<or> t = ''application/xml'' \<or> t = ''text/xml'' \<or>
         contains t ''javascript'' then (''text/plain; charset=utf-8'', ''inline'')
      else (''application/octet-stream'', attachment f))"

definition parseRangeHeader :: "string \<Rightarrow> File \<Rightarrow> ByteRange option W" where
  "parseRangeHeader header f =
     (if header = [] then returnM None
      else (case ParseRange header (fil_FileSize f) of
          Inl _ \<Rightarrow> throwM ErrRangeNotSatisfiable
        | Inr br \<Rightarrow> returnM br))"

definition serveFileStream ::
  "byte list \<Rightarrow> File \<Rightarrow> string \<Rightarrow> string \<Rightarrow> ByteRange option \<Rightarrow> (string \<times> string) list \<Rightarrow> reply" where
  "serveFileStream rc meta disposition contentType br headers =
     RStream \<lparr>str_Status = (case br of None \<Rightarrow> 200 | Some _ \<Rightarrow> 206),
       str_ContentType = (if contentType = [] then ''application/octet-stream'' else contentType),
       str_Disposition = disposition,
       str_ContentLength = (case br of None \<Rightarrow> fil_FileSize meta | Some r \<Rightarrow> Length r),
       str_ContentRange = (case br of None \<Rightarrow> None | Some r \<Rightarrow> Some (r, fil_FileSize meta)),
       str_Headers = headers, str_Body = rc\<rparr>"

text \<open>What the two authenticated downloads share: rights, range, and the bytes.\<close>

definition openStream :: "nat \<Rightarrow> nat \<Rightarrow> nat \<Rightarrow> string \<Rightarrow> (byte list \<times> File \<times> ByteRange option) W" where
  "openStream userID bucketID fileID rangeHeader =
     bindM (precheckFileRead userID bucketID fileID) (\<lambda>f.
     bindM (parseRangeHeader rangeHeader f) (\<lambda>br.
     bindM (case br of
         None \<Rightarrow> DownloadFile bucketID fileID
       | Some r \<Rightarrow> DownloadFileRange bucketID fileID (Start r) (End r)) (\<lambda>(rc, meta).
     returnM (rc, meta, br))))"

definition FileAPI_DownloadFile :: "nat \<Rightarrow> nat \<Rightarrow> nat \<Rightarrow> string \<Rightarrow> reply W" where
  "FileAPI_DownloadFile userID bucketID fileID rangeHeader =
     bindM (openStream userID bucketID fileID rangeHeader) (\<lambda>(rc, meta, br).
     returnM (serveFileStream rc meta (attachment meta) ''application/octet-stream'' br []))"

definition previewHeaders :: "(string \<times> string) list" where
  "previewHeaders = [(''X-Content-Type-Options'', ''nosniff''), (''Content-Security-Policy'', ''sandbox'')]"

definition writePreviewStream :: "nat \<Rightarrow> nat \<Rightarrow> nat \<Rightarrow> string \<Rightarrow> reply W" where
  "writePreviewStream userID bucketID fileID rangeHeader =
     bindM (openStream userID bucketID fileID rangeHeader) (\<lambda>(rc, meta, br).
     let (contentType, disposition) = previewContentType meta in
     returnM (serveFileStream rc meta disposition contentType br previewHeaders))"

definition FileAPI_PreviewFile :: "nat \<Rightarrow> nat \<Rightarrow> nat \<Rightarrow> string \<Rightarrow> reply W" where
  "FileAPI_PreviewFile = writePreviewStream"

definition FileAPI_StreamFile :: "nat \<Rightarrow> nat \<Rightarrow> nat \<Rightarrow> string \<Rightarrow> reply W" where
  "FileAPI_StreamFile = writePreviewStream"

end
