(* ===== verification/FileHandlers.thy ===== *)
theory FileHandlers
  imports Handlers
begin

text \<open>
  The handlers of files and directories (api/file_api.go, file_ops_api.go, file_batch_api.go,
  file_search.go), of the recycle bin, of share links and of download tasks.  A task that a handler hands
  to the pool runs before its answer here; its error is only logged.
\<close>

section \<open>Files and directories\<close>

text \<open>The content is None when the part of the form is missing or cannot be opened.\<close>

definition FileAPI_UploadFile :: "libs \<Rightarrow> nat \<Rightarrow> nat \<Rightarrow> string \<Rightarrow> string \<Rightarrow> string \<Rightarrow> byte list option \<Rightarrow> reply W" where
  "FileAPI_UploadFile L userID bucketID path filename fileType content =
     bindM (precheckBucketWrite userID bucketID) (\<lambda>_.
     case content of
       None \<Rightarrow> throwM ErrInvalidInput
     | Some data \<Rightarrow>
         replyM RFile (UploadFile (lib_md5 L) (lib_mime L) \<lparr>upl_UserID = userID, upl_BucketID = bucketID,
           upl_DirPath = path, upl_Filename = filename, upl_FileType = fileType, upl_Reader = data\<rparr>))"

fun uploaded :: "BatchResultItem list \<Rightarrow> File list" where
  "uploaded [] = []"
| "uploaded (r # rs) =
     (case (brs_Error r, brs_Data r) of (None, Some (FileData f)) \<Rightarrow> f # uploaded rs | _ \<Rightarrow> uploaded rs)"

fun notUploaded :: "BatchResultItem list \<Rightarrow> (string \<times> batchError) list" where
  "notUploaded [] = []"
| "notUploaded (r # rs) = (case brs_Error r of None \<Rightarrow> notUploaded rs | Some e \<Rightarrow> (brs_Name r, e) # notUploaded rs)"

definition opened :: "(string \<times> byte list option) list \<Rightarrow> (string \<times> byte list) list" where
  "opened fhs = map (\<lambda>(n, x). (n, the x)) (filter (\<lambda>(n, x). x \<noteq> None) fhs)"

definition FileAPI_UploadFiles :: "libs \<Rightarrow> nat \<Rightarrow> nat \<Rightarrow> string \<Rightarrow> nat \<Rightarrow> (string \<times> byte list option) list \<Rightarrow> reply W" where
  "FileAPI_UploadFiles L userID bucketID path folderID fhs =
     bindM (precheckBucketWrite userID bucketID) (\<lambda>_.
     if fhs = [] then throwM ErrInvalidInput
     else
       replyM (\<lambda>rs. RUploads (uploaded rs) (notUploaded rs))
         (UploadFiles (lib_md5 L) (lib_mime L) \<lparr>ups_UserID = userID, ups_BucketID = bucketID, ups_DirPath = path,
            ups_FolderID = folderID, ups_Items = opened fhs\<rparr>))"

record ListReq =
  lrq_Path :: string
  lrq_Page :: int
  lrq_PageSize :: int
  lrq_Cursor :: string
  lrq_FilesCursor :: string
  lrq_FoldersCursor :: string
  lrq_Key :: string
  lrq_Order :: string

definition FileAPI_ListFiles :: "libs \<Rightarrow> nat \<Rightarrow> nat \<Rightarrow> ListReq \<Rightarrow> reply W" where
  "FileAPI_ListFiles L userID bucketID r =
     bindM (precheckBucketRead userID bucketID) (\<lambda>_.
     let pageSize = (if lrq_PageSize r \<le> 0 then 50 else lrq_PageSize r);
         page = (if lrq_Page r < 1 then 1 else lrq_Page r) in
     if lrq_Cursor r = ''1'' then
       replyM (\<lambda>(fs, ds, nf, nd). RCursors fs ds nf nd)
         (ListFilesCursor (lib_json_ints L) \<lparr>lca_UserID = userID, lca_BucketID = bucketID, lca_DirPath = lrq_Path r,
            lca_FileCursor = lrq_FilesCursor r, lca_FolderCursor = lrq_FoldersCursor r, lca_PageSize = pageSize\<rparr>)
     else
       replyM (\<lambda>(fs, ds, n). RListing fs ds n)
         (ListFiles (lib_likes L) (lib_json_ints L) \<lparr>lfa_UserID = userID, lfa_BucketID = bucketID, lfa_DirPath = lrq_Path r,
            lfa_Page = page, lfa_PageSize = pageSize, lfa_Key = lrq_Key r, lfa_Order = lrq_Order r\<rparr>))"

definition FileAPI_GetFileMeta :: "nat \<Rightarrow> nat \<Rightarrow> nat \<Rightarrow> reply W" where
  "FileAPI_GetFileMeta userID bucketID fileID = replyM RFile (precheckFileRead userID bucketID fileID)"

definition FileAPI_GetFolderMeta :: "nat \<Rightarrow> nat \<Rightarrow> nat \<Rightarrow> reply W" where
  "FileAPI_GetFolderMeta userID bucketID dirID = replyM RFolder (precheckFolderRead userID bucketID dirID)"

definition FileAPI_DeleteFile :: "nat \<Rightarrow> nat \<Rightarrow> nat \<Rightarrow> reply W" where
  "FileAPI_DeleteFile userID bucketID fileID =
     bindM (precheckFileRead userID bucketID fileID) (\<lambda>_.
     replyM (\<lambda>_. NoContent) (DeleteFile userID bucketID fileID))"

definition FileAPI_CopyFile :: "nat \<Rightarrow> nat \<Rightarrow> nat \<Rightarrow> nat \<Rightarrow> string \<Rightarrow> string \<Rightarrow> reply W" where
  "FileAPI_CopyFile userID srcBucketID srcFileID dstBucketID dstDir filename =
     (if dstBucketID = 0 then throwM ErrInvalidInput
      else
        bindM (precheckFileRead userID srcBucketID srcFileID) (\<lambda>_.
        bindM (precheckBucketWrite userID dstBucketID) (\<lambda>_.
        replyM RFile (CopyFile \<lparr>cpf_UserID = userID, cpf_SrcBucketID = srcBucketID, cpf_SrcFileID = srcFileID,
          cpf_DstBucketID = dstBucketID, cpf_DstDirPath = dstDir, cpf_DstFilename = filename, cpf_DstFolderID = 0\<rparr>))))"

definition FileAPI_CopyFolder :: "libs \<Rightarrow> nat \<Rightarrow> nat \<Rightarrow> nat \<Rightarrow> nat \<Rightarrow> string \<Rightarrow> string \<Rightarrow> reply W" where
  "FileAPI_CopyFolder L userID srcBucketID srcFolderID dstBucketID dstDir dstName =
     (if dstBucketID = 0 then throwM ErrInvalidInput
      else
        bindM (precheckFolderRead userID srcBucketID srcFolderID) (\<lambda>_.
        bindM (precheckBucketWrite userID dstBucketID) (\<lambda>_.
        replyM RFolder (CopyFolder (lib_copyFuel L) \<lparr>cpd_UserID = userID, cpd_SrcBucketID = srcBucketID,
          cpd_SrcFolderID = srcFolderID, cpd_DstBucketID = dstBucketID, cpd_DstDirPath = dstDir, cpd_DstName = dstName\<rparr>))))"

definition givenBucket :: "nat \<Rightarrow> nat option \<Rightarrow> nat" where
  "givenBucket srcBucketID dst = (case dst of None \<Rightarrow> srcBucketID | Some b \<Rightarrow> b)"

definition moveArg :: "nat \<Rightarrow> nat \<Rightarrow> nat \<Rightarrow> nat \<Rightarrow> string \<Rightarrow> string \<Rightarrow> MoveArg" where
  "moveArg userID srcBucketID srcID dstBucketID dstDir name =
     \<lparr>mov_UserID = userID, mov_SrcBucketID = srcBucketID, mov_SrcID = srcID, mov_DstBucketID = dstBucketID,
      mov_DstDirPath = dstDir, mov_DstName = name\<rparr>"

definition FileAPI_MoveFile :: "libs \<Rightarrow> nat \<Rightarrow> nat \<Rightarrow> nat \<Rightarrow> nat option \<Rightarrow> string \<Rightarrow> string \<Rightarrow> reply W" where
  "FileAPI_MoveFile L userID srcBucketID srcFileID dst dstDir filename =
     (let dstBucketID = givenBucket srcBucketID dst in
      if dstBucketID = 0 then throwM ErrInvalidInput
      else
        bindM (precheckFileRead userID srcBucketID srcFileID) (\<lambda>_.
        bindM (precheckBucketWrite userID dstBucketID) (\<lambda>_.
        replyM RFile (MoveFile (lib_copyFuel L) (moveArg userID srcBucketID srcFileID dstBucketID dstDir filename)))))"

definition FileAPI_MoveFolder :: "nat \<Rightarrow> nat \<Rightarrow> nat \<Rightarrow> nat option \<Rightarrow> string \<Rightarrow> string \<Rightarrow> reply W" where
  "FileAPI_MoveFolder userID srcBucketID srcDirID dst dstDir filename =
     (let dstBucketID = givenBucket srcBucketID dst in
      if dstBucketID = 0 then throwM ErrInvalidInput
      else
        bindM (precheckFolderRead userID srcBucketID srcDirID) (\<lambda>_.
        bindM (precheckBucketWrite userID dstBucketID) (\<lambda>_.
        replyM RFolder (MoveFolder (moveArg userID srcBucketID srcDirID dstBucketID dstDir filename)))))"

definition FileAPI_CreateDir :: "nat \<Rightarrow> nat \<Rightarrow> string \<Rightarrow> reply W" where
  "FileAPI_CreateDir userID bucketID path =
     bindM (precheckBucketWrite userID bucketID) (\<lambda>_. replyM RFolder (CreateDir userID bucketID path))"

definition submitDelete :: "nat \<Rightarrow> unit W" where
  "submitDelete taskID = whenM (taskID > 0) (ignoreM (ProcessDeleteTask taskID))"

definition FileAPI_DeleteDir :: "nat \<Rightarrow> nat \<Rightarrow> nat \<Rightarrow> reply W" where
  "FileAPI_DeleteDir userID bucketID dirID =
     bindM (precheckFolderRead userID bucketID dirID) (\<lambda>_.
     bindM (DeleteDir userID bucketID dirID) (\<lambda>taskID.
     thenM (submitDelete taskID) (returnM NoContent)))"

definition FileAPI_SetFileVisibility :: "nat \<Rightarrow> nat \<Rightarrow> nat \<Rightarrow> nat list \<Rightarrow> reply W" where
  "FileAPI_SetFileVisibility userID bucketID fileID groupIDs =
     bindM (precheckFileRead userID bucketID fileID) (\<lambda>f.
     thenM (permOwnerOrAdmin userID (fil_UploadedBy f))
     (replyM (\<lambda>_. RVisibility fileID groupIDs) (SetFileVisibility userID bucketID fileID groupIDs)))"

definition FileAPI_SetFolderVisibility :: "nat \<Rightarrow> nat \<Rightarrow> nat \<Rightarrow> nat list \<Rightarrow> reply W" where
  "FileAPI_SetFolderVisibility userID bucketID dirID groupIDs =
     bindM (precheckFolderRead userID bucketID dirID) (\<lambda>f.
     thenM (permOwnerOrAdmin userID (fld_UploadedBy f))
     (replyM (\<lambda>_. RVisibility dirID groupIDs) (SetFolderVisibility userID bucketID dirID groupIDs)))"

definition FileAPI_FileSearch :: "libs \<Rightarrow> nat \<Rightarrow> nat \<Rightarrow> SearchArg \<Rightarrow> reply W" where
  "FileAPI_FileSearch L userID bucketID a =
     bindM (precheckBucketRead userID bucketID) (\<lambda>_.
     replyM RFiles (FileSearch (lib_likes L) (lib_json_ints L) (a\<lparr>sea_UserID := userID, sea_BucketID := bucketID\<rparr>)))"

definition FileAPI_FolderSearch :: "libs \<Rightarrow> nat \<Rightarrow> nat \<Rightarrow> SearchArg \<Rightarrow> reply W" where
  "FileAPI_FolderSearch L userID bucketID a =
     bindM (precheckBucketRead userID bucketID) (\<lambda>_.
     replyM RFolders (FolderSearch (lib_likes L) (lib_json_ints L) (a\<lparr>sea_UserID := userID, sea_BucketID := bucketID\<rparr>)))"

section \<open>Batches\<close>

definition precheckItem :: "nat \<Rightarrow> nat \<Rightarrow> string \<Rightarrow> nat \<Rightarrow> unit W" where
  "precheckItem userID bucketID kind i =
     (if i = 0 then throwM ErrInvalidInput
      else if kind = ItemKindFile then bindM (precheckFileRead userID bucketID i) (\<lambda>_. returnM ())
      else if kind = ItemKindFolder then bindM (precheckFolderRead userID bucketID i) (\<lambda>_. returnM ())
      else throwM ErrInvalidInput)"

fun precheckItems :: "nat \<Rightarrow> nat \<Rightarrow> (string \<times> nat) list \<Rightarrow> (string \<times> nat \<times> batchError) list W" where
  "precheckItems userID bucketID [] = returnM []"
| "precheckItems userID bucketID ((kind, i) # items) =
     bindM (tryM (precheckItem userID bucketID kind i)) (\<lambda>r.
     bindM (precheckItems userID bucketID items) (\<lambda>failed.
     returnM (case r of Inl e \<Rightarrow> (kind, i, Failed e) # failed | Inr _ \<Rightarrow> failed)))"

fun succeeded :: "BatchResultItem list \<Rightarrow> (string \<times> nat \<times> string) list" where
  "succeeded [] = []"
| "succeeded (r # rs) = (case brs_Error r of None \<Rightarrow> (brs_Kind r, brs_ID r, brs_Name r) # succeeded rs | Some _ \<Rightarrow> succeeded rs)"

fun failures :: "BatchResultItem list \<Rightarrow> (string \<times> nat \<times> batchError) list" where
  "failures [] = []"
| "failures (r # rs) = (case brs_Error r of None \<Rightarrow> failures rs | Some e \<Rightarrow> (brs_Kind r, brs_ID r, e) # failures rs)"

definition respondResult :: "BatchResultItem list \<Rightarrow> (string \<times> nat \<times> batchError) list \<Rightarrow> reply" where
  "respondResult results failed = RBatch (succeeded results) (failed @ failures results)"

definition FileAPI_BatchDelete :: "nat \<Rightarrow> nat \<Rightarrow> DeleteItem list \<Rightarrow> reply W" where
  "FileAPI_BatchDelete userID bucketID items =
     thenM (CheckBatchItems (int (length items)))
     (bindM (precheckBucketWrite userID bucketID) (\<lambda>_.
      bindM (precheckItems userID bucketID (map (\<lambda>it. (dit_Kind it, dit_ID it)) items)) (\<lambda>failed.
      if failed \<noteq> [] then returnM (respondResult [] failed)
      else
        bindM (DeleteItems userID bucketID items) (\<lambda>results.
        thenM (forM results (\<lambda>r. submitDelete (brs_TaskID r)))
              (returnM (respondResult results []))))))"

definition batchArg :: "nat \<Rightarrow> nat \<Rightarrow> nat \<Rightarrow> string \<Rightarrow> CopyItem list \<Rightarrow> CopyItemsArg" where
  "batchArg userID srcBucketID dstBucketID dstDir items =
     \<lparr>cis_UserID = userID, cis_SrcBucketID = srcBucketID, cis_DstBucketID = dstBucketID, cis_DstDir = dstDir,
      cis_Items = items\<rparr>"

definition sourcesOf :: "CopyItem list \<Rightarrow> (string \<times> nat) list" where
  "sourcesOf items = map (\<lambda>it. (cit_Kind it, cit_SrcID it)) items"

definition FileAPI_BatchCopy :: "libs \<Rightarrow> nat \<Rightarrow> nat \<Rightarrow> nat \<Rightarrow> string \<Rightarrow> CopyItem list \<Rightarrow> reply W" where
  "FileAPI_BatchCopy L userID srcBucketID dstBucketID dstDir items =
     (if dstBucketID = 0 then throwM ErrInvalidInput
      else
        thenM (CheckBatchItems (int (length items)))
        (bindM (precheckItems userID srcBucketID (sourcesOf items)) (\<lambda>failed.
         if failed \<noteq> [] then returnM (respondResult [] failed)
         else
           bindM (precheckBucketWrite userID dstBucketID) (\<lambda>_.
           replyM (\<lambda>rs. respondResult rs [])
             (CopyItems (lib_copyFuel L) (batchArg userID srcBucketID dstBucketID dstDir items))))))"

definition FileAPI_BatchMove :: "libs \<Rightarrow> nat \<Rightarrow> nat \<Rightarrow> nat \<Rightarrow> string \<Rightarrow> CopyItem list \<Rightarrow> reply W" where
  "FileAPI_BatchMove L userID srcBucketID dst dstDir items =
     (let dstBucketID = (if dst = 0 then srcBucketID else dst) in
      thenM (CheckBatchItems (int (length items)))
      (bindM (precheckItems userID srcBucketID (sourcesOf items)) (\<lambda>failed.
       if failed \<noteq> [] then returnM (respondResult [] failed)
       else
         bindM (precheckBucketWrite userID dstBucketID) (\<lambda>_.
         replyM (\<lambda>rs. respondResult rs [])
           (MoveItems (lib_copyFuel L) (batchArg userID srcBucketID dstBucketID dstDir items))))))"

section \<open>Recycle bin\<close>

text \<open>Whose bin: the caller's, or for an administrator, as the token says, anybody's.\<close>

definition recycleTarget :: "Claims \<Rightarrow> nat \<Rightarrow> nat W" where
  "recycleTarget c userID =
     (let target = (if userID = 0 then clm_UserID c else userID) in
      if target \<noteq> clm_UserID c \<and> \<not> IsAdmin (clm_PermissionLevel c) then throwM ErrForbidden else returnM target)"

definition recycleOption :: "PageOption \<Rightarrow> PageOption" where
  "recycleOption p = p\<lparr>po_DefaultOrder := ''deleted_at DESC, id DESC'', po_Orderby := ''deleted_at''\<rparr>"

definition RecycleBinAPI_ListRecycleFile :: "libs \<Rightarrow> Claims \<Rightarrow> nat \<Rightarrow> PageOption \<Rightarrow> reply W" where
  "RecycleBinAPI_ListRecycleFile L c userID p =
     bindM (recycleTarget c userID) (\<lambda>target.
     replyM RRecycledFiles (PageQuery (lib_likes L) (lib_orderFiles L) (\<lambda>d. rows (files d)) fil_ID fil_CreatedAt
       [\<lambda>r. fil_DeletedAt r \<noteq> None \<and> fil_UploadedBy r = target] [fil_NameLower] (recycleOption p) None))"

definition RecycleBinAPI_ListRecycleFolder :: "libs \<Rightarrow> Claims \<Rightarrow> nat \<Rightarrow> PageOption \<Rightarrow> reply W" where
  "RecycleBinAPI_ListRecycleFolder L c userID p =
     bindM (recycleTarget c userID) (\<lambda>target.
     replyM RRecycledFolders (PageQuery (lib_likes L) (lib_orderFolders L) (\<lambda>d. rows (folders d)) fld_ID fld_CreatedAt
       [\<lambda>r. fld_DeletedAt r \<noteq> None \<and> fld_UploadedBy r = target] [fld_NameLower] (recycleOption p) None))"

definition ownRecycled :: "Claims \<Rightarrow> nat \<Rightarrow> unit W" where
  "ownRecycled c fileID =
     bindM (GetRecycledFile fileID) (\<lambda>f.
     if fil_UploadedBy f \<noteq> clm_UserID c \<and> \<not> IsAdmin (clm_PermissionLevel c) then throwM ErrForbidden else returnM ())"

definition RecycleBinAPI_DeleteRecycleFile :: "Claims \<Rightarrow> nat \<Rightarrow> reply W" where
  "RecycleBinAPI_DeleteRecycleFile c fileID =
     thenM (ownRecycled c fileID) (replyM (\<lambda>_. NoContent) (DeleteRecycledFile fileID))"

definition RecycleBinAPI_RestoreRecycleFile :: "Claims \<Rightarrow> nat \<Rightarrow> reply W" where
  "RecycleBinAPI_RestoreRecycleFile c fileID =
     thenM (ownRecycled c fileID) (replyM RFile (RestoreRecycledFile fileID))"

section \<open>Share links\<close>

text \<open>The owner of the item with a key, a folder before a file; an error of a query is a miss.\<close>

definition sharedOwner :: "nat \<Rightarrow> nat W" where
  "sharedOwner i =
     bindM (tryM (loadFolderByID i)) (\<lambda>r.
     case r of
       Inr f \<Rightarrow> returnM (fld_UploadedBy f)
     | Inl _ \<Rightarrow>
         bindM (tryM (loadFileByID i)) (\<lambda>r.
         case r of Inr f \<Rightarrow> returnM (fil_UploadedBy f) | Inl _ \<Rightarrow> throwM ErrNotFound))"

definition ShareAPI_CreateShare :: "libs \<Rightarrow> nat \<Rightarrow> CreateShareArg \<Rightarrow> reply W" where
  "ShareAPI_CreateShare L userID a =
     (if csh_FileID a = 0 then throwM ErrInvalidInput
      else
        bindM (sharedOwner (csh_FileID a)) (\<lambda>ownerID.
        thenM (permOwnerOrAdmin userID ownerID)
        (replyM RShare (CreateShare (lib_crypto L) (a\<lparr>csh_UserID := userID\<rparr>)))))"

definition ShareAPI_ListShares :: "libs \<Rightarrow> nat \<Rightarrow> int \<Rightarrow> int \<Rightarrow> reply W" where
  "ShareAPI_ListShares L userID page pageSize =
     replyM (\<lambda>(n, ss). RShares n ss) (ListShares (lib_likes L) (lib_orderShares L) userID page pageSize)"

definition ownShare :: "nat \<Rightarrow> nat \<Rightarrow> unit W" where
  "ownShare userID shareID =
     bindM (LoadShare shareID) (\<lambda>s. if shr_CreatorID s \<noteq> userID then throwM ErrForbidden else returnM ())"

definition ShareAPI_UpdateShare :: "libs \<Rightarrow> nat \<Rightarrow> nat \<Rightarrow> UpdateShareInput \<Rightarrow> reply W" where
  "ShareAPI_UpdateShare L userID shareID inp =
     thenM (ownShare userID shareID) (replyM RShare (UpdateShare (lib_crypto L) shareID inp))"

definition ShareAPI_DeleteShare :: "nat \<Rightarrow> nat \<Rightarrow> reply W" where
  "ShareAPI_DeleteShare userID shareID =
     thenM (ownShare userID shareID) (replyM (\<lambda>_. NoContent) (DeleteShare shareID))"

record ResolveShareReq =
  rsr_Token :: string
  rsr_Password :: string
  rsr_Path :: string
  rsr_Download :: string
  rsr_Preview :: string
  rsr_Page :: int
  rsr_PageSize :: int
  rsr_Range :: string

definition sharedStream :: "libs \<Rightarrow> ResolveShareReq \<Rightarrow> reply W" where
  "sharedStream L r =
     (let cr = lib_crypto L; t = rsr_Token r; pw = rsr_Password r; path = rsr_Path r in
      bindM (if rsr_Range r \<noteq> [] then bindM (SharedFileMeta cr t pw path) (parseRangeHeader (rsr_Range r))
             else returnM None) (\<lambda>br.
      bindM (case br of
          None \<Rightarrow> DownloadSharedFile cr t pw path
        | Some b \<Rightarrow> DownloadSharedFileRange cr t pw path (Start b) (End b)) (\<lambda>(rc, meta).
      returnM (serveFileStream rc meta (attachment meta) (fil_FileType meta) br []))))"

definition ShareAPI_ResolveShare :: "libs \<Rightarrow> ResolveShareReq \<Rightarrow> reply W" where
  "ShareAPI_ResolveShare L r =
     (if rsr_Download r = ''1'' \<or> rsr_Preview r = ''1'' then sharedStream L r
      else
        bindM (ResolveShare (lib_crypto L) (rsr_Token r) (rsr_Password r)) (\<lambda>item.
        case item of
          Inr folder \<Rightarrow>
            replyM (\<lambda>(fs, ds, n). RSharedFolder folder fs ds n)
              (ListSharedDir (lib_crypto L) \<lparr>lsd_Token = rsr_Token r, lsd_Password = rsr_Password r,
                 lsd_RelPath = rsr_Path r, lsd_Page = rsr_Page r, lsd_PageSize = rsr_PageSize r\<rparr>)
        | Inl f \<Rightarrow> returnM (RFile f)))"

section \<open>Download tasks\<close>

definition DownloadAPI_CreateDownloadTask :: "nat \<Rightarrow> nat \<Rightarrow> nat \<Rightarrow> reply W" where
  "DownloadAPI_CreateDownloadTask userID bucketID folderID =
     (if bucketID = 0 \<or> folderID = 0 then throwM ErrInvalidInput
      else
        bindM (precheckFolderRead userID bucketID folderID) (\<lambda>_.
        replyM RDownloadTask (CreateDownloadTask userID bucketID folderID)))"

definition ownDownload :: "nat \<Rightarrow> nat \<Rightarrow> DownloadTask W" where
  "ownDownload userID taskID =
     bindM (LoadDownloadTask taskID) (\<lambda>t. if dlt_UserID t \<noteq> userID then throwM ErrForbidden else returnM t)"

definition downloadTaskResume :: "nat \<Rightarrow> nat \<Rightarrow> (DownloadTask \<times> Folder) W" where
  "downloadTaskResume userID taskID =
     bindM (ownDownload userID taskID) (\<lambda>t.
     bindM (precheckFolderRead userID (dlt_BucketID t) (dlt_FolderID t)) (\<lambda>f.
     returnM (t, f)))"

definition DownloadAPI_GetDownloadTask :: "nat \<Rightarrow> nat \<Rightarrow> reply W" where
  "DownloadAPI_GetDownloadTask userID taskID =
     replyM (\<lambda>(t, f). RDownloadResume t f) (downloadTaskResume userID taskID)"

definition DownloadAPI_CompleteDownloadTask :: "nat \<Rightarrow> nat \<Rightarrow> reply W" where
  "DownloadAPI_CompleteDownloadTask userID taskID =
     bindM (ownDownload userID taskID) (\<lambda>_. replyM (\<lambda>_. NoContent) (DeleteDownloadTask taskID))"

end
