(* ===== verification/Api.thy ===== *)
theory Api
  imports FileHandlers Cron
begin

text \<open>
  The server as a whole: the routes with their middleware (api/router_*.go, api/middleware.go), and the
  runs of the system, in which requests, the hourly jobs, failures of database and storage, and the
  passing of time follow each other in any order.
\<close>

section \<open>Requests\<close>

text \<open>One constructor per route, with the fields that gin binds.\<close>

datatype request =
    ReqLogin string string
  | ReqRefresh string
  | ReqRegister string string "int option"
  | ReqLogout string
  | ReqMe
  | ReqUpdateMe string string string
  | ReqListUsers int int
  | ReqUpdateUser nat UpdateUserInput
  | ReqUpdateUserQuota nat "int option"
  | ReqDeleteUser nat
  | ReqMyGroups
  | ReqCreateGroup string string
  | ReqListGroups int int
  | ReqGetGroup nat
  | ReqUpdateGroup nat string string "int option"
  | ReqDeleteGroup nat
  | ReqAddGroupMember nat nat
  | ReqRemoveGroupMember nat nat
  | ReqListGroupMembers nat int int
  | ReqCreateBucket string string int int
  | ReqListBuckets
  | ReqGetBucket nat
  | ReqUpdateBucket nat UpdateBucketInput
  | ReqDeleteBucket nat
  | ReqDownload nat nat string
  | ReqPreview nat nat string
  | ReqStream nat nat string
  | ReqUpload nat string string string "byte list option"
  | ReqUploadBatch nat string nat "(string \<times> byte list option) list"
  | ReqListFiles nat ListReq
  | ReqFileSearch nat SearchArg
  | ReqFolderSearch nat SearchArg
  | ReqFileMeta nat nat
  | ReqFolderMeta nat nat
  | ReqCopyFile nat nat nat string string
  | ReqMoveFile nat nat "nat option" string string
  | ReqMoveFolder nat nat "nat option" string string
  | ReqDeleteFile nat nat
  | ReqCreateDir nat string
  | ReqDeleteDir nat nat
  | ReqCopyFolder nat nat nat string string
  | ReqBatchDelete nat "DeleteItem list"
  | ReqBatchCopy nat nat string "CopyItem list"
  | ReqBatchMove nat nat string "CopyItem list"
  | ReqFileVisibility nat nat "nat list"
  | ReqFolderVisibility nat nat "nat list"
  | ReqRecycledFiles nat PageOption
  | ReqRecycledFolders nat PageOption
  | ReqPurgeRecycled nat
  | ReqRestoreRecycled nat
  | ReqResolveShare ResolveShareReq
  | ReqCreateShare CreateShareArg
  | ReqListShares int int
  | ReqUpdateShare nat UpdateShareInput
  | ReqDeleteShare nat
  | ReqCreateDownload nat nat
  | ReqGetDownload nat
  | ReqCompleteDownload nat

section \<open>Middleware\<close>

text \<open>An answer of the server: what a handler wrote, or the status of an error.\<close>

datatype answer = Answered reply | Rejected nat

definition respond :: "reply W \<Rightarrow> answer W" where
  "respond m =
     bindM (tryM m) (\<lambda>r.
     case r of Inl e \<Rightarrow> returnM (Rejected (HTTPStatus e)) | Inr x \<Rightarrow> returnM (Answered x))"

text \<open>The caller as the token says, or the status of the refusal.\<close>

definition AuthMiddleware :: "libs \<Rightarrow> string \<Rightarrow> (nat + Claims) W" where
  "AuthMiddleware L header =
     (if \<not> has_prefix header ''Bearer '' then returnM (Inl 401)
      else
        bindM (tryM (VerifyToken (lib_crypto L) (lib_jwt L) (drop 7 header))) (\<lambda>r.
        case r of
          Inl _ \<Rightarrow> returnM (Inl 401)
        | Inr c \<Rightarrow>
            if (case lib_userLimit L of None \<Rightarrow> False | Some allow \<Rightarrow> \<not> allow (clm_UserID c)) then returnM (Inl 429)
            else returnM (Inr c)))"

definition QueryTokenAuthMiddleware :: "libs \<Rightarrow> string \<Rightarrow> (nat + Claims) W" where
  "QueryTokenAuthMiddleware L token =
     (if token = [] then returnM (Inl 401)
      else
        bindM (tryM (VerifyToken (lib_crypto L) (lib_jwt L) token)) (\<lambda>r.
        case r of Inl _ \<Rightarrow> returnM (Inl 401) | Inr c \<Rightarrow> returnM (Inr c)))"

definition AdminMiddleware :: "Claims \<Rightarrow> nat + Claims" where
  "AdminMiddleware c = (if IsAdmin (clm_PermissionLevel c) then Inr c else Inl 403)"

section \<open>Routes\<close>

text \<open>A route with the middleware in front of its handler: none, the token of the header, the same for an
  administrator, or the token of the query.\<close>

datatype route =
    Open "reply W"
  | Authed "Claims \<Rightarrow> reply W"
  | AdminOnly "Claims \<Rightarrow> reply W"
  | QueryToken "Claims \<Rightarrow> reply W"

definition AuthRouter :: "libs \<Rightarrow> request \<Rightarrow> route option" where
  "AuthRouter L req = (case req of
       ReqLogin n p \<Rightarrow> Some (Open (AuthAPI_Login L n p))
     | ReqRefresh t \<Rightarrow> Some (Open (AuthAPI_Refresh L t))
     | ReqRegister n p l \<Rightarrow> Some (AdminOnly (\<lambda>c. AuthAPI_Register L n p l))
     | ReqLogout t \<Rightarrow> Some (Authed (\<lambda>c. AuthAPI_Logout L t))
     | _ \<Rightarrow> None)"

definition UserRouter :: "libs \<Rightarrow> request \<Rightarrow> route option" where
  "UserRouter L req = (case req of
       ReqMe \<Rightarrow> Some (Authed (\<lambda>c. UserAPI_Me (clm_UserID c)))
     | ReqUpdateMe p n e \<Rightarrow> Some (Authed (\<lambda>c. UserAPI_UpdateMe L (clm_UserID c) p n e))
     | ReqListUsers p n \<Rightarrow> Some (AdminOnly (\<lambda>c. UserAPI_ListUsers L p n))
     | ReqUpdateUser i inp \<Rightarrow> Some (AdminOnly (\<lambda>c. UserAPI_UpdateUser L c i inp))
     | ReqUpdateUserQuota i q \<Rightarrow> Some (AdminOnly (\<lambda>c. UserAPI_UpdateUserQuota c i q))
     | ReqDeleteUser i \<Rightarrow> Some (AdminOnly (\<lambda>c. UserAPI_DeleteUser c i))
     | _ \<Rightarrow> None)"

definition GroupRouter :: "libs \<Rightarrow> request \<Rightarrow> route option" where
  "GroupRouter L req = (case req of
       ReqMyGroups \<Rightarrow> Some (Authed (\<lambda>c. GroupAPI_ListMyGroups (clm_UserID c)))
     | ReqCreateGroup n s \<Rightarrow> Some (AdminOnly (\<lambda>c. GroupAPI_CreateGroup (clm_UserID c) n s))
     | ReqListGroups p n \<Rightarrow> Some (AdminOnly (\<lambda>c. GroupAPI_ListGroups L (clm_UserID c) p n))
     | ReqGetGroup i \<Rightarrow> Some (Authed (\<lambda>c. GroupAPI_GetGroup (clm_UserID c) i))
     | ReqUpdateGroup i n s st \<Rightarrow> Some (AdminOnly (\<lambda>c. GroupAPI_UpdateGroup i n s st))
     | ReqDeleteGroup i \<Rightarrow> Some (AdminOnly (\<lambda>c. GroupAPI_DeleteGroup i))
     | ReqAddGroupMember g m \<Rightarrow> Some (AdminOnly (\<lambda>c. GroupAPI_AddGroupMember g m))
     | ReqRemoveGroupMember g m \<Rightarrow> Some (AdminOnly (\<lambda>c. GroupAPI_RemoveGroupMember g m))
     | ReqListGroupMembers g p n \<Rightarrow> Some (Authed (\<lambda>c. GroupAPI_ListGroupMembers L (clm_UserID c) g p n))
     | _ \<Rightarrow> None)"

definition BucketRouter :: "libs \<Rightarrow> request \<Rightarrow> route option" where
  "BucketRouter L req = (case req of
       ReqCreateBucket n s l m \<Rightarrow> Some (Authed (\<lambda>c. BucketAPI_CreateBucket L (clm_UserID c) n s l m))
     | ReqListBuckets \<Rightarrow> Some (Authed (\<lambda>c. BucketAPI_ListBuckets L (clm_UserID c)))
     | ReqGetBucket b \<Rightarrow> Some (Authed (\<lambda>c. BucketAPI_GetBucket b))
     | ReqUpdateBucket b inp \<Rightarrow> Some (Authed (\<lambda>c. BucketAPI_UpdateBucket (clm_UserID c) b inp))
     | ReqDeleteBucket b \<Rightarrow> Some (Authed (\<lambda>c. BucketAPI_DeleteBucket (clm_UserID c) b))
     | _ \<Rightarrow> None)"

definition FileRouter :: "libs \<Rightarrow> request \<Rightarrow> route option" where
  "FileRouter L req = (case req of
       ReqDownload b f r \<Rightarrow> Some (Authed (\<lambda>c. FileAPI_DownloadFile (clm_UserID c) b f r))
     | ReqPreview b f r \<Rightarrow> Some (Authed (\<lambda>c. FileAPI_PreviewFile (clm_UserID c) b f r))
     | ReqStream b f r \<Rightarrow> Some (QueryToken (\<lambda>c. FileAPI_StreamFile (clm_UserID c) b f r))
     | ReqUpload b p n t x \<Rightarrow> Some (Authed (\<lambda>c. FileAPI_UploadFile L (clm_UserID c) b p n t x))
     | ReqUploadBatch b p i fs \<Rightarrow> Some (Authed (\<lambda>c. FileAPI_UploadFiles L (clm_UserID c) b p i fs))
     | ReqListFiles b r \<Rightarrow> Some (Authed (\<lambda>c. FileAPI_ListFiles L (clm_UserID c) b r))
     | ReqFileSearch b a \<Rightarrow> Some (Authed (\<lambda>c. FileAPI_FileSearch L (clm_UserID c) b a))
     | ReqFolderSearch b a \<Rightarrow> Some (Authed (\<lambda>c. FileAPI_FolderSearch L (clm_UserID c) b a))
     | ReqFileMeta b f \<Rightarrow> Some (Authed (\<lambda>c. FileAPI_GetFileMeta (clm_UserID c) b f))
     | ReqFolderMeta b f \<Rightarrow> Some (Authed (\<lambda>c. FileAPI_GetFolderMeta (clm_UserID c) b f))
     | ReqCopyFile b f db dd n \<Rightarrow> Some (Authed (\<lambda>c. FileAPI_CopyFile (clm_UserID c) b f db dd n))
     | ReqMoveFile b f db dd n \<Rightarrow> Some (Authed (\<lambda>c. FileAPI_MoveFile L (clm_UserID c) b f db dd n))
     | ReqMoveFolder b f db dd n \<Rightarrow> Some (Authed (\<lambda>c. FileAPI_MoveFolder (clm_UserID c) b f db dd n))
     | ReqDeleteFile b f \<Rightarrow> Some (Authed (\<lambda>c. FileAPI_DeleteFile (clm_UserID c) b f))
     | ReqCreateDir b p \<Rightarrow> Some (Authed (\<lambda>c. FileAPI_CreateDir (clm_UserID c) b p))
     | ReqDeleteDir b f \<Rightarrow> Some (Authed (\<lambda>c. FileAPI_DeleteDir (clm_UserID c) b f))
     | ReqCopyFolder b f db dd n \<Rightarrow> Some (Authed (\<lambda>c. FileAPI_CopyFolder L (clm_UserID c) b f db dd n))
     | ReqBatchDelete b ds \<Rightarrow> Some (Authed (\<lambda>c. FileAPI_BatchDelete (clm_UserID c) b ds))
     | ReqBatchCopy b db dd cs \<Rightarrow> Some (Authed (\<lambda>c. FileAPI_BatchCopy L (clm_UserID c) b db dd cs))
     | ReqBatchMove b db dd cs \<Rightarrow> Some (Authed (\<lambda>c. FileAPI_BatchMove L (clm_UserID c) b db dd cs))
     | ReqFileVisibility b f gs \<Rightarrow> Some (Authed (\<lambda>c. FileAPI_SetFileVisibility (clm_UserID c) b f gs))
     | ReqFolderVisibility b f gs \<Rightarrow> Some (Authed (\<lambda>c. FileAPI_SetFolderVisibility (clm_UserID c) b f gs))
     | _ \<Rightarrow> None)"

definition ShareRouter :: "libs \<Rightarrow> request \<Rightarrow> route option" where
  "ShareRouter L req = (case req of
       ReqResolveShare r \<Rightarrow> Some (Open (ShareAPI_ResolveShare L r))
     | ReqCreateShare a \<Rightarrow> Some (Authed (\<lambda>c. ShareAPI_CreateShare L (clm_UserID c) a))
     | ReqListShares p n \<Rightarrow> Some (Authed (\<lambda>c. ShareAPI_ListShares L (clm_UserID c) p n))
     | ReqUpdateShare i inp \<Rightarrow> Some (Authed (\<lambda>c. ShareAPI_UpdateShare L (clm_UserID c) i inp))
     | ReqDeleteShare i \<Rightarrow> Some (Authed (\<lambda>c. ShareAPI_DeleteShare (clm_UserID c) i))
     | _ \<Rightarrow> None)"

definition DownloadRouter :: "request \<Rightarrow> route option" where
  "DownloadRouter req = (case req of
       ReqCreateDownload b f \<Rightarrow> Some (Authed (\<lambda>c. DownloadAPI_CreateDownloadTask (clm_UserID c) b f))
     | ReqGetDownload i \<Rightarrow> Some (Authed (\<lambda>c. DownloadAPI_GetDownloadTask (clm_UserID c) i))
     | ReqCompleteDownload i \<Rightarrow> Some (Authed (\<lambda>c. DownloadAPI_CompleteDownloadTask (clm_UserID c) i))
     | _ \<Rightarrow> None)"

definition RecycleBinRouter :: "libs \<Rightarrow> request \<Rightarrow> route option" where
  "RecycleBinRouter L req = (case req of
       ReqRecycledFiles i p \<Rightarrow> Some (Authed (\<lambda>c. RecycleBinAPI_ListRecycleFile L c i p))
     | ReqRecycledFolders i p \<Rightarrow> Some (Authed (\<lambda>c. RecycleBinAPI_ListRecycleFolder L c i p))
     | ReqPurgeRecycled i \<Rightarrow> Some (Authed (\<lambda>c. RecycleBinAPI_DeleteRecycleFile c i))
     | ReqRestoreRecycled i \<Rightarrow> Some (Authed (\<lambda>c. RecycleBinAPI_RestoreRecycleFile c i))
     | _ \<Rightarrow> None)"

text \<open>The modules of the router in the order of their registration.\<close>

definition Router :: "libs \<Rightarrow> request \<Rightarrow> route option" where
  "Router L req = (case List.map_filter id
       [AuthRouter L req, UserRouter L req, GroupRouter L req, BucketRouter L req, FileRouter L req, ShareRouter L req,
        DownloadRouter req, RecycleBinRouter L req]
     of [] \<Rightarrow> None | r # _ \<Rightarrow> Some r)"

text \<open>The credential is the Authorization header, and for the media stream the token of the query.  None is the
  caller of an open route.\<close>

definition authenticate :: "libs \<Rightarrow> string \<Rightarrow> route \<Rightarrow> (nat + Claims option) W" where
  "authenticate L cred rt = (case rt of
       Open h \<Rightarrow> returnM (Inr None)
     | Authed h \<Rightarrow> bindM (AuthMiddleware L cred) (\<lambda>r. returnM (map_sum id Some r))
     | AdminOnly h \<Rightarrow> bindM (AuthMiddleware L cred) (\<lambda>r.
         returnM (case r of Inl st \<Rightarrow> Inl st | Inr c \<Rightarrow> map_sum id Some (AdminMiddleware c)))
     | QueryToken h \<Rightarrow> bindM (QueryTokenAuthMiddleware L cred) (\<lambda>r. returnM (map_sum id Some r)))"

definition runHandler :: "route \<Rightarrow> Claims option \<Rightarrow> reply W" where
  "runHandler rt caller = (case (rt, caller) of
       (Open h, _) \<Rightarrow> h
     | (Authed h, Some c) \<Rightarrow> h c
     | (AdminOnly h, Some c) \<Rightarrow> h c
     | (QueryToken h, Some c) \<Rightarrow> h c
     | (_, None) \<Rightarrow> throwM ErrForbidden)"

definition serve :: "libs \<Rightarrow> string \<Rightarrow> request \<Rightarrow> answer W" where
  "serve L cred req = (case Router L req of
       None \<Rightarrow> returnM (Rejected 404)
     | Some rt \<Rightarrow>
         bindM (authenticate L cred rt) (\<lambda>r.
         case r of
           Inl st \<Rightarrow> returnM (Rejected st)
         | Inr caller \<Rightarrow> respond (runHandler rt caller)))"

section \<open>Lemmas: the invariant\<close>

lemma pres_reply [pres]: "preserves I m \<Longrightarrow> preserves I (replyM f m)"
  unfolding replyM_def by (intro pres)

lemma pres_respond [pres]: "preserves I m \<Longrightarrow> preserves I (respond m)"
  unfolding respond_def by (intro pres)

lemma pres_loads [pres]: "preserves (onDB J) (VerifyToken cr j t)" "preserves (onDB J) (GetGroup i)" "preserves (onDB J) (GetRecycledFile f)"
  unfolding VerifyToken_def Verify_def GetGroup_def loadGroup_def GetRecycledFile_def by (intro pres)+

lemma pres_auth [pres]: "preserves (onDB J) (authenticate L cred rt)"
  unfolding authenticate_def QueryTokenAuthMiddleware_def AuthMiddleware_def by (cases rt) (simp_all only: route.case, (intro pres)+)

lemma pres_account_handlers [pres]:
  "preserves (onDB db_inv) (AuthAPI_Register L n p l)" "preserves (onDB db_inv) (AuthAPI_Login L n p)"
  "preserves (onDB db_inv) (AuthAPI_Refresh L t)" "preserves (onDB db_inv) (AuthAPI_Logout L t)"
  "preserves (onDB db_inv) (UserAPI_UpdateMe L u p n e)" "preserves (onDB db_inv) (UserAPI_UpdateUser L c i inp)"
  "preserves (onDB db_inv) (UserAPI_UpdateUserQuota c i q)" "preserves (onDB db_inv) (UserAPI_DeleteUser c i)"
  unfolding AuthAPI_Register_def AuthAPI_Login_def AuthAPI_Refresh_def AuthAPI_Logout_def UserAPI_UpdateMe_def
    UserAPI_UpdateUser_def UserAPI_UpdateUserQuota_def UserAPI_DeleteUser_def outranks_def
  by (intro pres account_inv.keeps)+

lemma pres_outranks [pres]: "preserves (onDB J) (outranks c i)"
  unfolding outranks_def by (intro pres)

text \<open>Handlers that only read.\<close>

lemma pres_read_handlers [pres]:
  "preserves (onDB J) (UserAPI_Me u)" "preserves (onDB J) (UserAPI_ListUsers L p n)"
  "preserves (onDB J) (GroupAPI_ListMyGroups u)" "preserves (onDB J) (GroupAPI_ListGroups L u p n)"
  "preserves (onDB J) (GroupAPI_GetGroup u i)" "preserves (onDB J) (GroupAPI_ListGroupMembers L u i p n)"
  "preserves (onDB J) (BucketAPI_ListBuckets L u)" "preserves (onDB J) (BucketAPI_GetBucket b)"
  unfolding UserAPI_Me_def UserAPI_ListUsers_def GroupAPI_ListMyGroups_def GroupAPI_ListGroups_def GroupAPI_GetGroup_def
    GroupAPI_ListGroupMembers_def BucketAPI_ListBuckets_def BucketAPI_GetBucket_def
  by (intro pres)+

lemma pres_openStream [pres]: "preserves (onDB J) (openStream u b f r)" "preserves (onDB J) (parseRangeHeader r file)"
  unfolding openStream_def parseRangeHeader_def by (intro pres)+

lemma pres_file_reads [pres]:
  "preserves (onDB J) (FileAPI_DownloadFile u b f r)" "preserves (onDB J) (FileAPI_PreviewFile u b f r)"
  "preserves (onDB J) (FileAPI_StreamFile u b f r)" "preserves (onDB J) (FileAPI_ListFiles L u b q)"
  "preserves (onDB J) (FileAPI_FileSearch L u b a)" "preserves (onDB J) (FileAPI_FolderSearch L u b a)"
  "preserves (onDB J) (FileAPI_GetFileMeta u b f)" "preserves (onDB J) (FileAPI_GetFolderMeta u b f)"
  unfolding FileAPI_DownloadFile_def FileAPI_PreviewFile_def FileAPI_StreamFile_def writePreviewStream_def
    FileAPI_ListFiles_def FileAPI_FileSearch_def FileAPI_FolderSearch_def FileAPI_GetFileMeta_def FileAPI_GetFolderMeta_def
    Let_def
  by (intro pres)+

lemma pres_other_reads [pres]:
  "preserves (onDB J) (recycleTarget c i)" "preserves (onDB J) (ownRecycled c i)" "preserves (onDB J) (sharedOwner i)"
  "preserves (onDB J) (ownShare u i)" "preserves (onDB J) (ownDownload u i)" "preserves (onDB J) (downloadTaskResume u i)"
  "preserves (onDB J) (RecycleBinAPI_ListRecycleFile L c i p)" "preserves (onDB J) (RecycleBinAPI_ListRecycleFolder L c i p)"
  "preserves (onDB J) (ShareAPI_ListShares L u pg n)" "preserves (onDB J) (ShareAPI_ResolveShare L r)"
  "preserves (onDB J) (DownloadAPI_GetDownloadTask u i)"
  unfolding recycleTarget_def ownRecycled_def sharedOwner_def ownShare_def ownDownload_def downloadTaskResume_def
    RecycleBinAPI_ListRecycleFile_def RecycleBinAPI_ListRecycleFolder_def ShareAPI_ListShares_def ShareAPI_ResolveShare_def
    DownloadAPI_GetDownloadTask_def sharedStream_def Let_def
  by (intro pres)+

lemma pres_precheckItems [pres]:
  "preserves (onDB J) (precheckItem u b k i)" "preserves (onDB J) (precheckItems u b items)"
proof -
  show 1: "preserves (onDB J) (precheckItem u b k i)" for u b k i unfolding precheckItem_def by (intro pres)
  show "preserves (onDB J) (precheckItems u b items)"
    by (induction u b items rule: precheckItems.induct) (auto intro!: pres 1)
qed

lemma pres_group_handlers [pres]:
  "preserves (onDB db_inv) (GroupAPI_CreateGroup u n s)" "preserves (onDB db_inv) (GroupAPI_UpdateGroup i n s st)"
  "preserves (onDB db_inv) (GroupAPI_DeleteGroup i)" "preserves (onDB db_inv) (GroupAPI_AddGroupMember i m)"
  "preserves (onDB db_inv) (GroupAPI_RemoveGroupMember i m)" "preserves (onDB db_inv) (BucketAPI_CreateBucket L u n s l ml)"
  "preserves (onDB db_inv) (BucketAPI_UpdateBucket u b inp)" "preserves (onDB db_inv) (BucketAPI_DeleteBucket u b)"
  unfolding GroupAPI_CreateGroup_def GroupAPI_UpdateGroup_def GroupAPI_DeleteGroup_def GroupAPI_AddGroupMember_def
    GroupAPI_RemoveGroupMember_def BucketAPI_CreateBucket_def BucketAPI_UpdateBucket_def BucketAPI_DeleteBucket_def Let_def
  by (intro pres)+

lemma pres_submitDelete [pres]: "preserves (onDB db_inv) (submitDelete i)"
  unfolding submitDelete_def by (intro pres)

lemma pres_file_handlers [pres]:
  "preserves (onDB db_inv) (FileAPI_UploadFile L u b p n t x)" "preserves (onDB db_inv) (FileAPI_UploadFiles L u b p i fs)"
  "preserves (onDB db_inv) (FileAPI_CopyFile u b f db dd n)" "preserves (onDB db_inv) (FileAPI_CopyFolder L u b f db dd n)"
  "preserves (onDB db_inv) (FileAPI_MoveFile L u b f o' dd n)" "preserves (onDB db_inv) (FileAPI_MoveFolder u b f o' dd n)"
  "preserves (onDB db_inv) (FileAPI_DeleteFile u b f)" "preserves (onDB db_inv) (FileAPI_CreateDir u b p)"
  "preserves (onDB db_inv) (FileAPI_DeleteDir u b f)"
  unfolding FileAPI_UploadFile_def FileAPI_UploadFiles_def FileAPI_CopyFile_def FileAPI_CopyFolder_def FileAPI_MoveFile_def
    FileAPI_MoveFolder_def FileAPI_DeleteFile_def FileAPI_CreateDir_def FileAPI_DeleteDir_def Let_def
  by (intro pres)+

lemma pres_item_handlers [pres]:
  "preserves (onDB db_inv) (FileAPI_SetFileVisibility u b f gs)" "preserves (onDB db_inv) (FileAPI_SetFolderVisibility u b f gs)"
  "preserves (onDB db_inv) (FileAPI_BatchDelete u b ds)" "preserves (onDB db_inv) (FileAPI_BatchCopy L u b db dd cs)"
  "preserves (onDB db_inv) (FileAPI_BatchMove L u b db dd cs)" "preserves (onDB db_inv) (RecycleBinAPI_DeleteRecycleFile c i)"
  "preserves (onDB db_inv) (RecycleBinAPI_RestoreRecycleFile c i)" "preserves (onDB db_inv) (ShareAPI_CreateShare L u a)"
  "preserves (onDB db_inv) (ShareAPI_UpdateShare L u i inp)" "preserves (onDB db_inv) (ShareAPI_DeleteShare u i)"
  "preserves (onDB db_inv) (DownloadAPI_CreateDownloadTask u b f)" "preserves (onDB db_inv) (DownloadAPI_CompleteDownloadTask u i)"
  unfolding FileAPI_SetFileVisibility_def FileAPI_SetFolderVisibility_def FileAPI_BatchDelete_def FileAPI_BatchCopy_def
    FileAPI_BatchMove_def RecycleBinAPI_DeleteRecycleFile_def RecycleBinAPI_RestoreRecycleFile_def ShareAPI_CreateShare_def
    ShareAPI_UpdateShare_def ShareAPI_DeleteShare_def DownloadAPI_CreateDownloadTask_def DownloadAPI_CompleteDownloadTask_def Let_def
  by (intro pres)+

text \<open>The handler of every route keeps the invariant.\<close>

lemmas router_defs = AuthRouter_def UserRouter_def GroupRouter_def BucketRouter_def FileRouter_def ShareRouter_def
  DownloadRouter_def RecycleBinRouter_def

text \<open>Every request has a route.\<close>

lemma Router_Some: "\<exists>rt. Router L req = Some rt"
  by (cases req) (simp_all add: Router_def router_defs)

lemma pres_runHandler: "Router L req = Some rt \<Longrightarrow> preserves (onDB db_inv) (runHandler rt caller)"
  by (cases req; cases caller)
    (auto simp: Router_def router_defs runHandler_def intro: pres)

lemma pres_serve [pres]: "preserves (onDB db_inv) (serve L cred req)"
proof -
  obtain rt where rt: "Router L req = Some rt" using Router_Some by blast
  have "preserves (onDB db_inv) (case Some rt of None \<Rightarrow> returnM (Rejected 404)
     | Some rt \<Rightarrow> bindM (authenticate L cred rt) (\<lambda>r. case r of Inl st \<Rightarrow> returnM (Rejected st)
         | Inr caller \<Rightarrow> respond (runHandler rt caller)))"
    unfolding option.case by (intro pres pres_runHandler[OF rt])
  then show ?thesis by (simp only: serve_def rt)
qed

end
