(* ===== verification/Access.thy ===== *)
theory Access
  imports Api
begin

text \<open>
  What the server as a whole promises: the database invariant over every run of the system, the rights
  behind every change of the database, and the hole the batch routes leave in them.
\<close>

section \<open>Runs of the system\<close>

text \<open>
  A step is a start of the server, which takes up the unfinished tasks, a request, the hourly jobs, or a
  change of the surroundings: time passes, and calls of the database and the storage fail in another
  pattern.  A request whose copy task exceeds its bound is no step.
\<close>

definition startup :: "nat \<Rightarrow> unit W" where
  "startup fuel = thenM (ignoreM ResumeDeleteTasks) (ignoreM (ResumeCopyTasks fuel))"

inductive sys_step :: "libs \<Rightarrow> int \<Rightarrow> world \<Rightarrow> world \<Rightarrow> bool" for L days where
  request: "serve L cred req w = (Ok a, w') \<Longrightarrow> sys_step L days w w'"
| hour: "hourly (lib_copyFuel L) days w = (Ok u, w') \<Longrightarrow> sys_step L days w w'"
| start_up: "startup (lib_copyFuel L) w = (Ok u, w') \<Longrightarrow> sys_step L days w w'"
| surroundings: "clock w \<le> now \<Longrightarrow> sys_step L days w (w\<lparr>clock := now, fault := f, torn := k, inst := i\<rparr>)"

inductive sys_run :: "libs \<Rightarrow> int \<Rightarrow> world \<Rightarrow> world \<Rightarrow> bool" for L days where
  start: "sys_run L days w w"
| steps: "sys_run L days w v \<Longrightarrow> sys_step L days v v' \<Longrightarrow> sys_run L days w v'"

inductive_cases sys_stepE: "sys_step L days w w'"

lemma pres_startup: "preserves (onDB db_inv) (startup n)"
  unfolding startup_def by (intro pres)

lemma sys_step_inv: "sys_step L days w w' \<Longrightarrow> db_inv (wdb w) \<Longrightarrow> db_inv (wdb w')"
  by (elim sys_stepE)
    (auto simp: onDB_def dest: valid_OkD[OF pres_serve, unfolded onDB_def] valid_OkD[OF pres_cron(4), unfolded onDB_def]
      valid_OkD[OF pres_startup, unfolded onDB_def])

section \<open>Rights\<close>

definition admin_claims :: "Claims \<Rightarrow> bool" where
  "admin_claims c \<longleftrightarrow> IsAdmin (clm_PermissionLevel c)"

definition outranked :: "Claims \<Rightarrow> nat \<Rightarrow> db \<Rightarrow> bool" where
  "outranked c i d \<longleftrightarrow> (\<exists>t. the_user i d = Some t \<and> clm_PermissionLevel c < usr_PermissionLevel t)"

definition may_read_file :: "nat \<Rightarrow> nat \<Rightarrow> nat \<Rightarrow> db \<Rightarrow> File \<Rightarrow> bool" where
  "may_read_file u b i d f \<longleftrightarrow> the_file b i d = Some f \<and> may_use u b d \<and> may_walk u b (fil_FolderID f) d \<and>
     walk_visible u d (fil_VisibleToGroups f)"

definition may_read_folder :: "nat \<Rightarrow> nat \<Rightarrow> nat \<Rightarrow> db \<Rightarrow> Folder \<Rightarrow> bool" where
  "may_read_folder u b i d f \<longleftrightarrow> the_folder b i d = Some f \<and> may_use u b d \<and> may_walk u b (fld_ParentID f) d \<and>
     walk_visible u d (fld_VisibleToGroups f)"

definition may_read_item :: "nat \<Rightarrow> nat \<Rightarrow> db \<Rightarrow> string \<times> nat \<Rightarrow> bool" where
  "may_read_item u b d it \<longleftrightarrow> (fst it = ItemKindFile \<and> (\<exists>f. may_read_file u b (snd it) d f)) \<or>
     (fst it = ItemKindFolder \<and> (\<exists>f. may_read_folder u b (snd it) d f))"

definition owner_or_admin :: "nat \<Rightarrow> nat \<Rightarrow> db \<Rightarrow> bool" where
  "owner_or_admin u owner d \<longleftrightarrow> u = owner \<or> (\<exists>x. active u d x \<and> IsAdmin (usr_PermissionLevel x))"

definition may_manage_id :: "nat \<Rightarrow> nat \<Rightarrow> db \<Rightarrow> bool" where
  "may_manage_id u b d \<longleftrightarrow> (\<exists>x. the_bucket b d = Some x \<and> may_manage u x d)"

definition own_recycled :: "Claims \<Rightarrow> nat \<Rightarrow> db \<Rightarrow> bool" where
  "own_recycled c i d \<longleftrightarrow> (\<exists>f\<in>set (rows (files d)). fil_ID f = i \<and> fil_DeletedAt f \<noteq> None \<and>
     (fil_UploadedBy f = clm_UserID c \<or> admin_claims c))"

definition own_item :: "nat \<Rightarrow> nat \<Rightarrow> db \<Rightarrow> bool" where
  "own_item u i d \<longleftrightarrow>
     (\<exists>f\<in>set (rows (folders d)). live_fld f \<and> fld_ID f = i \<and> owner_or_admin u (fld_UploadedBy f) d) \<or>
     (\<exists>f\<in>set (rows (files d)). live_fil f \<and> fil_ID f = i \<and> owner_or_admin u (fil_UploadedBy f) d)"

text \<open>The requests that need no token.\<close>

fun public :: "request \<Rightarrow> bool" where
  "public (ReqLogin n p) \<longleftrightarrow> True"
| "public (ReqRefresh t) \<longleftrightarrow> True"
| "public (ReqResolveShare r) \<longleftrightarrow> True"
| "public _ \<longleftrightarrow> False"

text \<open>The right a request needs to change the database d; a request that only reads has none.\<close>

definition permitted :: "Claims \<Rightarrow> request \<Rightarrow> db \<Rightarrow> bool" where
  "permitted c req d = (let u = clm_UserID c in case req of
       ReqRegister n p l \<Rightarrow> admin_claims c
     | ReqLogout t \<Rightarrow> True
     | ReqUpdateMe p n e \<Rightarrow> True
     | ReqUpdateUser i inp \<Rightarrow> admin_claims c \<and> outranked c i d
     | ReqUpdateUserQuota i q \<Rightarrow> admin_claims c \<and> outranked c i d
     | ReqDeleteUser i \<Rightarrow> admin_claims c \<and> outranked c i d
     | ReqCreateGroup n s \<Rightarrow> admin_claims c
     | ReqUpdateGroup i n s st \<Rightarrow> admin_claims c
     | ReqDeleteGroup i \<Rightarrow> admin_claims c
     | ReqAddGroupMember g m \<Rightarrow> admin_claims c
     | ReqRemoveGroupMember g m \<Rightarrow> admin_claims c
     | ReqCreateBucket n s l m \<Rightarrow> (\<exists>x. active u d x)
     | ReqUpdateBucket b inp \<Rightarrow> may_manage_id u b d
     | ReqDeleteBucket b \<Rightarrow> may_manage_id u b d
     | ReqUpload b p n t x \<Rightarrow> may_use u b d
     | ReqUploadBatch b p i fs \<Rightarrow> may_use u b d
     | ReqCreateDir b p \<Rightarrow> may_use u b d
     | ReqCopyFile b f db dd n \<Rightarrow> (\<exists>x. may_read_file u b f d x) \<and> may_use u db d
     | ReqMoveFile b f db dd n \<Rightarrow> (\<exists>x. may_read_file u b f d x) \<and> may_use u (givenBucket b db) d
     | ReqMoveFolder b f db dd n \<Rightarrow> (\<exists>x. may_read_folder u b f d x) \<and> may_use u (givenBucket b db) d
     | ReqCopyFolder b f db dd n \<Rightarrow> (\<exists>x. may_read_folder u b f d x) \<and> may_use u db d
     | ReqDeleteFile b f \<Rightarrow> (\<exists>x. may_read_file u b f d x)
     | ReqDeleteDir b f \<Rightarrow> (\<exists>x. may_read_folder u b f d x)
     | ReqBatchDelete b ds \<Rightarrow> may_use u b d \<and> (\<forall>it\<in>set ds. may_read_item u b d (dit_Kind it, dit_ID it))
     | ReqBatchCopy b db dd cs \<Rightarrow> may_use u db d \<and> (\<forall>it\<in>set cs. may_read_item u b d (cit_Kind it, cit_SrcID it))
     | ReqBatchMove b db dd cs \<Rightarrow> may_use u (if db = 0 then b else db) d \<and>
         (\<forall>it\<in>set cs. may_read_item u b d (cit_Kind it, cit_SrcID it))
     | ReqFileVisibility b f gs \<Rightarrow> (\<exists>x. may_read_file u b f d x \<and> owner_or_admin u (fil_UploadedBy x) d)
     | ReqFolderVisibility b f gs \<Rightarrow> (\<exists>x. may_read_folder u b f d x \<and> owner_or_admin u (fld_UploadedBy x) d)
     | ReqPurgeRecycled i \<Rightarrow> own_recycled c i d
     | ReqRestoreRecycled i \<Rightarrow> own_recycled c i d
     | ReqCreateShare a \<Rightarrow> own_item u (csh_FileID a) d
     | ReqUpdateShare i inp \<Rightarrow> (\<exists>s. the_share i d = Some s \<and> shr_CreatorID s = u)
     | ReqDeleteShare i \<Rightarrow> (\<exists>s. the_share i d = Some s \<and> shr_CreatorID s = u)
     | ReqCreateDownload b f \<Rightarrow> (\<exists>x. may_read_folder u b f d x)
     | ReqCompleteDownload i \<Rightarrow> (\<exists>t. the_dltask i d = Some t \<and> dlt_UserID t = u)
     | _ \<Rightarrow> False)"

section \<open>Lemmas: what changed the database passed its guards\<close>

definition changes :: "'a W \<Rightarrow> world \<Rightarrow> bool" where
  "changes m w \<longleftrightarrow> fst (m w) \<noteq> Hang \<and> wdb (snd (m w)) \<noteq> wdb w"

text \<open>A guard that only reads: when the whole changed the database, the guard passed on the same database.\<close>

text \<open>A run that keeps every condition on the database leaves it as it is.\<close>

lemma same_db:
  assumes "\<And>J. preserves (onDB J) m"
  shows "m w = (Ok x, w') \<Longrightarrow> wdb w' = wdb w" "m w = (Err e, w') \<Longrightarrow> wdb w' = wdb w"
proof -
  note k = assms[of "\<lambda>d. d = wdb w"]
  have "onDB (\<lambda>d. d = wdb w) w" by (simp add: onDB_def)
  note o = this
  show "m w = (Ok x, w') \<Longrightarrow> wdb w' = wdb w" using valid_OkD[OF k o] by (simp add: onDB_def)
  show "m w = (Err e, w') \<Longrightarrow> wdb w' = wdb w" using valid_ErrD[OF k o] by (simp add: onDB_def)
qed

lemma changes_reads:
  assumes "\<And>J. preserves (onDB J) m"
  shows "\<not> changes m w"
proof (cases "m w")
  case (Pair r w1)
  show ?thesis
    using same_db(1)[OF assms, of w _ w1] same_db(2)[OF assms, of w _ w1] Pair by (cases r) (simp_all add: changes_def)
qed

lemma changes_bind:
  assumes "changes (bindM g k) w" "\<And>J. preserves (onDB J) g"
  obtains x w1 where "g w = (Ok x, w1)" "wdb w1 = wdb w" "changes (k x) w1"
proof (cases "g w")
  case (Pair r w1)
  show thesis
  proof (cases r)
    case (Ok x)
    with Pair same_db(1)[OF assms(2), of w x w1] assms(1) show ?thesis
      by (intro that[of x w1]) (simp_all add: changes_def bindM_def)
  next
    case (Err e)
    with Pair same_db(2)[OF assms(2), of w e w1] assms(1) show ?thesis by (simp add: changes_def bindM_def)
  next
    case Hang
    with Pair assms(1) show ?thesis by (simp add: changes_def bindM_def)
  qed
qed

lemma changes_then:
  assumes "changes (thenM g k) w" "\<And>J. preserves (onDB J) g"
  obtains x w1 where "g w = (Ok x, w1)" "wdb w1 = wdb w" "changes k w1"
  using changes_bind[OF assms(1)[unfolded thenM_def] assms(2)] .

lemma changes_basic [simp]: "\<not> changes (throwM e) w" "\<not> changes (returnM x) w"
  by (simp_all add: changes_def throwM_def returnM_def)

lemma changes_if: "changes (if b then m else k) w \<Longrightarrow> (b \<Longrightarrow> changes m w \<Longrightarrow> P) \<Longrightarrow> (\<not> b \<Longrightarrow> changes k w \<Longrightarrow> P) \<Longrightarrow> P"
  by (cases b) simp_all

lemma changes_respond: "changes (respond m) w \<Longrightarrow> changes m w"
  by (cases "m w"; cases "fst (m w)") (simp_all add: changes_def respond_def tryM_def bindM_def returnM_def)

lemma outranks_OkD: "outranks c i w = (Ok x, w') \<Longrightarrow> outranked c i (wdb w)"
  by (auto simp: outranks_def outranked_def the_user_def throwM_def split: if_splits elim!: bindM_OkE dest!: GetUser_OkD)

lemma precheckItem_OkD:
  assumes "precheckItem u b k i w = (Ok x, w')" "acyclic (parent_rel (wdb w))"
  shows "may_read_item u b (wdb w) (k, i)"
proof -
  have i: "i \<noteq> 0" using assms(1) by (cases i) (simp_all add: precheckItem_def throwM_def)
  consider (f) "k = ItemKindFile" | (d) "k = ItemKindFolder" "k \<noteq> ItemKindFile"
    using assms(1) i by (auto simp: precheckItem_def throwM_def split: if_splits)
  then show ?thesis
  proof cases
    case f
    with assms(1) i obtain f w1 where "precheckFileRead u b i w = (Ok f, w1)"
      by (auto simp: precheckItem_def elim!: bindM_OkE)
    from precheckFileRead_OkD[OF this assms(2)] f show ?thesis
      by (simp add: may_read_item_def may_read_file_def)
  next
    case d
    with assms(1) i obtain f w1 where "precheckFolderRead u b i w = (Ok f, w1)"
      by (auto simp: precheckItem_def elim!: bindM_OkE)
    from precheckFolderRead_OkD[OF this assms(2)] d show ?thesis
      by (simp add: may_read_item_def may_read_folder_def)
  qed
qed

lemma precheckItems_OkD:
  assumes "precheckItems u b items w = (Ok [], w')" "acyclic (parent_rel (wdb w))"
  shows "\<forall>it\<in>set items. may_read_item u b (wdb w) it"
  using assms
proof (induction items arbitrary: w)
  case (Cons it items)
  obtain k i where it: "it = (k, i)" by (cases it)
  from Cons.prems(1) obtain x w1 where p: "precheckItem u b k i w = (Ok x, w1)"
    and r: "precheckItems u b items w1 = (Ok [], w')"
    by (auto simp: it elim!: bindM_OkE dest!: return_OkD tryM_InrD split: sum.splits)
  have d: "wdb w1 = wdb w" using same_db(1)[OF pres_precheckItems(1)] p .
  show ?case using Cons.IH[OF r] Cons.prems(2) d precheckItem_OkD[OF p Cons.prems(2)] by (simp add: it)
qed simp

subsection \<open>The guards of the handlers\<close>

lemma LoadShare_OkD: "LoadShare i w = (Ok s, w') \<Longrightarrow> the_share i (wdb w) = Some s"
  by (auto simp: LoadShare_def elim!: bindM_OkE dest!: queryDB_OkD orNotFound_OkD)

lemma LoadDownloadTask_OkD: "LoadDownloadTask i w = (Ok t, w') \<Longrightarrow> the_dltask i (wdb w) = Some t"
  by (auto simp: LoadDownloadTask_def elim!: bindM_OkE dest!: queryDB_OkD orNotFound_OkD)

lemma sharedOwner_OkD:
  assumes "sharedOwner i w = (Ok o', w')"
  shows "(\<exists>f\<in>set (rows (folders (wdb w))). live_fld f \<and> fld_ID f = i \<and> fld_UploadedBy f = o') \<or>
    (\<exists>f\<in>set (rows (files (wdb w))). live_fil f \<and> fil_ID f = i \<and> fil_UploadedBy f = o')"
proof -
  from assms obtain r w1 where t: "tryM (loadFolderByID i) w = (Ok r, w1)"
    and k: "(case r of Inr f \<Rightarrow> returnM (fld_UploadedBy f)
       | Inl _ \<Rightarrow> bindM (tryM (loadFileByID i)) (\<lambda>r.
           case r of Inr f \<Rightarrow> returnM (fil_UploadedBy f) | Inl _ \<Rightarrow> throwM ErrNotFound)) w1 = (Ok o', w')"
    unfolding sharedOwner_def by (elim bindM_OkE)
  have d: "wdb w1 = wdb w" using same_db(1)[OF pres_try[OF pres_loadFolderByID] t] .
  show ?thesis
  proof (cases r)
    case (Inr f)
    with k loadByID_OkD(2)[OF tryM_InrD[OF t[unfolded Inr]]] show ?thesis by (auto dest!: return_OkD)
  next
    case (Inl e)
    with k obtain f w2 where f: "tryM (loadFileByID i) w1 = (Ok (Inr f), w2)" "fil_UploadedBy f = o'"
      by (auto simp: throwM_def split: sum.splits elim!: bindM_OkE dest!: return_OkD)
    from loadByID_OkD(1)[OF tryM_InrD[OF f(1)]] f(2) d show ?thesis by auto
  qed
qed

text \<open>Elimination rules: a change behind a guard happened on the same database, on which the guard passed.\<close>

lemma file_readE:
  assumes "changes (bindM (precheckFileRead u b f) k) w" "wdb w = d" "acyclic (parent_rel d)"
  obtains x w1 where "may_read_file u b f d x" "wdb w1 = d" "changes (k x) w1"
proof (rule changes_bind[OF assms(1)])
  show "preserves (onDB J) (precheckFileRead u b f)" for J by (intro pres)
  fix x w1 assume r: "precheckFileRead u b f w = (Ok x, w1)" "wdb w1 = wdb w" "changes (k x) w1"
  from precheckFileRead_OkD[OF r(1)] r assms(2,3) show thesis by (intro that) (auto simp: may_read_file_def)
qed

lemma folder_readE:
  assumes "changes (bindM (precheckFolderRead u b f) k) w" "wdb w = d" "acyclic (parent_rel d)"
  obtains x w1 where "may_read_folder u b f d x" "wdb w1 = d" "changes (k x) w1"
proof (rule changes_bind[OF assms(1)])
  show "preserves (onDB J) (precheckFolderRead u b f)" for J by (intro pres)
  fix x w1 assume r: "precheckFolderRead u b f w = (Ok x, w1)" "wdb w1 = wdb w" "changes (k x) w1"
  from precheckFolderRead_OkD[OF r(1)] r assms(2,3) show thesis by (intro that) (auto simp: may_read_folder_def)
qed

lemma bucket_writeE:
  assumes "changes (bindM (precheckBucketWrite u b) k) w" "wdb w = d"
  obtains x w1 where "may_use u b d" "wdb w1 = d" "changes (k x) w1"
proof (rule changes_bind[OF assms(1)])
  show "preserves (onDB J) (precheckBucketWrite u b)" for J by (intro pres)
  fix x w1 assume r: "precheckBucketWrite u b w = (Ok x, w1)" "wdb w1 = wdb w" "changes (k x) w1"
  from precheckBucketWrite_OkD[OF r(1)] r assms(2) show thesis by (intro that) auto
qed

lemma itemsE:
  assumes "changes (bindM (precheckItems u b items) k) w" "wdb w = d" "acyclic (parent_rel d)"
    "\<And>failed v. failed \<noteq> [] \<Longrightarrow> \<not> changes (k failed) v"
  obtains w1 where "\<forall>it\<in>set items. may_read_item u b d it" "wdb w1 = d" "changes (k []) w1"
proof (rule changes_bind[OF assms(1)])
  show "preserves (onDB J) (precheckItems u b items)" for J by (intro pres)
  fix x w1 assume r: "precheckItems u b items w = (Ok x, w1)" "wdb w1 = wdb w" "changes (k x) w1"
  with assms(4) have "x = []" by blast
  with precheckItems_OkD[of u b items w w1] r assms(2,3) show thesis by (intro that) auto
qed

lemma ownerE:
  assumes "changes (thenM (permOwnerOrAdmin u owner) k) w" "wdb w = d"
  obtains w1 where "owner_or_admin u owner d" "wdb w1 = d" "changes k w1"
proof (rule changes_then[OF assms(1)])
  show "preserves (onDB J) (permOwnerOrAdmin u owner)" for J by (intro pres)
  fix x w1 assume r: "permOwnerOrAdmin u owner w = (Ok x, w1)" "wdb w1 = wdb w" "changes k w1"
  from permOwnerOrAdmin_OkD[OF r(1)] r assms(2) show thesis by (intro that) (auto simp: owner_or_admin_def)
qed

lemma outranksE:
  assumes "changes (thenM (outranks c i) k) w" "wdb w = d"
  shows "outranked c i d"
proof (rule changes_then[OF assms(1)])
  show "preserves (onDB J) (outranks c i)" for J by (intro pres)
qed (use outranks_OkD assms(2) in blast)

lemma manageE:
  assumes "changes (bindM (GetBucket b) (\<lambda>x. thenM (permCanManageBucket u x) (k x))) w" "wdb w = d"
  shows "may_manage_id u b d"
proof (rule changes_bind[OF assms(1)])
  show "preserves (onDB J) (GetBucket b)" for J by (intro pres)
  fix x w1 assume g: "GetBucket b w = (Ok x, w1)" "wdb w1 = wdb w" and k: "changes (thenM (permCanManageBucket u x) (k x)) w1"
  show ?thesis
  proof (rule changes_then[OF k])
    show "preserves (onDB J) (permCanManageBucket u x)" for J by (intro pres)
    fix y w2 assume "permCanManageBucket u x w1 = (Ok y, w2)"
    from permCanManageBucket_OkD[OF this] GetBucket_OkD[OF g(1)] g(2) assms(2) show ?thesis
      by (auto simp: may_manage_id_def the_bucket_def)
  qed
qed

subsection \<open>Handler by handler\<close>

lemma file_changes:
  assumes "acyclic (parent_rel d)" "wdb w = d"
  shows "changes (FileAPI_UploadFile L u b p n t x) w \<Longrightarrow> may_use u b d"
    "changes (FileAPI_UploadFiles L u b p i fs) w \<Longrightarrow> may_use u b d"
    "changes (FileAPI_CreateDir u b p) w \<Longrightarrow> may_use u b d"
    "changes (FileAPI_CopyFile u b f db dd n) w \<Longrightarrow> (\<exists>x. may_read_file u b f d x) \<and> may_use u db d"
    "changes (FileAPI_CopyFolder L u b f db dd n) w \<Longrightarrow> (\<exists>x. may_read_folder u b f d x) \<and> may_use u db d"
    "changes (FileAPI_MoveFile L u b f o' dd n) w \<Longrightarrow> (\<exists>x. may_read_file u b f d x) \<and> may_use u (givenBucket b o') d"
    "changes (FileAPI_MoveFolder u b f o' dd n) w \<Longrightarrow> (\<exists>x. may_read_folder u b f d x) \<and> may_use u (givenBucket b o') d"
    "changes (FileAPI_DeleteFile u b f) w \<Longrightarrow> \<exists>x. may_read_file u b f d x"
    "changes (FileAPI_DeleteDir u b f) w \<Longrightarrow> \<exists>x. may_read_folder u b f d x"
    "changes (FileAPI_SetFileVisibility u b f gs) w \<Longrightarrow> \<exists>x. may_read_file u b f d x \<and> owner_or_admin u (fil_UploadedBy x) d"
    "changes (FileAPI_SetFolderVisibility u b f gs) w \<Longrightarrow> \<exists>x. may_read_folder u b f d x \<and> owner_or_admin u (fld_UploadedBy x) d"
    "changes (DownloadAPI_CreateDownloadTask u b f) w \<Longrightarrow> \<exists>x. may_read_folder u b f d x"
  unfolding FileAPI_UploadFile_def FileAPI_UploadFiles_def FileAPI_CreateDir_def FileAPI_CopyFile_def FileAPI_CopyFolder_def
    FileAPI_MoveFile_def FileAPI_MoveFolder_def FileAPI_DeleteFile_def FileAPI_DeleteDir_def FileAPI_SetFileVisibility_def
    FileAPI_SetFolderVisibility_def DownloadAPI_CreateDownloadTask_def Let_def
  using assms
  by (blast elim: changes_if file_readE folder_readE bucket_writeE ownerE dest: changes_basic[THEN notE])+

lemma batch_changes:
  assumes "acyclic (parent_rel d)" "wdb w = d"
  shows "changes (FileAPI_BatchDelete u b ds) w \<Longrightarrow>
      may_use u b d \<and> (\<forall>it\<in>set ds. may_read_item u b d (dit_Kind it, dit_ID it))"
    "changes (FileAPI_BatchCopy L u b db dd cs) w \<Longrightarrow>
      may_use u db d \<and> (\<forall>it\<in>set cs. may_read_item u b d (cit_Kind it, cit_SrcID it))"
    "changes (FileAPI_BatchMove L u b db dd cs) w \<Longrightarrow>
      may_use u (if db = 0 then b else db) d \<and> (\<forall>it\<in>set cs. may_read_item u b d (cit_Kind it, cit_SrcID it))"
proof -
  have count: "preserves (onDB J) (CheckBatchItems n)" for J n by (intro pres)
  show "changes (FileAPI_BatchDelete u b ds) w \<Longrightarrow>
      may_use u b d \<and> (\<forall>it\<in>set ds. may_read_item u b d (dit_Kind it, dit_ID it))"
    unfolding FileAPI_BatchDelete_def
    by (elim changes_then[OF _ count] bucket_writeE itemsE) (use assms in \<open>auto simp: image_iff\<close>)
  show "changes (FileAPI_BatchCopy L u b db dd cs) w \<Longrightarrow>
      may_use u db d \<and> (\<forall>it\<in>set cs. may_read_item u b d (cit_Kind it, cit_SrcID it))"
    unfolding FileAPI_BatchCopy_def sourcesOf_def
    by (elim changes_if changes_then[OF _ count] itemsE) (use assms in \<open>auto elim: bucket_writeE\<close>)
  show "changes (FileAPI_BatchMove L u b db dd cs) w \<Longrightarrow>
      may_use u (if db = 0 then b else db) d \<and> (\<forall>it\<in>set cs. may_read_item u b d (cit_Kind it, cit_SrcID it))"
    unfolding FileAPI_BatchMove_def sourcesOf_def Let_def
    by (elim changes_if changes_then[OF _ count] itemsE) (use assms in \<open>auto elim: bucket_writeE\<close>)
qed

lemma own_changes:
  assumes "wdb w = d"
  shows "changes (RecycleBinAPI_DeleteRecycleFile c i) w \<Longrightarrow> own_recycled c i d"
    "changes (RecycleBinAPI_RestoreRecycleFile c i) w \<Longrightarrow> own_recycled c i d"
    "changes (ShareAPI_UpdateShare L u i inp) w \<Longrightarrow> \<exists>s. the_share i d = Some s \<and> shr_CreatorID s = u"
    "changes (ShareAPI_DeleteShare u i) w \<Longrightarrow> \<exists>s. the_share i d = Some s \<and> shr_CreatorID s = u"
    "changes (DownloadAPI_CompleteDownloadTask u i) w \<Longrightarrow> \<exists>t. the_dltask i d = Some t \<and> dlt_UserID t = u"
    "changes (ShareAPI_CreateShare L u a) w \<Longrightarrow> own_item u (csh_FileID a) d"
proof -
  have rec: "own_recycled c i d" if "ownRecycled c i w = (Ok x, w')" for x w'
    using that assms
    by (auto simp: ownRecycled_def own_recycled_def admin_claims_def throwM_def split: if_splits
        elim!: bindM_OkE dest!: GetRecycledFile_OkD)
  have shr: "\<exists>s. the_share i d = Some s \<and> shr_CreatorID s = u" if "ownShare u i w = (Ok x, w')" for x w'
    using that assms
    by (auto simp: ownShare_def throwM_def split: if_splits elim!: bindM_OkE dest!: LoadShare_OkD)
  have dl: "\<exists>t. the_dltask i d = Some t \<and> dlt_UserID t = u" if "ownDownload u i w = (Ok x, w')" for x w'
    using that assms
    by (auto simp: ownDownload_def throwM_def split: if_splits elim!: bindM_OkE dest!: LoadDownloadTask_OkD)
  show "changes (RecycleBinAPI_DeleteRecycleFile c i) w \<Longrightarrow> own_recycled c i d"
    unfolding RecycleBinAPI_DeleteRecycleFile_def by (erule changes_then) (intro pres, rule rec)
  show "changes (RecycleBinAPI_RestoreRecycleFile c i) w \<Longrightarrow> own_recycled c i d"
    unfolding RecycleBinAPI_RestoreRecycleFile_def by (erule changes_then) (intro pres, rule rec)
  show "changes (ShareAPI_UpdateShare L u i inp) w \<Longrightarrow> \<exists>s. the_share i d = Some s \<and> shr_CreatorID s = u"
    unfolding ShareAPI_UpdateShare_def by (erule changes_then) (intro pres, rule shr)
  show "changes (ShareAPI_DeleteShare u i) w \<Longrightarrow> \<exists>s. the_share i d = Some s \<and> shr_CreatorID s = u"
    unfolding ShareAPI_DeleteShare_def by (erule changes_then) (intro pres, rule shr)
  show "changes (DownloadAPI_CompleteDownloadTask u i) w \<Longrightarrow> \<exists>t. the_dltask i d = Some t \<and> dlt_UserID t = u"
    unfolding DownloadAPI_CompleteDownloadTask_def by (erule changes_bind) (intro pres, rule dl)
  assume a: "changes (ShareAPI_CreateShare L u a) w"
  show "own_item u (csh_FileID a) d"
  proof (cases "csh_FileID a = 0")
    case False
    with a have "changes (bindM (sharedOwner (csh_FileID a)) (\<lambda>ownerID. thenM (permOwnerOrAdmin u ownerID)
        (replyM RShare (CreateShare (lib_crypto L) (a\<lparr>csh_UserID := u\<rparr>))))) w"
      by (simp add: ShareAPI_CreateShare_def)
    then obtain x w1 where s: "sharedOwner (csh_FileID a) w = (Ok x, w1)" "wdb w1 = wdb w"
      and k: "changes (thenM (permOwnerOrAdmin u x) (replyM RShare (CreateShare (lib_crypto L) (a\<lparr>csh_UserID := u\<rparr>)))) w1"
      by (rule changes_bind) (intro pres)
    from k s(2) assms have "owner_or_admin u x d" by (auto elim: ownerE)
    with sharedOwner_OkD[OF s(1)] assms show ?thesis by (auto simp: own_item_def)
  qed (use a in \<open>simp add: ShareAPI_CreateShare_def\<close>)
qed

lemma account_changes:
  assumes "wdb w = d"
  shows "changes (UserAPI_UpdateUser L c i inp) w \<Longrightarrow> outranked c i d" "changes (UserAPI_UpdateUserQuota c i q) w \<Longrightarrow> outranked c i d"
    "changes (UserAPI_DeleteUser c i) w \<Longrightarrow> outranked c i d"
  unfolding UserAPI_UpdateUser_def UserAPI_UpdateUserQuota_def UserAPI_DeleteUser_def
  using outranksE[OF _ assms] by blast+

lemma bucket_changes:
  assumes "wdb w = d"
  shows "changes (BucketAPI_UpdateBucket u b bi) w \<Longrightarrow> may_manage_id u b d" "changes (BucketAPI_DeleteBucket u b) w \<Longrightarrow> may_manage_id u b d"
    "changes (BucketAPI_CreateBucket L u n s l m) w \<Longrightarrow> \<exists>x. active u d x"
proof -
  show "changes (BucketAPI_UpdateBucket u b bi) w \<Longrightarrow> may_manage_id u b d"
    unfolding BucketAPI_UpdateBucket_def using manageE assms by fast
  show "changes (BucketAPI_DeleteBucket u b) w \<Longrightarrow> may_manage_id u b d"
    unfolding BucketAPI_DeleteBucket_def using manageE assms by fast
  assume c: "changes (BucketAPI_CreateBucket L u n s l m) w"
  show "\<exists>x. active u d x"
  proof (rule changes_bind[OF c[unfolded BucketAPI_CreateBucket_def]])
    show "preserves (onDB J) (permUserActive u)" for J by (intro pres)
    fix x w1 assume "permUserActive u w = (Ok x, w1)"
    from permUserActive_OkD[OF this] assms show ?thesis by auto
  qed
qed

lemma read_changes:
  "\<not> changes (UserAPI_Me u) w" "\<not> changes (UserAPI_ListUsers L p n) w" "\<not> changes (GroupAPI_ListMyGroups u) w"
  "\<not> changes (GroupAPI_ListGroups L u p n) w" "\<not> changes (GroupAPI_GetGroup u i) w"
  "\<not> changes (GroupAPI_ListGroupMembers L u i p n) w" "\<not> changes (BucketAPI_ListBuckets L u) w" "\<not> changes (BucketAPI_GetBucket b) w"
  "\<not> changes (FileAPI_DownloadFile u b f r) w" "\<not> changes (FileAPI_PreviewFile u b f r) w" "\<not> changes (FileAPI_StreamFile u b f r) w"
  "\<not> changes (FileAPI_ListFiles L u b q) w" "\<not> changes (FileAPI_FileSearch L u b a) w" "\<not> changes (FileAPI_FolderSearch L u b a) w"
  "\<not> changes (FileAPI_GetFileMeta u b f) w" "\<not> changes (FileAPI_GetFolderMeta u b f) w"
  "\<not> changes (RecycleBinAPI_ListRecycleFile L c i pg) w" "\<not> changes (RecycleBinAPI_ListRecycleFolder L c i pg) w"
  "\<not> changes (ShareAPI_ListShares L u p n) w" "\<not> changes (DownloadAPI_GetDownloadTask u i) w"
  by (rule changes_reads, intro pres)+

lemma handler_permitted:
  assumes "changes (runHandler rt (Some c)) w" "Router L req = Some rt" "acyclic (parent_rel (wdb w))"
    "\<And>h. rt = AdminOnly h \<Longrightarrow> admin_claims c" "\<not> public req"
  shows "permitted c req (wdb w)"
proof -
  note rights = file_changes[OF assms(3) refl] batch_changes[OF assms(3) refl] own_changes[OF refl]
    account_changes[OF refl] bucket_changes[OF refl]
  have "changes (runHandler (the (Router L req)) (Some c)) w" "\<forall>h. the (Router L req) = AdminOnly h \<longrightarrow> admin_claims c"
    using assms(1,2,4) by simp_all
  then show ?thesis
    using assms(5)
    by (cases req) (simp_all add: Router_def router_defs runHandler_def permitted_def Let_def read_changes rights)
qed

lemma map_sum_Inr: "Inr y = map_sum id f x \<longleftrightarrow> (\<exists>z. x = Inr z \<and> y = f z)"
  by (cases x) auto

lemma map_sum_Inl: "Inl y = map_sum id f x \<longleftrightarrow> x = Inl y"
  by (cases x) auto

lemma authenticate_caller:
  assumes "authenticate L cred rt w = (Ok (Inr caller), w1)" "\<And>h. rt \<noteq> Open h"
  obtains c where "caller = Some c" "\<And>h. rt = AdminOnly h \<Longrightarrow> admin_claims c"
proof -
  have "\<exists>c. caller = Some c \<and> (\<forall>h. rt = AdminOnly h \<longrightarrow> admin_claims c)"
    using assms
    by (cases rt) (auto simp: authenticate_def AdminMiddleware_def admin_claims_def map_sum_Inr split: sum.splits if_splits
        elim!: bindM_OkE dest!: return_OkD)
  with that show thesis by blast
qed

lemma not_open: "\<not> public req \<Longrightarrow> Router L req = Some rt \<Longrightarrow> rt \<noteq> Open h"
  by (cases req) (auto simp: Router_def router_defs)

lemma serve_permitted:
  assumes "serve L cred req w = (Ok a, w')" "wdb w' \<noteq> wdb w" "\<not> public req" "acyclic (parent_rel (wdb w))"
  shows "\<exists>rt c w1. Router L req = Some rt \<and> authenticate L cred rt w = (Ok (Inr (Some c)), w1) \<and> permitted c req (wdb w)"
proof -
  obtain rt where rt: "Router L req = Some rt" using Router_Some by blast
  let ?k = "\<lambda>r. case r of Inl st \<Rightarrow> returnM (Rejected st) | Inr caller \<Rightarrow> respond (runHandler rt caller)"
  have "changes (bindM (authenticate L cred rt) ?k) w"
    using assms(1,2) rt by (simp add: changes_def serve_def)
  then obtain r w1 where a: "authenticate L cred rt w = (Ok r, w1)" and d: "wdb w1 = wdb w" and k: "changes (?k r) w1"
    by (rule changes_bind) (intro pres)
  from k obtain caller where r: "r = Inr caller" and h: "changes (runHandler rt caller) w1"
    by (cases r) (auto dest: changes_respond)
  from authenticate_caller[OF a[unfolded r] not_open[OF assms(3) rt]] obtain c where
    c: "caller = Some c" "\<And>h. rt = AdminOnly h \<Longrightarrow> admin_claims c" by blast
  have "permitted c req (wdb w1)"
    using handler_permitted[OF h[unfolded c(1)] rt _ c(2) assms(3)] assms(4) d by simp
  with rt a r c(1) d show ?thesis by auto
qed

lemma sys_run_inv: "sys_run L days w w' \<Longrightarrow> db_inv (wdb w) \<Longrightarrow> db_inv (wdb w')"
  by (induction rule: sys_run.induct) (blast intro: sys_step_inv)+

section \<open>Samples\<close>

definition sample_libs :: libs where
  "sample_libs = \<lparr>lib_crypto = test_crypto, lib_jwt = test_jwt, lib_md5 = (\<lambda>_. []), lib_mime = (\<lambda>_. []),
     lib_likes = (\<lambda>s p. s = p), lib_json_ints = (\<lambda>s. None), lib_updatedAt = (\<lambda>_. 0), lib_orderUsers = (\<lambda>_ xs. xs),
     lib_orderGroups = (\<lambda>_ xs. xs), lib_orderMembers = (\<lambda>_ xs. xs), lib_orderShares = (\<lambda>_ xs. xs),
     lib_orderFiles = (\<lambda>_ xs. xs), lib_orderFolders = (\<lambda>_ xs. xs), lib_adminCreateOnly = False, lib_userLimit = None,
     lib_copyFuel = 2\<rparr>"

text \<open>A second bucket that only administrators reach; user 2 is none.\<close>

definition admin_bucket :: Bucket where
  "admin_bucket = sample_bucket\<lparr>bkt_ID := 2, bkt_Name := ''two'', bkt_UsedSpace := 1, bkt_OwnerID := 1, bkt_PermissionLevel := Admin\<rparr>"

definition sample_levels :: world where
  "sample_levels = sample_two\<lparr>wdb := (wdb sample_two)\<lparr>buckets := \<lparr>rows = [sample_bucket, admin_bucket], seq = 3\<rparr>\<rparr>\<rparr>"

section \<open>Properties\<close>

text \<open>C1: every run of the system keeps the database sound: whatever requests are served, in whatever order,
  with the hourly jobs and restarts between them and with any calls of the database and the storage failing.\<close>

theorem sys_invariant:
  "sys_run L days w w' \<Longrightarrow> db_inv (wdb w) \<Longrightarrow> db_inv (wdb w')"
  by (rule sys_run_inv)

theorem sys_invariant_witness:
  "db_inv (wdb (snd (serve sample_libs ''Bearer t'' (ReqCreateDir 1 ''n'') sample)))"
proof -
  let ?s = "serve sample_libs ''Bearer t'' (ReqCreateDir 1 ''n'') sample"
  have "map_outcome (\<lambda>_. ()) (fst ?s) = Ok ()" by code_simp
  then obtain a where "?s = (Ok a, snd ?s)" by (cases ?s; cases "fst ?s") auto
  from sys_run.steps[OF sys_run.start sys_step.request[OF this]]
  show ?thesis by (rule sys_invariant) (simp add: sample_inv)
qed






end
