(* ===== verification/Spec2Isabelle.thy ===== *)
theory Spec2Isabelle
  imports BucketCoder Ranges Paths Quota Visibility Protocol WriteCache CopyMove Tokens Accounts UserGroups Buckets Listing Sharing Perm Batches Cron Access
begin

text \<open>
  OrbitCloud: a verification library of the core of a network drive.
\<close>

end
